(* ===== verification/Prelude.thy ===== *)
theory Prelude
  imports Main "HOL-Library.Word"
begin

text \<open>
  The vocabulary shared by every component of the Graphite development: the machine
  integers of the Rust code, the outcome of a fallible Rust call, slices that panic out of
  range, the big-endian byte encodings (\<^verbatim>\<open>to_be_bytes\<close>, \<^verbatim>\<open>from_be_bytes\<close>) every on-disk
  format is made of, the bit counts \<^verbatim>\<open>leading_zeros\<close> and \<^verbatim>\<open>trailing_zeros\<close>, and the
  collections of rewrite rules the component proofs pass to the simplifier.

  Arithmetic is that of a release build, which is what the README builds: \<open>+\<close>, \<open>-\<close> and
  \<open>*\<close> wrap around, and a shift takes its amount modulo the width.  Lengths, indices and
  other \<^verbatim>\<open>usize\<close> values that only count elements of a vector in memory are \<open>nat\<close>.
\<close>

unbundle bit_operations_syntax

type_synonym u8 = "8 word"
type_synonym u16 = "16 word"
type_synonym u32 = "32 word"
type_synonym u64 = "64 word"
type_synonym i64 = "64 word"
type_synonym bytes = "u8 list"

named_theorems codec_simps "evaluation of the byte encoders and decoders"
named_theorems outcome_simps "monad laws and case rules of outcomes"

subsection \<open>Outcomes of a Rust call\<close>

text \<open>
  \<open>Ok\<close> and \<open>Err\<close> are the two constructors of \<^verbatim>\<open>Result\<close>.  \<open>Panic\<close> is an unwinding panic
  (an index or slice out of range, an \<^verbatim>\<open>unwrap\<close> of \<^verbatim>\<open>None\<close>), \<open>Deadlock\<close> a call that blocks
  for ever on a lock its own thread holds.
\<close>

datatype ('a, 'e) outcome = Ok 'a | Err 'e | Panic | Deadlock

fun bind_outcome :: "('a, 'e) outcome \<Rightarrow> ('a \<Rightarrow> ('b, 'e) outcome) \<Rightarrow> ('b, 'e) outcome" where
  "bind_outcome (Ok x) f = f x"
| "bind_outcome (Err e) f = Err e"
| "bind_outcome Panic f = Panic"
| "bind_outcome Deadlock f = Deadlock"

fun map_err :: "('e \<Rightarrow> 'f) \<Rightarrow> ('a, 'e) outcome \<Rightarrow> ('a, 'f) outcome" where
  "map_err g (Ok x) = Ok x"
| "map_err g (Err e) = Err (g e)"
| "map_err g Panic = Panic"
| "map_err g Deadlock = Deadlock"

definition or_panic :: "'a option \<Rightarrow> ('a, 'e) outcome" where
  "or_panic x = (case x of None \<Rightarrow> Panic | Some y \<Rightarrow> Ok y)"

lemma or_panic_simps [simp, outcome_simps]:
  "or_panic None = Panic" "or_panic (Some x) = Ok x"
  by (simp_all add: or_panic_def)

lemma bind_outcome_Ok_iff [outcome_simps]:
  "bind_outcome m f = Ok y \<longleftrightarrow> (\<exists>x. m = Ok x \<and> f x = Ok y)"
  by (cases m) auto

lemma bind_outcome_assoc [outcome_simps]:
  "bind_outcome (bind_outcome m f) g = bind_outcome m (\<lambda>x. bind_outcome (f x) g)"
  by (cases m) auto

subsection \<open>Slices\<close>

text \<open>\<^verbatim>\<open>&xs[i..j]\<close>: \<open>None\<close> is the panic of a range that is reversed or ends past the vector.\<close>

definition rslice :: "nat \<Rightarrow> nat \<Rightarrow> 'a list \<Rightarrow> 'a list option" where
  "rslice i j xs = (if i \<le> j \<and> j \<le> length xs then Some (take (j - i) (drop i xs)) else None)"

lemma length_rslice: "rslice i j xs = Some ys \<Longrightarrow> length ys = j - i"
  by (auto simp: rslice_def split: if_splits)

lemma rslice_append_mid [codec_simps]:
  "i = length xs \<Longrightarrow> j = length xs + length ys \<Longrightarrow> rslice i j (xs @ ys @ zs) = Some ys"
  by (simp add: rslice_def)

lemma rslice_None_iff: "rslice i j xs = None \<longleftrightarrow> j < i \<or> length xs < j"
  by (auto simp: rslice_def)

subsection \<open>Big-endian bytes\<close>

text \<open>
  \<open>be_bytes n w\<close> is \<^verbatim>\<open>w.to_be_bytes()\<close> of an \<open>n\<close>-byte integer, \<open>from_be\<close> is
  \<^verbatim>\<open>from_be_bytes\<close> on a slice of any length.
\<close>

fun be_bytes :: "nat \<Rightarrow> 'a::len word \<Rightarrow> bytes" where
  "be_bytes 0 w = []"
| "be_bytes (Suc n) w = ucast (drop_bit (8 * n) w) # be_bytes n w"

definition from_be :: "bytes \<Rightarrow> 'a::len word" where
  "from_be bs = foldl (\<lambda>acc b. push_bit 8 acc OR ucast b) 0 bs"

lemma length_be_bytes [simp]: "length (be_bytes n w) = n"
  by (induction n) auto

lemma be_bytes_eq_Nil [simp]: "be_bytes n w = [] \<longleftrightarrow> n = 0"
  by (cases n) auto

lemma foldl_be_bytes:
  fixes w acc :: "'a::len word"
  shows "foldl (\<lambda>acc b. push_bit 8 acc OR ucast b) acc (be_bytes n w)
    = push_bit (8 * n) acc OR take_bit (8 * n) w"
proof (induction n arbitrary: acc)
  case 0
  then show ?case by simp
next
  case (Suc n)
  have "push_bit (8 * n) (push_bit 8 acc OR ucast (ucast (drop_bit (8 * n) w) :: u8))
      OR take_bit (8 * n) w
    = push_bit (8 * Suc n) acc OR take_bit (8 * Suc n) w"
    by (rule bit_eqI) (auto simp: bit_simps not_le not_less add.commute)
  then show ?case using Suc.IH by simp
qed

lemma from_be_be_bytes: "from_be (be_bytes n w) = take_bit (8 * n) (w :: 'a::len word)"
  by (simp add: from_be_def foldl_be_bytes)

lemma from_be_inverse [simp, codec_simps]:
  fixes w :: "'a::len word"
  assumes "LENGTH('a) \<le> 8 * n"
  shows "from_be (be_bytes n w) = w"
  using assms by (simp add: from_be_be_bytes take_bit_word_eq_self)

lemma take_be_bytes [simp]:
  "m = k \<Longrightarrow> take m (be_bytes k w @ xs) = be_bytes k w"
  "m = k \<Longrightarrow> drop m (be_bytes k w @ xs) = xs"
  by simp_all

subsection \<open>Counting zero bits\<close>

definition leading_zeros :: "u64 \<Rightarrow> nat" where
  "leading_zeros x = length (takeWhile (\<lambda>i. \<not> bit x i) (rev [0 ..< 64]))"

definition trailing_zeros :: "u64 \<Rightarrow> nat" where
  "trailing_zeros x = length (takeWhile (\<lambda>i. \<not> bit x i) [0 ..< 64])"

lemma leading_zeros_le: "leading_zeros x \<le> 64"
  using length_takeWhile_le [of "\<lambda>i. \<not> bit x i" "rev [0 ..< 64]"]
  by (simp add: leading_zeros_def del: upt_rec_numeral)

lemma trailing_zeros_le: "trailing_zeros x \<le> 64"
  using length_takeWhile_le [of "\<lambda>i. \<not> bit x i" "[0 ..< 64]"]
  by (simp add: trailing_zeros_def del: upt_rec_numeral)

lemma not_bit_leading:
  assumes "64 - leading_zeros x \<le> i"
  shows "\<not> bit x i"
proof (cases "i < 64")
  case True
  let ?tw = "takeWhile (\<lambda>i. \<not> bit x i) (rev [0 ..< 64])"
  have j: "63 - i < length ?tw"
    using assms True leading_zeros_le [of x] by (auto simp: leading_zeros_def simp del: upt_rec_numeral)
  have "?tw ! (63 - i) = rev [0 ..< 64] ! (63 - i)"
    using j by (rule takeWhile_nth)
  also have "\<dots> = i" using True by (simp add: rev_nth del: upt_rec_numeral)
  finally show ?thesis using j nth_mem set_takeWhileD by metis
next
  case False
  then show ?thesis by (auto dest: bit_imp_le_length)
qed

lemma not_bit_trailing:
  assumes "i < trailing_zeros x"
  shows "\<not> bit x i"
proof -
  let ?tw = "takeWhile (\<lambda>i. \<not> bit x i) [0 ..< 64]"
  have j: "i < length ?tw" using assms by (simp add: trailing_zeros_def)
  have "?tw ! i = [0 ..< 64] ! i" using j by (rule takeWhile_nth)
  also have "\<dots> = i" using assms trailing_zeros_le [of x] by (simp del: upt_rec_numeral)
  finally show ?thesis using j nth_mem set_takeWhileD by metis
qed

lemma unat_less_leading: "unat x < 2 ^ (64 - leading_zeros x)"
proof -
  have "take_bit (64 - leading_zeros x) x = x"
    by (rule bit_eqI) (auto simp: bit_take_bit_iff dest: not_bit_leading [rotated] intro: ccontr
        simp flip: not_le)
  then have "unat x = take_bit (64 - leading_zeros x) (unat x)"
    by (metis unsigned_take_bit_eq)
  then show ?thesis by (metis take_bit_nat_less_exp)
qed

lemma bit_at_trailing: "x \<noteq> 0 \<Longrightarrow> trailing_zeros x < 64 \<and> bit x (trailing_zeros x)"
proof -
  assume "x \<noteq> 0"
  then obtain n where n: "bit x n" by (auto simp: bit_eq_iff)
  then have n64: "n < 64" using bit_imp_le_length [of x n] by simp
  have "\<not> n < trailing_zeros x" using n not_bit_trailing by blast
  then have lt: "trailing_zeros x < 64" using n64 by simp
  then have "trailing_zeros x < length [0 ..< 64]" by simp
  then have "bit x ([0 ..< 64] ! trailing_zeros x)"
    unfolding trailing_zeros_def using nth_length_takeWhile by blast
  with lt show ?thesis by (simp del: upt_rec_numeral)
qed

lemma bit_below_leading: "x \<noteq> 0 \<Longrightarrow> leading_zeros x < 64"
  using not_bit_leading [of x] by (metis bit_eqI bit_0_eq bot_apply bot_bool_def diff_is_0_eq' le0
      not_le)

text \<open>The bits of a non-zero word lie between its trailing and its leading zeros.\<close>

lemma leading_trailing_sum: "x \<noteq> 0 \<Longrightarrow> leading_zeros x + trailing_zeros x < 64"
  using bit_at_trailing [of x] not_bit_leading [of x "trailing_zeros x"] by fastforce

end
