(* ===== verification/F64.thy ===== *)
theory F64
  imports Prelude
begin

text \<open>
  The \<^verbatim>\<open>f64\<close> of Rust: IEEE 754 binary64, as its bit pattern (\<^verbatim>\<open>to_bits\<close> and
  \<^verbatim>\<open>from_bits\<close> are the identity on the model).  Every finite value is an integer multiple
  of \<open>2\<^sup>-\<^sup>1\<^sup>0\<^sup>7\<^sup>4\<close>; \<open>f64_int\<close> is that integer, so that addition, subtraction and
  multiplication are exact on integers and one rounding function, to nearest with ties to
  even, gives the result of each operation.  A NaN that an operation produces is the
  canonical quiet NaN (Rust leaves its payload open).
\<close>

type_synonym f64 = "64 word"

definition f64_exp :: "f64 \<Rightarrow> nat" where
  "f64_exp x = nat (uint (take_bit 11 (drop_bit 52 x)))"

definition f64_frac :: "f64 \<Rightarrow> int" where
  "f64_frac x = uint (take_bit 52 x)"

definition f64_neg :: "f64 \<Rightarrow> bool" where
  "f64_neg x = bit x 63"

definition f64_is_nan :: "f64 \<Rightarrow> bool" where
  "f64_is_nan x \<longleftrightarrow> f64_exp x = 2047 \<and> f64_frac x \<noteq> 0"

definition f64_is_inf :: "f64 \<Rightarrow> bool" where
  "f64_is_inf x \<longleftrightarrow> f64_exp x = 2047 \<and> f64_frac x = 0"

definition f64_nan :: f64 where "f64_nan = 0x7FF8000000000000"

definition f64_inf :: "bool \<Rightarrow> f64" where
  "f64_inf neg = (if neg then 0xFFF0000000000000 else 0x7FF0000000000000)"

definition f64_zero :: "bool \<Rightarrow> f64" where
  "f64_zero neg = (if neg then 0x8000000000000000 else 0)"

text \<open>The magnitude of a finite value is \<open>f64_man x * 2 ^ f64_scale x\<close> units.  An infinity
  decodes to a magnitude above every finite one, which is what the comparisons need.\<close>

definition f64_man :: "f64 \<Rightarrow> int" where
  "f64_man x = (if f64_exp x = 0 then f64_frac x else 2 ^ 52 + f64_frac x)"

definition f64_scale :: "f64 \<Rightarrow> nat" where
  "f64_scale x = f64_exp x - 1"

definition f64_signed :: "f64 \<Rightarrow> int" where
  "f64_signed x = (if f64_neg x then - f64_man x else f64_man x)"

definition f64_int :: "f64 \<Rightarrow> int" where
  "f64_int x = f64_signed x * 2 ^ f64_scale x"

function bit_length :: "int \<Rightarrow> nat" where
  "bit_length n = (if n \<le> 0 then 0 else Suc (bit_length (n div 2)))"
  by pat_completeness auto
termination
  by (relation "measure nat") auto

declare bit_length.simps [simp del]

text \<open>Round the positive rational \<open>n / d * 2 ^ e\<close>, in units of \<open>2\<^sup>-\<^sup>1\<^sup>0\<^sup>7\<^sup>4\<close>, to the
  nearest value, ties to even; where \<open>e\<close> is not zero the caller gives \<open>d \<le> n\<close>, so that
  the quotient can be scaled to 53 significant bits.  Adding the mantissa \<open>t'\<close> to the
  shifted exponent carries into the exponent by itself.\<close>

definition f64_round :: "bool \<Rightarrow> int \<Rightarrow> int \<Rightarrow> nat \<Rightarrow> f64" where
  "f64_round neg n d e =
     (let l = bit_length (n div d);
          k = min e (53 - l);
          s = l - 53;
          num = n * 2 ^ k;
          q = d * 2 ^ s;
          t = num div q;
          r = num mod q;
          t' = (if 2 * r > q \<or> (2 * r = q \<and> odd t) then t + 1 else t);
          m = int (e + s - k) * 2 ^ 52 + t'
      in if 2047 * 2 ^ 52 \<le> m then f64_inf neg
         else (if neg then 0x8000000000000000 else 0) OR of_int m)"

definition f64_of_scaled :: "bool \<Rightarrow> int \<Rightarrow> nat \<Rightarrow> f64" where
  "f64_of_scaled zneg i e = (if i = 0 then f64_zero zneg else f64_round (i < 0) \<bar>i\<bar> 1 e)"

definition f64_add :: "f64 \<Rightarrow> f64 \<Rightarrow> f64" where
  "f64_add x y =
     (if f64_is_nan x \<or> f64_is_nan y then f64_nan
      else if f64_is_inf x then
        (if f64_is_inf y \<and> f64_neg x \<noteq> f64_neg y then f64_nan else x)
      else if f64_is_inf y then y
      else (let e = min (f64_scale x) (f64_scale y)
            in f64_of_scaled (f64_neg x \<and> f64_neg y)
                 (f64_signed x * 2 ^ (f64_scale x - e) + f64_signed y * 2 ^ (f64_scale y - e)) e))"

definition f64_negate :: "f64 \<Rightarrow> f64" where
  "f64_negate x = x XOR 0x8000000000000000"

definition f64_sub :: "f64 \<Rightarrow> f64 \<Rightarrow> f64" where
  "f64_sub x y = f64_add x (f64_negate y)"

definition f64_mul :: "f64 \<Rightarrow> f64 \<Rightarrow> f64" where
  "f64_mul x y =
     (let neg = (f64_neg x \<noteq> f64_neg y); e = f64_scale x + f64_scale y
      in if f64_is_nan x \<or> f64_is_nan y then f64_nan
         else if f64_is_inf x \<or> f64_is_inf y then
           (if f64_man x = 0 \<or> f64_man y = 0 then f64_nan else f64_inf neg)
         else if f64_man x = 0 \<or> f64_man y = 0 then f64_zero neg
         else f64_round neg (f64_man x * f64_man y) (2 ^ (1074 - e)) (e - 1074))"

definition f64_div :: "f64 \<Rightarrow> f64 \<Rightarrow> f64" where
  "f64_div x y =
     (let neg = (f64_neg x \<noteq> f64_neg y); e = f64_scale x + 958; f = f64_scale y
      in if f64_is_nan x \<or> f64_is_nan y then f64_nan
         else if f64_is_inf x then (if f64_is_inf y then f64_nan else f64_inf neg)
         else if f64_is_inf y then f64_zero neg
         else if f64_man y = 0 then (if f64_man x = 0 then f64_nan else f64_inf neg)
         else if f64_man x = 0 then f64_zero neg
         else f64_round neg (f64_man x * 2 ^ 116) (f64_man y * 2 ^ (f - e)) (e - f))"

text \<open>The order of the values is the order of the sign and magnitude bits.\<close>

definition f64_key :: "f64 \<Rightarrow> int" where
  "f64_key x = (let m = uint (take_bit 63 x) in if f64_neg x then - m else m)"

definition f64_lt :: "f64 \<Rightarrow> f64 \<Rightarrow> bool" where
  "f64_lt x y \<longleftrightarrow> \<not> f64_is_nan x \<and> \<not> f64_is_nan y \<and> f64_key x < f64_key y"

definition f64_le :: "f64 \<Rightarrow> f64 \<Rightarrow> bool" where
  "f64_le x y \<longleftrightarrow> \<not> f64_is_nan x \<and> \<not> f64_is_nan y \<and> f64_key x \<le> f64_key y"

definition f64_eq :: "f64 \<Rightarrow> f64 \<Rightarrow> bool" where
  "f64_eq x y \<longleftrightarrow> \<not> f64_is_nan x \<and> \<not> f64_is_nan y \<and> f64_key x = f64_key y"

text \<open>\<^verbatim>\<open>f64::max\<close> and \<^verbatim>\<open>f64::min\<close> ignore a NaN argument.\<close>

definition f64_max :: "f64 \<Rightarrow> f64 \<Rightarrow> f64" where
  "f64_max x y = (if f64_is_nan x then y else if f64_is_nan y then x
                  else if f64_lt x y then y else x)"

definition f64_min :: "f64 \<Rightarrow> f64 \<Rightarrow> f64" where
  "f64_min x y = (if f64_is_nan x then y else if f64_is_nan y then x
                  else if f64_lt y x then y else x)"

text \<open>The casts \<^verbatim>\<open>as f64\<close> of \<^verbatim>\<open>u64\<close> and \<^verbatim>\<open>i64\<close>, and \<^verbatim>\<open>as i64\<close>, which truncates and
  saturates; a decimal literal \<open>n / 10 ^ k\<close>.\<close>

definition f64_of_u64 :: "u64 \<Rightarrow> f64" where
  "f64_of_u64 w = f64_of_scaled False (uint w) 1074"

definition f64_of_i64 :: "i64 \<Rightarrow> f64" where
  "f64_of_i64 w = f64_of_scaled False (sint w) 1074"

definition f64_of_decimal :: "bool \<Rightarrow> int \<Rightarrow> nat \<Rightarrow> f64" where
  "f64_of_decimal neg n k =
     (if n = 0 then f64_zero neg
      else let g = min 1074 (bit_length (10 ^ k))
           in f64_round neg (n * 2 ^ g) (10 ^ k) (1074 - g))"

definition f64_trunc :: "f64 \<Rightarrow> int" where
  "f64_trunc x =
     (let a = f64_man x * 2 ^ (f64_scale x - 1074) div 2 ^ (1074 - f64_scale x)
      in if f64_neg x then - a else a)"

definition f64_to_i64 :: "f64 \<Rightarrow> i64" where
  "f64_to_i64 x =
     (if f64_is_nan x then 0
      else if f64_trunc x < - (2 ^ 63) then of_int (- (2 ^ 63))
      else if 2 ^ 63 \<le> f64_trunc x then of_int (2 ^ 63 - 1)
      else of_int (f64_trunc x))"

text \<open>\<^verbatim>\<open>x.fract() == 0.0\<close>: the value is finite and an integer.\<close>

definition f64_fract_is_zero :: "f64 \<Rightarrow> bool" where
  "f64_fract_is_zero x \<longleftrightarrow> f64_exp x \<noteq> 2047 \<and>
     f64_man x * 2 ^ (f64_scale x - 1074) mod 2 ^ (1074 - f64_scale x) = 0"

subsection \<open>The order of bit patterns is the order of values\<close>

lemma f64_frac_bounds: "0 \<le> f64_frac x" "f64_frac x < 2 ^ 52"
  using take_bit_int_less_exp [of 52 "uint x"]
  by (simp_all add: f64_frac_def unsigned_take_bit_eq)

lemma f64_mag_bits: "uint (take_bit 63 x) = int (f64_exp x) * 2 ^ 52 + f64_frac x"
proof -
  have "uint (take_bit 63 x) = take_bit 63 (uint x)"
    by (simp add: unsigned_take_bit_eq)
  also have "\<dots> = push_bit 52 (take_bit 11 (drop_bit 52 (uint x))) + take_bit 52 (uint x)"
    using bits_ident [of 52 "take_bit 63 (uint x)"] by (simp add: drop_bit_take_bit)
  also have "\<dots> = int (f64_exp x) * 2 ^ 52 + f64_frac x"
    by (simp add: f64_exp_def f64_frac_def push_bit_eq_mult unsigned_take_bit_eq unsigned_drop_bit_eq drop_bit_take_bit)
  finally show ?thesis .
qed

lemma f64_mag_mono:
  assumes "int (f64_exp x) * 2 ^ 52 + f64_frac x < int (f64_exp y) * 2 ^ 52 + f64_frac y"
  shows "f64_man x * 2 ^ f64_scale x < f64_man y * 2 ^ f64_scale y"
proof -
  note b = f64_frac_bounds [of x] f64_frac_bounds [of y]
  consider "f64_exp x = f64_exp y" "f64_frac x < f64_frac y" | "f64_exp x < f64_exp y"
    using assms b by fastforce
  then show ?thesis
  proof cases
    case 1
    then show ?thesis by (simp add: f64_man_def f64_scale_def)
  next
    case 2
    then have y: "f64_man y = 2 ^ 52 + f64_frac y" and "0 < f64_exp y"
      by (simp_all add: f64_man_def)
    have x: "f64_man x < 2 ^ 53" and x0: "f64_exp x = 0 \<Longrightarrow> f64_man x < 2 ^ 52"
      using b by (simp_all add: f64_man_def)
    show ?thesis
    proof (cases "f64_exp x = 0")
      case True
      have "f64_man x < 2 ^ 52 + f64_frac y" using x0 [OF True] b by simp
      also have "\<dots> \<le> f64_man y * 2 ^ f64_scale y"
        using y b by (simp add: mult_le_cancel_left1)
      finally show ?thesis using True by (simp add: f64_scale_def)
    next
      case False
      with 2 have "f64_scale x < f64_scale y" by (auto simp: f64_scale_def)
      then obtain d where d: "f64_scale y = f64_scale x + Suc d"
        using less_imp_Suc_add by auto
      have "f64_man x * 2 ^ f64_scale x < 2 ^ 53 * 2 ^ f64_scale x"
        using x by simp
      also have "\<dots> \<le> (2 ^ 52 + f64_frac y) * 2 ^ d * 2 * 2 ^ f64_scale x"
        using mult_mono [of "2 ^ 52" "2 ^ 52 + f64_frac y" 1 "2 ^ d :: int"] b by (simp add: mult.commute)
      finally show ?thesis using y d by (simp add: power_add algebra_simps)
    qed
  qed
qed

lemma f64_mag_eq:
  assumes "int (f64_exp x) * 2 ^ 52 + f64_frac x = int (f64_exp y) * 2 ^ 52 + f64_frac y"
  shows "f64_man x * 2 ^ f64_scale x = f64_man y * 2 ^ f64_scale y"
proof -
  have e: "f64_exp x = f64_exp y"
    using assms f64_frac_bounds [of x] f64_frac_bounds [of y] by fastforce
  with assms have "f64_frac x = f64_frac y" by simp
  with e show ?thesis by (simp add: f64_man_def f64_scale_def)
qed

lemma sign_mag_less:
  fixes m n v w :: int
  assumes "m < n \<longleftrightarrow> v < w" "n < m \<longleftrightarrow> w < v" "0 \<le> m" "0 \<le> n" "0 \<le> v" "0 \<le> w"
    "m = 0 \<longleftrightarrow> v = 0" "n = 0 \<longleftrightarrow> w = 0"
  shows "(if a then - m else m) < (if b then - n else n) \<longleftrightarrow>
    (if a then - v else v) < (if b then - w else w)"
  using assms by auto

lemma f64_key_less_iff: "f64_key x < f64_key y \<longleftrightarrow> f64_int x < f64_int y"
proof -
  let ?m = "\<lambda>x. int (f64_exp x) * 2 ^ 52 + f64_frac x"
  let ?v = "\<lambda>x. f64_man x * 2 ^ f64_scale x"
  have key: "f64_key x = (if f64_neg x then - ?m x else ?m x)" for x
    by (simp add: f64_key_def f64_mag_bits)
  have int: "f64_int x = (if f64_neg x then - ?v x else ?v x)" for x
    by (simp add: f64_int_def f64_signed_def)
  have iff: "?m x < ?m y \<longleftrightarrow> ?v x < ?v y" for x y
    using f64_mag_mono [of x y] f64_mag_mono [of y x] f64_mag_eq [of x y]
    by (cases "?m x" "?m y" rule: linorder_cases) linarith+
  have pos: "0 \<le> ?m x" "0 \<le> ?v x" and zero: "?m x = 0 \<longleftrightarrow> ?v x = 0" for x
    using f64_frac_bounds [of x] by (auto simp: f64_man_def f64_scale_def)
  show ?thesis
    unfolding key int by (intro sign_mag_less iff pos zero)
qed

end
