(* ===== verification/Types.thy ===== *)
theory Types
  imports F64
begin

text \<open>
  \<^verbatim>\<open>graphite-core/src/types.rs\<close>: ticks, composite keys and their order, the column
  identifiers, the SSTable metadata and the WAL records; and \<^verbatim>\<open>batch.rs\<close>, the two shapes of
  bulk input.
\<close>

subsection \<open>Keys\<close>

datatype key = Key (k_symbol_id: u16) (k_timestamp: i64)

datatype ordering = Less | Equal | Greater

definition cmp_u16 :: "u16 \<Rightarrow> u16 \<Rightarrow> ordering" where
  "cmp_u16 a b = (if a < b then Less else if a = b then Equal else Greater)"

definition cmp_i64 :: "i64 \<Rightarrow> i64 \<Rightarrow> ordering" where
  "cmp_i64 a b = (if sint a < sint b then Less else if a = b then Equal else Greater)"

definition key_cmp :: "key \<Rightarrow> key \<Rightarrow> ordering" where
  "key_cmp a b = (case cmp_u16 (k_symbol_id a) (k_symbol_id b) of
      Equal \<Rightarrow> cmp_i64 (k_timestamp a) (k_timestamp b)
    | ord \<Rightarrow> ord)"

instantiation key :: linorder
begin

definition less_eq_key :: "key \<Rightarrow> key \<Rightarrow> bool" where
  "less_eq_key a b \<longleftrightarrow> key_cmp a b \<noteq> Greater"

definition less_key :: "key \<Rightarrow> key \<Rightarrow> bool" where
  "less_key a b \<longleftrightarrow> key_cmp a b = Less"

instance
  by standard
    (auto simp: less_eq_key_def less_key_def key_cmp_def cmp_u16_def cmp_i64_def
       intro: key.expand dest: signed_word_eqI split: ordering.splits if_splits)

end

lemma key_cmp_iff:
  "key_cmp a b = Less \<longleftrightarrow> a < b" "key_cmp a b = Equal \<longleftrightarrow> a = b" "key_cmp a b = Greater \<longleftrightarrow> b < a"
  by (auto simp: less_key_def key_cmp_def cmp_u16_def cmp_i64_def
       intro: key.expand dest: signed_word_eqI split: ordering.splits if_splits)

definition key_encode :: "key \<Rightarrow> bytes" where
  "key_encode k = be_bytes 2 (k_symbol_id k) @ be_bytes 8 (k_timestamp k)"

definition key_decode :: "bytes \<Rightarrow> key option" where
  "key_decode buf = (if length buf < 10 then None
     else Some (Key (from_be (take 2 buf)) (from_be (take 8 (drop 2 buf)))))"

lemma length_key_encode [simp]: "length (key_encode k) = 10"
  by (simp add: key_encode_def)

lemma key_decode_encode [codec_simps]: "key_decode (key_encode k @ rest) = Some k"
  by (simp add: key_decode_def key_encode_def)

lemma key_encode_inject [simp]: "key_encode a = key_encode b \<longleftrightarrow> a = b"
  by (metis append_Nil2 key_decode_encode option.inject)

subsection \<open>Ticks and the records of the engine\<close>

record tick =
  t_symbol_id :: u16
  t_timestamp :: i64
  t_open :: f64
  t_high :: f64
  t_low :: f64
  t_close :: f64
  t_volume :: u64

text \<open>\<^verbatim>\<open>Key::new(tick.symbol_id, tick.timestamp)\<close>, which every component computes.\<close>

definition tick_key :: "tick \<Rightarrow> key" where
  "tick_key t = Key (t_symbol_id t) (t_timestamp t)"

datatype column = Timestamp | Symbol | Open | High | Low | Close | Volume

definition column_all :: "column list" where
  "column_all = [Timestamp, Symbol, Open, High, Low, Close, Volume]"

record sstable_meta =
  m_min_timestamp :: i64
  m_max_timestamp :: i64
  m_min_symbol_id :: u16
  m_max_symbol_id :: u16
  m_row_count :: u64
  m_file_size :: u64
  m_level :: u32

datatype wal_record = WInsert tick | WDelete key | WCheckpoint u64

definition BLOCK_SIZE :: nat where "BLOCK_SIZE = 4096"
definition INDEX_INTERVAL :: nat where "INDEX_INTERVAL = 16"
definition L0_MAX_TABLES :: nat where "L0_MAX_TABLES = 4"
definition LEVEL_SIZE_RATIO :: u64 where "LEVEL_SIZE_RATIO = 10"
definition BLOOM_FPR :: f64 where "BLOOM_FPR = 0x3F847AE147AE147B"

text \<open>\<open>i64::MIN\<close> and \<open>i64::MAX\<close>.\<close>

definition i64_min :: i64 where "i64_min = 0x8000000000000000"
definition i64_max :: i64 where "i64_max = 0x7FFFFFFFFFFFFFFF"

lemma sint_i64_min_le: "sint i64_min \<le> sint (x :: i64)"
  using sint_greater_eq [of x] by (simp add: i64_min_def)

lemma sint_le_i64_max: "sint (x :: i64) \<le> sint i64_max"
  using sint_less [of x] by (simp add: i64_max_def)

subsection \<open>Bulk input: \<^verbatim>\<open>batch.rs\<close>\<close>

record symbol_tick =
  st_symbol :: string
  st_timestamp :: i64
  st_open :: f64
  st_high :: f64
  st_low :: f64
  st_close :: f64
  st_volume :: u64

definition to_tick :: "symbol_tick \<Rightarrow> u16 \<Rightarrow> tick" where
  "to_tick st sid = \<lparr>t_symbol_id = sid, t_timestamp = st_timestamp st, t_open = st_open st,
     t_high = st_high st, t_low = st_low st, t_close = st_close st, t_volume = st_volume st\<rparr>"

record tick_batch =
  b_timestamps :: "i64 list"
  b_opens :: "f64 list"
  b_highs :: "f64 list"
  b_lows :: "f64 list"
  b_closes :: "f64 list"
  b_volumes :: "u64 list"

definition batch_len :: "tick_batch \<Rightarrow> nat" where
  "batch_len b = length (b_timestamps b)"

definition batch_is_empty :: "tick_batch \<Rightarrow> bool" where
  "batch_is_empty b = (b_timestamps b = [])"

text \<open>Indexing panics where one of the six columns is too short.\<close>

definition tick_at :: "tick_batch \<Rightarrow> nat \<Rightarrow> u16 \<Rightarrow> tick option" where
  "tick_at b i sid =
     (if i < length (b_timestamps b) \<and> i < length (b_opens b) \<and> i < length (b_highs b) \<and>
         i < length (b_lows b) \<and> i < length (b_closes b) \<and> i < length (b_volumes b)
      then Some \<lparr>t_symbol_id = sid, t_timestamp = b_timestamps b ! i, t_open = b_opens b ! i,
             t_high = b_highs b ! i, t_low = b_lows b ! i, t_close = b_closes b ! i,
             t_volume = b_volumes b ! i\<rparr>
      else None)"

text \<open>The check \<^verbatim>\<open>insert_numpy\<close> makes: all six columns have the length of the first.\<close>

definition batch_rectangular :: "tick_batch \<Rightarrow> bool" where
  "batch_rectangular b \<longleftrightarrow> length (b_opens b) = batch_len b \<and> length (b_highs b) = batch_len b \<and>
     length (b_lows b) = batch_len b \<and> length (b_closes b) = batch_len b \<and>
     length (b_volumes b) = batch_len b"

lemma tick_at_rectangular:
  "batch_rectangular b \<Longrightarrow> (\<exists>t. tick_at b i sid = Some t) \<longleftrightarrow> i < batch_len b"
  by (auto simp: tick_at_def batch_rectangular_def batch_len_def)

subsection \<open>Key-sorted tick lists\<close>

text \<open>
  The abstract contents of a memtable and of a query result: ticks in strictly increasing
  key order.  \<open>tick_insert\<close> is the map update, \<open>tick_lookup\<close> the map application.
\<close>

definition tick_sorted :: "tick list \<Rightarrow> bool" where
  "tick_sorted ts = sorted_wrt (<) (map tick_key ts)"

fun tick_insert :: "tick \<Rightarrow> tick list \<Rightarrow> tick list" where
  "tick_insert t [] = [t]"
| "tick_insert t (u # us) =
     (if tick_key u < tick_key t then u # tick_insert t us
      else if tick_key u = tick_key t then t # us
      else t # u # us)"

fun tick_lookup :: "tick list \<Rightarrow> key \<Rightarrow> tick option" where
  "tick_lookup [] k = None"
| "tick_lookup (u # us) k = (if tick_key u = k then Some u else tick_lookup us k)"

lemma tick_sorted_simps [simp]:
  "tick_sorted []"
  "tick_sorted (t # ts) \<longleftrightarrow> (\<forall>u \<in> set ts. tick_key t < tick_key u) \<and> tick_sorted ts"
  by (auto simp: tick_sorted_def)

lemma tick_sorted_append:
  "tick_sorted (xs @ ys) \<longleftrightarrow>
    tick_sorted xs \<and> tick_sorted ys \<and> (\<forall>x \<in> set xs. \<forall>y \<in> set ys. tick_key x < tick_key y)"
  by (induction xs) auto

lemma set_tick_insert:
  "tick_sorted ts \<Longrightarrow> set (tick_insert t ts) = insert t {u \<in> set ts. tick_key u \<noteq> tick_key t}"
  by (induction ts) auto

lemma tick_sorted_insert: "tick_sorted ts \<Longrightarrow> tick_sorted (tick_insert t ts)"
  by (induction ts) (auto simp: set_tick_insert)

lemma tick_lookup_None: "tick_lookup ts k = None \<longleftrightarrow> k \<notin> tick_key ` set ts"
  by (induction ts) auto

lemma tick_lookup_Some:
  "tick_sorted ts \<Longrightarrow> tick_lookup ts k = Some t \<longleftrightarrow> t \<in> set ts \<and> tick_key t = k"
  by (induction ts) auto

lemma tick_lookup_skip:
  "\<forall>t \<in> set xs. tick_key t \<noteq> k \<Longrightarrow> tick_lookup (xs @ ys) k = tick_lookup ys k"
  by (induction xs) auto

lemma tick_lookup_insert:
  "tick_lookup (tick_insert t ts) k = (if k = tick_key t then Some t else tick_lookup ts k)"
  if "tick_sorted ts"
  using that by (induction ts) (auto simp: tick_lookup_None)

lemma tick_insert_split:
  assumes "\<forall>u \<in> set xs. tick_key u < tick_key t"
  shows "tick_insert t (xs @ ys) = xs @ tick_insert t ys"
  using assms by (induction xs) auto

lemma length_tick_insert:
  "tick_sorted ts \<Longrightarrow> length (tick_insert t ts)
    = (if tick_key t \<in> tick_key ` set ts then length ts else Suc (length ts))"
  by (induction ts) auto

lemma tick_sorted_distinct: "tick_sorted ts \<Longrightarrow> distinct (map tick_key ts)"
  by (simp add: tick_sorted_def strict_sorted_iff)

lemma tick_sorted_filter: "tick_sorted ts \<Longrightarrow> tick_sorted (filter P ts)"
  by (induction ts) auto

end
