(* ===== verification/ColumnCodec.thy ===== *)
theory ColumnCodec
  imports Types
begin

text \<open>
  The contract of a column encoder: what is decoded is what was encoded, for the columns
  the format can carry.  The decoder may panic (\<open>None\<close>) on other bytes.
\<close>

locale column_codec =
  fixes enc :: "'a list \<Rightarrow> bytes"
    and dec :: "bytes \<Rightarrow> 'a list option"
    and carries :: "'a list \<Rightarrow> bool"
  assumes roundtrip: "carries xs \<Longrightarrow> dec (enc xs) = Some xs"
begin

lemma enc_inject: "carries xs \<Longrightarrow> carries ys \<Longrightarrow> enc xs = enc ys \<Longrightarrow> xs = ys"
  by (metis option.inject roundtrip)

text \<open>A reader that finds the column at its offset in a block gets the column back.\<close>

lemma dec_in_block:
  "carries xs \<Longrightarrow> Option.bind (rslice (length pre) (length pre + length (enc xs))
     (pre @ enc xs @ post)) dec = Some xs"
  by (simp add: rslice_append_mid roundtrip)

end

text \<open>The count field of the formats is a \<^verbatim>\<open>u32\<close>.\<close>

definition fits_u32 :: "'a list \<Rightarrow> bool" where
  "fits_u32 xs \<longleftrightarrow> length xs < 2 ^ 32"

lemma unat_of_nat_u32: "n < 2 ^ 32 \<Longrightarrow> unat (of_nat n :: u32) = n"
  by (simp add: unat_of_nat)

lemma unat_of_nat_u64: "n < 2 ^ 64 \<Longrightarrow> unat (of_nat n :: u64) = n"
  by (simp add: unat_of_nat)

lemma unat_byte_u32: "n < 256 \<Longrightarrow> unat (ucast (of_nat n :: u8) :: u32) = n"
  by (simp add: unsigned_ucast_eq unat_of_nat take_bit_nat_eq_self_iff)

end
