(* ===== verification/Delta.thy ===== *)
theory Delta
  imports ColumnCodec
begin

text \<open>
  \<^verbatim>\<open>graphite-core/src/compression/delta.rs\<close>: delta encoding and bit-packing of the timestamp
  column.  The bit buffer is a 64-bit word and the bit count an unsigned byte, as in the
  code; shifts take their amount modulo 64.
\<close>

definition shl64 :: "u64 \<Rightarrow> nat \<Rightarrow> u64" where
  "shl64 x n = push_bit (n mod 64) x"

definition shr64 :: "u64 \<Rightarrow> nat \<Rightarrow> u64" where
  "shr64 x n = drop_bit (n mod 64) x"

fun deltas_from :: "i64 \<Rightarrow> i64 list \<Rightarrow> i64 list" where
  "deltas_from prev [] = []"
| "deltas_from prev (t # ts) = (t - prev) # deltas_from t ts"

fun i64_minimum :: "i64 \<Rightarrow> i64 list \<Rightarrow> i64" where
  "i64_minimum m [] = m"
| "i64_minimum m (x # xs) = i64_minimum (if sint x < sint m then x else m) xs"

fun i64_maximum :: "i64 \<Rightarrow> i64 list \<Rightarrow> i64" where
  "i64_maximum m [] = m"
| "i64_maximum m (x # xs) = i64_maximum (if sint m \<le> sint x then x else m) xs"

text \<open>\<open>while bit_count >= 8\<close>: move whole bytes out of the buffer.\<close>

function pack_flush :: "u64 \<Rightarrow> nat \<Rightarrow> bytes \<times> u64 \<times> nat" where
  "pack_flush bb bc =
     (if 8 \<le> bc then let (out, r) = pack_flush (shr64 bb 8) (bc - 8) in (ucast bb # out, r)
      else ([], bb, bc))"
  by pat_completeness auto
termination
  by (relation "measure snd") auto

declare pack_flush.simps [simp del]

fun pack_deltas :: "nat \<Rightarrow> i64 \<Rightarrow> i64 list \<Rightarrow> u64 \<Rightarrow> nat \<Rightarrow> bytes" where
  "pack_deltas bits min_delta [] bb bc = (if 0 < bc then [ucast bb] else [])"
| "pack_deltas bits min_delta (d # ds) bb bc =
     (let normalized = d - min_delta;
          (out, bb', bc') = pack_flush (bb OR shl64 normalized bc) (bc + bits)
      in out @ pack_deltas bits min_delta ds bb' bc')"

definition delta_bits :: "i64 list \<Rightarrow> nat" where
  "delta_bits deltas =
     (let range = i64_maximum (hd deltas) (tl deltas) - i64_minimum (hd deltas) (tl deltas)
      in if range = 0 then 0 else 64 - leading_zeros range)"

fun delta_encode :: "i64 list \<Rightarrow> bytes" where
  "delta_encode [] = [0, 0, 0, 0]"
| "delta_encode (t # ts) =
     (let deltas = t # deltas_from t ts;
          min_delta = i64_minimum t (deltas_from t ts);
          bits_needed = delta_bits deltas;
          buf = be_bytes 4 (of_nat (length (t # ts)) :: u32) @ be_bytes 8 t @ [of_nat bits_needed]
      in if bits_needed = 0 then buf
         else buf @ pack_deltas bits_needed min_delta (tl deltas) 0 0 @ be_bytes 8 min_delta)"

text \<open>\<open>while bit_count < bits_needed\<close>: pull bytes into the buffer as long as there are any.\<close>

fun unpack_fill :: "nat \<Rightarrow> bytes \<Rightarrow> u64 \<Rightarrow> nat \<Rightarrow> bytes \<times> u64 \<times> nat" where
  "unpack_fill bits [] bb bc = ([], bb, bc)"
| "unpack_fill bits (b # bs) bb bc =
     (if bc < bits then unpack_fill bits bs (bb OR shl64 (ucast b) bc) ((bc + 8) mod 256)
      else (b # bs, bb, bc))"

fun unpack_deltas :: "nat \<Rightarrow> i64 \<Rightarrow> nat \<Rightarrow> bytes \<Rightarrow> u64 \<Rightarrow> nat \<Rightarrow> i64 \<Rightarrow> i64 list" where
  "unpack_deltas bits min_delta 0 packed bb bc prev = []"
| "unpack_deltas bits min_delta (Suc n) packed bb bc prev =
     (let (packed', bb', bc') = unpack_fill bits packed bb bc;
          mask = (if bits = 64 then - 1 else shl64 1 bits - 1);
          normalized = bb' AND mask;
          delta = normalized + min_delta;
          cur = prev + delta
      in cur # unpack_deltas bits min_delta n packed' (shr64 bb' bits) ((bc' + 256 - bits) mod 256) cur)"

text \<open>\<open>None\<close> is the panic of \<open>&data[13..min_delta_offset]\<close> on 13 to 20 bytes of input.\<close>

definition delta_decode :: "bytes \<Rightarrow> i64 list option" where
  "delta_decode data =
     (if length data < 13 then Some []
      else let count = unat (from_be (take 4 data) :: u32);
               first = from_be (take 8 (drop 4 data));
               bits_needed = unat (data ! 12)
           in if count = 0 then Some []
              else if count = 1 then Some [first]
              else if bits_needed = 0 then Some (replicate count first)
              else let min_delta_offset = length data - 8;
                       min_delta = from_be (drop min_delta_offset data)
                   in map_option
                        (\<lambda>packed. first # unpack_deltas bits_needed min_delta (count - 1) packed 0 0 first)
                        (rslice 13 min_delta_offset data))"

subsection \<open>The packed bytes as one number\<close>

fun le_val :: "bytes \<Rightarrow> nat" where
  "le_val [] = 0"
| "le_val (b # bs) = unat b + 256 * le_val bs"

fun stream_val :: "nat \<Rightarrow> nat list \<Rightarrow> nat" where
  "stream_val bits [] = 0"
| "stream_val bits (v # vs) = v + 2 ^ bits * stream_val bits vs"

lemma le_val_append: "le_val (xs @ ys) = le_val xs + 2 ^ (8 * length xs) * le_val ys"
  by (induction xs) (auto simp: power_add algebra_simps)

lemma unat_or_shl:
  assumes "unat bb < 2 ^ bc" "bc < 64" "unat n < 2 ^ (64 - bc)"
  shows "unat (bb OR shl64 n bc) = unat bb + 2 ^ bc * unat n"
proof -
  have "2 ^ bc * unat n < 2 ^ bc * 2 ^ (64 - bc)" using assms by simp
  also have "\<dots> = (2::nat) ^ 64" using assms by (simp flip: power_add)
  finally have "push_bit bc (unat n) < 2 ^ 64" by (simp add: push_bit_eq_mult mult.commute)
  then have "unat (shl64 n bc) = push_bit bc (unat n)"
    using assms by (simp add: shl64_def unsigned_push_bit_eq take_bit_nat_eq_self_iff)
  then have "unat (bb OR shl64 n bc) = unat bb OR push_bit bc (unat n)"
    by (simp add: unsigned_or_eq)
  also have "\<dots> = unat bb + push_bit bc (unat n)"
  proof (rule disjunctive_add_eq_or [symmetric])
    have "take_bit bc (unat bb) = unat bb" using assms by (simp add: take_bit_nat_eq_self_iff)
    then have "\<not> bit (unat bb) i" if "bc \<le> i" for i
      using that by (metis bit_take_bit_iff not_le)
    then show "unat bb AND push_bit bc (unat n) = 0"
      by (intro bit_eqI) (auto simp: bit_simps)
  qed
  finally show ?thesis by (simp add: push_bit_eq_mult mult.commute)
qed

lemma pack_flush_val:
  assumes "pack_flush bb bc = (out, bb', bc')" "unat bb < 2 ^ bc"
  shows "bc = 8 * length out + bc' \<and> bc' < 8 \<and> unat bb' < 2 ^ bc' \<and>
    unat bb = le_val out + 2 ^ (8 * length out) * unat bb'"
  using assms
proof (induction bb bc arbitrary: out rule: pack_flush.induct)
  case (1 bb bc)
  show ?case
  proof (cases "8 \<le> bc")
    case False
    then show ?thesis using "1.prems" by (simp add: pack_flush.simps [of bb bc])
  next
    case True
    obtain out1 where flush: "pack_flush (shr64 bb 8) (bc - 8) = (out1, bb', bc')"
      and out: "out = ucast bb # out1"
      using "1.prems"(1) True by (auto simp: pack_flush.simps [of bb bc] split: prod.splits)
    have shr: "unat (shr64 bb 8) = unat bb div 256"
      by (simp add: shr64_def drop_bit_eq_div unat_div_distrib)
    obtain c where "bc = c + 8" using True le_Suc_ex by (metis add.commute)
    then have "unat bb div 256 < 2 ^ (bc - 8)"
      using "1.prems"(2) by (simp add: power_add less_mult_imp_div_less)
    then have ih: "bc - 8 = 8 * length out1 + bc' \<and> bc' < 8 \<and> unat bb' < 2 ^ bc' \<and>
        unat bb div 256 = le_val out1 + 2 ^ (8 * length out1) * unat bb'"
      using "1.IH" [OF True flush] shr by simp
    have "unat (ucast bb :: u8) = unat bb mod 256"
      by (simp add: unsigned_ucast_eq take_bit_eq_mod)
    then have "unat bb = unat (ucast bb :: u8) + 256 * (unat bb div 256)" by simp
    moreover have "bc = 8 + (bc - 8)" using True by simp
    ultimately show ?thesis using ih out by (simp add: power_add algebra_simps)
  qed
qed

lemma pack_deltas_val:
  assumes "\<forall>d \<in> set ds. unat (d - m) < 2 ^ bits" "bits \<le> 57" "bc < 8" "unat bb < 2 ^ bc"
  shows "le_val (pack_deltas bits m ds bb bc)
      = unat bb + 2 ^ bc * stream_val bits (map (\<lambda>d. unat (d - m)) ds)
    \<and> bc + bits * length ds \<le> 8 * length (pack_deltas bits m ds bb bc)"
  using assms
proof (induction ds arbitrary: bb bc)
  case Nil
  have "unat (ucast bb :: u8) = unat bb" if "0 < bc"
  proof -
    have "unat bb < 2 ^ 8" using Nil.prems(3,4) by (meson less_imp_le less_le_trans
          one_le_numeral power_increasing)
    then show ?thesis by (simp add: unsigned_ucast_eq take_bit_nat_eq_self_iff)
  qed
  then show ?case using Nil.prems by auto
next
  case (Cons d ds)
  let ?n = "d - m"
  obtain out bb' bc' where fl: "pack_flush (bb OR shl64 ?n bc) (bc + bits) = (out, bb', bc')"
    by (metis prod_cases3)
  have n: "unat ?n < 2 ^ bits" using Cons.prems by simp
  also have "(2::nat) ^ bits \<le> 2 ^ (64 - bc)" using Cons.prems by (intro power_increasing) auto
  finally have or: "unat (bb OR shl64 ?n bc) = unat bb + 2 ^ bc * unat ?n"
    using Cons.prems by (intro unat_or_shl) auto
  have "unat bb + 2 ^ bc * unat ?n < 2 ^ bc + 2 ^ bc * unat ?n" using Cons.prems by simp
  also have "\<dots> = 2 ^ bc * (unat ?n + 1)" by simp
  also have "\<dots> \<le> 2 ^ bc * 2 ^ bits" using n by (intro mult_le_mono2) simp
  finally have "unat (bb OR shl64 ?n bc) < 2 ^ (bc + bits)" by (simp add: or power_add)
  then have v: "bc + bits = 8 * length out + bc'" "bc' < 8" "unat bb' < 2 ^ bc'"
    "unat bb + 2 ^ bc * unat ?n = le_val out + 2 ^ (8 * length out) * unat bb'"
    using pack_flush_val [OF fl] or by auto
  let ?S = "stream_val bits (map (\<lambda>d. unat (d - m)) ds)"
  have ih: "le_val (pack_deltas bits m ds bb' bc') = unat bb' + 2 ^ bc' * ?S"
    "bc' + bits * length ds \<le> 8 * length (pack_deltas bits m ds bb' bc')"
    using Cons.IH [OF _ _ v(2,3)] Cons.prems by auto
  have eq: "pack_deltas bits m (d # ds) bb bc = out @ pack_deltas bits m ds bb' bc'"
    using fl by (simp add: Let_def)
  have "2 ^ (8 * length out) * 2 ^ bc' = (2::nat) ^ bc * 2 ^ bits"
    using v(1) by (simp flip: power_add)
  then have "2 ^ (8 * length out) * (2 ^ bc' * ?S) = 2 ^ bc * (2 ^ bits * ?S)"
    by (simp only: mult.assoc [symmetric])
  then have "le_val (pack_deltas bits m (d # ds) bb bc) = unat bb + 2 ^ bc * (unat ?n + 2 ^ bits * ?S)"
    unfolding eq le_val_append ih distrib_left using v(4) by linarith
  then show ?case using ih(2) v(1) eq by simp
qed

lemma unpack_fill_val:
  assumes "unpack_fill bits packed bb bc = (packed', bb', bc')" "unat bb < 2 ^ bc" "bits \<le> 57"
    "bc < bits + 8" "bits \<le> bc + 8 * length packed"
  shows "bits \<le> bc' \<and> bc' < bits + 8 \<and> unat bb' < 2 ^ bc' \<and>
    bc' + 8 * length packed' = bc + 8 * length packed \<and>
    unat bb' + 2 ^ bc' * le_val packed' = unat bb + 2 ^ bc * le_val packed"
  using assms
proof (induction bits packed bb bc rule: unpack_fill.induct)
  case (1 bits bb bc)
  then show ?case by simp
next
  case (2 bits b bs bb bc)
  show ?case
  proof (cases "bc < bits")
    case False
    then show ?thesis using "2.prems" by auto
  next
    case True
    have byte: "unat (ucast b :: u64) = unat b"
      by (simp add: unsigned_ucast_eq take_bit_nat_eq_self_iff less_le_trans [OF unsigned_less])
    have "unat b < 2 ^ 8" using unsigned_less [of b, where ?'a = nat] by simp
    also have "(2::nat) ^ 8 \<le> 2 ^ (64 - bc)" using True "2.prems"(3) by (intro power_increasing) auto
    finally have or: "unat (bb OR shl64 (ucast b) bc) = unat bb + 2 ^ bc * unat b"
      using "2.prems"(2,3) True byte by (subst unat_or_shl) auto
    have "unat bb + 2 ^ bc * unat b < 2 ^ bc + 2 ^ bc * unat b" using "2.prems" by simp
    also have "\<dots> = 2 ^ bc * (unat b + 1)" by simp
    also have "\<dots> \<le> 2 ^ bc * 2 ^ 8" using unsigned_less [of b, where ?'a = nat] by (intro mult_le_mono2) simp
    finally have lt: "unat (bb OR shl64 (ucast b) bc) < 2 ^ (bc + 8)" by (simp add: or power_add)
    have bc: "(bc + 8) mod 256 = bc + 8" using True "2.prems"(3) by simp
    have "unpack_fill bits bs (bb OR shl64 (ucast b) bc) (bc + 8) = (packed', bb', bc')"
      using "2.prems"(1) True bc by simp
    with "2.IH" [OF True] lt "2.prems" True bc or show ?thesis
      by (simp add: power_add algebra_simps)
  qed
qed

lemma mask_take_bit: "0 < bits \<Longrightarrow> bits \<le> 57 \<Longrightarrow> shl64 1 bits - 1 = (mask bits :: u64)"
  by (simp add: shl64_def mask_eq_exp_minus_1 push_bit_of_1)

lemma unpack_deltas_val:
  assumes "unat bb < 2 ^ bc" "bc < 8" "0 < bits" "bits \<le> 57"
    "\<forall>d \<in> set (deltas_from prev ts). unat (d - m) < 2 ^ bits"
    "unat bb + 2 ^ bc * le_val packed = stream_val bits (map (\<lambda>d. unat (d - m)) (deltas_from prev ts))"
    "bits * length ts \<le> bc + 8 * length packed"
  shows "unpack_deltas bits m (length ts) packed bb bc prev = ts"
  using assms
proof (induction ts arbitrary: bb bc packed prev)
  case Nil
  then show ?case by simp
next
  case (Cons t ts)
  obtain packed' bb' bc' where fill: "unpack_fill bits packed bb bc = (packed', bb', bc')"
    by (metis prod_cases3)
  let ?S = "stream_val bits (map (\<lambda>d. unat (d - m)) (deltas_from t ts))"
  let ?n = "t - prev - m"
  have f: "bits \<le> bc'" "bc' < bits + 8" "unat bb' < 2 ^ bc'"
    "bc' + 8 * length packed' = bc + 8 * length packed"
    "unat bb' + 2 ^ bc' * le_val packed' = unat ?n + 2 ^ bits * ?S"
    using unpack_fill_val [OF fill Cons.prems(1,4)] Cons.prems by auto
  have n: "unat ?n < 2 ^ bits" using Cons.prems(5) by simp
  obtain e where e: "bc' = bits + e" "e < 8" using f(1,2) le_Suc_ex by auto
  let ?V = "unat bb' + 2 ^ bits * (2 ^ e * le_val packed')"
  have V: "?V = unat ?n + 2 ^ bits * ?S" using f(5) e by (simp add: power_add mult.assoc)
  have "?V mod 2 ^ bits = unat ?n" "?V div 2 ^ bits = ?S" unfolding V using n by simp_all
  then have vmod: "unat bb' mod 2 ^ bits = unat ?n"
    and vdiv: "unat bb' div 2 ^ bits + 2 ^ e * le_val packed' = ?S" by simp_all
  have "unat (bb' AND mask bits) = take_bit bits (unat bb')"
    by (simp add: unsigned_take_bit_eq flip: take_bit_eq_mask)
  then have "unat (bb' AND mask bits) = unat ?n" using vmod by (simp add: take_bit_eq_mod)
  then have norm: "bb' AND mask bits = ?n" by (simp add: word_unat_eq_iff)
  have "take_bit 64 (unat bb') = unat bb'"
    using unsigned_less [of bb', where ?'a = nat] by (simp only: take_bit_nat_eq_self_iff) simp
  then have "unat (shr64 bb' bits) = drop_bit bits (unat bb')"
    using Cons.prems(4) by (simp add: shr64_def unsigned_drop_bit_eq)
  then have shr: "unat (shr64 bb' bits) = unat bb' div 2 ^ bits" by (simp add: drop_bit_eq_div)
  have "unat bb' div 2 ^ bits < 2 ^ e"
    using f(3) e by (simp add: power_add less_mult_imp_div_less mult.commute)
  then have "unpack_deltas bits m (length ts) packed' (shr64 bb' bits) e t = ts"
    using Cons.prems f e shr vdiv by (intro Cons.IH) auto
  moreover have "(bc' + 256 - bits) mod 256 = e" using e by simp
  ultimately show ?case
    using fill norm mask_take_bit [OF Cons.prems(3,4)] Cons.prems(4) by (simp add: Let_def)
qed

subsection \<open>The width is enough for every delta\<close>

lemma i64_minimum_le:
  "sint (i64_minimum m xs) \<le> sint m \<and> (\<forall>x \<in> set xs. sint (i64_minimum m xs) \<le> sint x)"
  by (induction xs arbitrary: m) (auto, (meson order.trans less_imp_le not_less)+)

lemma i64_maximum_ge:
  "sint m \<le> sint (i64_maximum m xs) \<and> (\<forall>x \<in> set xs. sint x \<le> sint (i64_maximum m xs))"
  by (induction xs arbitrary: m) (auto, (meson order.trans less_imp_le not_less)+)

lemma unat_diff_signed:
  fixes a b :: i64
  assumes "sint a \<le> sint b"
  shows "int (unat (b - a)) = sint b - sint a"
proof -
  have "uint (b - a) = uint (of_int (sint b - sint a) :: i64)" by simp
  also have "\<dots> = (sint b - sint a) mod 2 ^ 64" by (subst uint_word_of_int) simp
  finally have "uint (b - a) = (sint b - sint a) mod 2 ^ 64" .
  moreover have "sint b - sint a < 2 ^ 64"
    using sint_less [of b] sint_greater_eq [of a] by simp
  ultimately show ?thesis using assms by simp
qed

lemma delta_width:
  assumes "d \<in> set (x # xs)"
  shows "unat (d - i64_minimum x xs) < 2 ^ delta_bits (x # xs)"
proof -
  let ?lo = "i64_minimum x xs" and ?hi = "i64_maximum x xs"
  have lo: "sint ?lo \<le> sint d" and hi: "sint d \<le> sint ?hi"
    using assms i64_minimum_le [of x xs] i64_maximum_ge [of x xs] by auto
  have "int (unat (d - ?lo)) \<le> int (unat (?hi - ?lo))"
    unfolding unat_diff_signed [OF lo] unat_diff_signed [OF order.trans [OF lo hi]] using hi by simp
  then have "unat (d - ?lo) \<le> unat (?hi - ?lo)" by (simp only: of_nat_le_iff)
  moreover have "unat (?hi - ?lo) < 2 ^ delta_bits (x # xs)"
    using unat_less_leading [of "?hi - ?lo"] by (simp add: delta_bits_def Let_def)
  ultimately show ?thesis by simp
qed

lemma delta_bits_zero:
  assumes "delta_bits (x # xs) = 0" "d \<in> set (x # xs)"
  shows "d = x"
proof -
  have "unat (d - i64_minimum x xs) < 1" "unat (x - i64_minimum x xs) < 1"
    using delta_width [of d x xs] delta_width [of x x xs] assms by auto
  then show ?thesis by (simp add: unat_eq_0)
qed

lemma delta_bits_le: "delta_bits xs \<le> 64"
  by (simp add: delta_bits_def Let_def)

subsection \<open>Round trip\<close>

text \<open>
  The columns the format carries: the width of the packed deltas leaves room for seven
  leftover bits in the 64-bit buffer, and a zero width means that all timestamps are equal.
  The first timestamp counts as a delta, so it enters the width.
\<close>

definition delta_carries :: "i64 list \<Rightarrow> bool" where
  "delta_carries ts \<longleftrightarrow> fits_u32 ts \<and>
     (case ts of [] \<Rightarrow> True
      | t # us \<Rightarrow> delta_bits (t # deltas_from t us) \<le> 57 \<and>
          (delta_bits (t # deltas_from t us) = 0 \<longrightarrow> us \<noteq> [] \<longrightarrow> t = 0))"

lemma deltas_zero: "\<forall>d \<in> set (deltas_from t ts). d = 0 \<Longrightarrow> ts = replicate (length ts) t"
  by (induction ts arbitrary: t) auto

lemma length_deltas_from [simp]: "length (deltas_from t ts) = length ts"
  by (induction ts arbitrary: t) auto

lemma delta_roundtrip:
  assumes "delta_carries ts"
  shows "delta_decode (delta_encode ts) = Some ts"
proof (cases ts)
  case Nil
  then show ?thesis by (simp add: delta_decode_def)
next
  case (Cons t us)
  let ?ds = "deltas_from t us"
  define bits where "bits = delta_bits (t # ?ds)"
  define m where "m = i64_minimum t ?ds"
  define cnt where "cnt = be_bytes 4 (of_nat (length (t # us)) :: u32)"
  have b: "bits \<le> 57" "bits = 0 \<longrightarrow> us \<noteq> [] \<longrightarrow> t = 0" and len: "length (t # us) < 2 ^ 32"
    using assms Cons by (auto simp: delta_carries_def fits_u32_def bits_def)
  have cnt4: "length cnt = 4" "unat (from_be cnt :: u32) = length (t # us)"
    using len by (simp_all add: cnt_def unat_of_nat_u32 del: of_nat_Suc)
  have byte: "unat (of_nat bits :: u8) = bits" using b by (simp add: unat_of_nat)
  define hdr where "hdr = cnt @ be_bytes 8 t @ [of_nat bits]"
  have hdr: "length hdr = 13" "take 4 (hdr @ x) = cnt" "take 8 (drop 4 (hdr @ x)) = be_bytes 8 t"
    "(hdr @ x) ! 12 = of_nat bits" for x
    using cnt4 by (simp_all add: hdr_def nth_append)
  show ?thesis
  proof (cases "bits = 0")
    case True
    have enc: "delta_encode ts = hdr"
      using Cons True by (simp add: Let_def hdr_def cnt_def flip: bits_def)
    have "us = replicate (length us) t" if "us \<noteq> []"
    proof (rule deltas_zero)
      have "d = t" if "d \<in> set ?ds" for d
        by (rule delta_bits_zero [of t ?ds]) (use that True in \<open>simp_all add: bits_def\<close>)
      then show "\<forall>d \<in> set ?ds. d = 0" using True b(2) that by blast
    qed
    then have rep: "us \<noteq> [] \<Longrightarrow> replicate (length (t # us)) t = t # us" by simp
    have "delta_decode hdr = Some (if us = [] then [t] else replicate (length (t # us)) t)"
      using hdr(1) hdr(2-4) [of "[]"] cnt4 byte True unfolding delta_decode_def Let_def
      by simp
    then show ?thesis unfolding enc using rep Cons by auto
  next
    case False
    define pk where "pk = pack_deltas bits m ?ds 0 0"
    have enc: "delta_encode ts = hdr @ pk @ be_bytes 8 m"
      using Cons False by (simp add: Let_def hdr_def cnt_def pk_def m_def flip: bits_def)
    have us: "us \<noteq> []"
      using False by (auto simp: bits_def delta_bits_def Let_def)
    have w: "\<forall>d \<in> set ?ds. unat (d - m) < 2 ^ bits"
      using delta_width [of _ t ?ds] by (auto simp: bits_def m_def)
    have "le_val pk = stream_val bits (map (\<lambda>d. unat (d - m)) ?ds)"
      "bits * length us \<le> 8 * length pk"
      using pack_deltas_val [OF w b(1), of 0 0] by (simp_all add: pk_def)
    then have "unpack_deltas bits m (length us) pk 0 0 t = us"
      using w b(1) False by (intro unpack_deltas_val) auto
    moreover define D where "D = hdr @ pk @ be_bytes 8 m"
    then have "rslice 13 (length D - 8) D = Some pk"
      using hdr unfolding D_def by (intro rslice_append_mid) auto
    moreover have "from_be (drop (length D - 8) D) = m"
      using hdr by (simp add: D_def)
    moreover have "\<not> length D < 13" "take 4 D = cnt" "take 8 (drop 4 D) = be_bytes 8 t"
      "D ! 12 = of_nat bits"
      unfolding D_def hdr using hdr(1) by auto
    ultimately show ?thesis
      using cnt4(2) byte False us Cons enc by (simp add: delta_decode_def flip: D_def)
  qed
qed

interpretation delta: column_codec delta_encode delta_decode delta_carries
  by unfold_locales (rule delta_roundtrip)

subsection \<open>Properties\<close>

text \<open>
  C25. The timestamp column survives encoding and decoding: whenever the deltas (the first
  timestamp counted as one) need at most 57 bits, and width zero (all deltas alike) occurs only
  for a single timestamp or a column of zeros, decoding the encoding of some and fewer than
  \<open>2\<^sup>3\<^sup>2\<close> timestamps gives them back, without a panic.  Without the condition on the width
  it fails: see \<open>delta_constant_step_lost\<close>.
\<close>

theorem delta_column_roundtrip:
  assumes "length (t # ts) < 2 ^ 32"
    and "delta_bits (t # deltas_from t ts) \<le> 57"
    and "delta_bits (t # deltas_from t ts) = 0 \<longrightarrow> ts = [] \<or> t = 0"
  shows "delta_decode (delta_encode (t # ts)) = Some (t # ts)"
  by (rule delta.roundtrip) (use assms in \<open>auto simp: delta_carries_def fits_u32_def\<close>)

theorem delta_column_roundtrip_witness:
  "delta_decode (delta_encode [1000, 1001, 1003, 1002]) = Some [1000, 1001, 1003, 1002]"
proof (rule delta_column_roundtrip)
  show "length [1000, 1001, 1003, 1002 :: i64] < 2 ^ 32" by simp
  show "delta_bits (1000 # deltas_from 1000 [1001, 1003, 1002]) \<le> 57" by code_simp
  show "delta_bits (1000 # deltas_from 1000 [1001, 1003, 1002]) = 0 \<longrightarrow>
    [1001, 1003, 1002 :: i64] = [] \<or> 1000 = (0 :: i64)" by code_simp
qed

lemma deltas_const:
  "deltas_from (of_nat k * t) (map (\<lambda>i. of_nat i * t) [Suc k ..< Suc k + n]) = replicate n t"
proof (induction n arbitrary: k)
  case (Suc n)
  have "[Suc k ..< Suc k + Suc n] = Suc k # [Suc (Suc k) ..< Suc (Suc k) + n]"
    by (simp add: upt_conv_Cons)
  then show ?case using Suc.IH [of "Suc k"] by (simp add: algebra_simps)
qed simp

lemma i64_extremes_const:
  "i64_minimum t (replicate n t) = t" "i64_maximum t (replicate n t) = t"
  by (induction n) auto

text \<open>
  A regular series whose step equals its first timestamp (\<open>t, 2t, 3t, ...\<close>) is not
  preserved: all deltas, the first one included, are equal, the width is zero, and the decoder
  takes a zero width for a constant column and returns \<open>t\<close> in every row.
\<close>

theorem delta_constant_step_lost:
  assumes "2 \<le> n" "n < 2 ^ 32"
  shows "delta_decode (delta_encode (map (\<lambda>i. of_nat i * t) [1 ..< Suc n])) = Some (replicate n t)"
proof -
  obtain m where n: "n = Suc m" "0 < m" using assms by (cases n) auto
  let ?us = "map (\<lambda>i. of_nat i * t) [Suc 1 ..< Suc 1 + m]"
  have split: "map (\<lambda>i. of_nat i * t) [1 ..< Suc n] = t # ?us"
    using n by (simp add: upt_conv_Cons del: upt_Suc)
  have ds: "deltas_from t ?us = replicate m t"
    using deltas_const [of 1 t m] by simp
  have "delta_bits (t # replicate m t) = 0"
    by (simp add: delta_bits_def i64_extremes_const)
  then have enc: "delta_encode (t # ?us) = be_bytes 4 (of_nat n :: u32) @ be_bytes 8 t @ [0]"
    using n unfolding delta_encode.simps ds Let_def by (simp del: upt_Suc upt_rec_numeral)
  have cnt: "unat (of_nat n :: u32) = n"
    using assms(2) by (rule unat_of_nat_u32)
  have "delta_decode (be_bytes 4 (of_nat n :: u32) @ be_bytes 8 t @ [0]) = Some (replicate n t)"
    using cnt n by (simp add: delta_decode_def Let_def nth_append del: of_nat_Suc)
  then show ?thesis unfolding split enc .
qed

theorem delta_constant_step_lost_witness:
  "delta_decode (delta_encode [60, 120, 180]) = Some [60, 60, 60]"
  using delta_constant_step_lost [of 3 60] by (simp add: upt_rec numeral_3_eq_3)

text \<open>
  Widths above 57 bits overflow the 64-bit buffer of the packer: four nanosecond
  timestamps of November 2023 with an irregular step (the first timestamp makes the width 61)
  do not survive the round trip.
\<close>

theorem delta_nanoseconds_corrupted:
  "delta_decode (delta_encode
     [1700000000000000000, 1700000000100000000, 1700000000200000007, 1700000000300000047])
   \<noteq> Some [1700000000000000000, 1700000000100000000, 1700000000200000007, 1700000000300000047]"
  by code_simp

end
