(* ===== verification/Gorilla.thy ===== *)
theory Gorilla
  imports ColumnCodec
begin

text \<open>
  \<^verbatim>\<open>graphite-core/src/compression/gorilla.rs\<close>: XOR compression of the price columns, and
  the double-delta transform applied before it.  Values are bit patterns.
\<close>

definition gorilla_value :: "u64 \<Rightarrow> u64 \<Rightarrow> bytes" where
  "gorilla_value prev cur =
     (let xo = cur XOR prev
      in if xo = 0 then [0]
         else let leading = leading_zeros xo;
                  trailing = trailing_zeros xo;
                  sig_bits = 64 - leading - trailing
              in if sig_bits \<le> 48
                 then let shifted = (if trailing < 64 then drop_bit trailing xo else 0);
                          nbytes = (sig_bits + 7) div 8
                      in 1 # of_nat leading # of_nat trailing # drop (8 - nbytes) (be_bytes 8 shifted)
                 else 2 # be_bytes 8 xo)"

fun gorilla_values :: "u64 \<Rightarrow> f64 list \<Rightarrow> bytes" where
  "gorilla_values prev [] = []"
| "gorilla_values prev (v # vs) = gorilla_value prev v @ gorilla_values v vs"

fun gorilla_encode :: "f64 list \<Rightarrow> bytes" where
  "gorilla_encode [] = [0, 0, 0, 0]"
| "gorilla_encode (v # vs) =
     be_bytes 4 (of_nat (length (v # vs)) :: u32) @ be_bytes 8 v @ gorilla_values v vs"

text \<open>The decoding loop: \<open>n\<close> values are still expected, the bytes from \<open>offset\<close> on are left.
  Bad control bytes and truncated values end the loop with what was decoded so far.  The
  \<^verbatim>\<open>u32\<close> subtraction \<open>64 - leading - trailing\<close> wraps on corrupt input.\<close>

fun gorilla_decode_values :: "nat \<Rightarrow> u64 \<Rightarrow> bytes \<Rightarrow> f64 list" where
  "gorilla_decode_values 0 prev data = []"
| "gorilla_decode_values (Suc n) prev [] = []"
| "gorilla_decode_values (Suc n) prev (control # data) =
     (if control = 0 then prev # gorilla_decode_values n prev data
      else if control = 1 then
        (if length data < 2 then []
         else let leading = (ucast (data ! 0) :: u32);
                  trailing = (ucast (data ! 1) :: u32);
                  sig_bits = unat (64 - leading - trailing);
                  nbytes = (sig_bits + 7) div 8;
                  rest = drop 2 data
              in if length rest < nbytes then []
                 else let shifted = (from_be (take nbytes rest) :: u64);
                          xo = (if trailing < 64 then push_bit (unat trailing) shifted else 0);
                          cur = prev XOR xo
                      in cur # gorilla_decode_values n cur (drop nbytes rest))
      else if control = 2 then
        (if length data < 8 then []
         else let cur = prev XOR from_be (take 8 data)
              in cur # gorilla_decode_values n cur (drop 8 data))
      else [])"

definition gorilla_decode :: "bytes \<Rightarrow> f64 list" where
  "gorilla_decode data =
     (if length data < 12 then []
      else let count = unat (from_be (take 4 data) :: u32);
               prev = from_be (take 8 (drop 4 data))
           in if count = 0 then [] else prev # gorilla_decode_values (count - 1) prev (drop 12 data))"

subsection \<open>Round trip of the XOR stage\<close>

lemma drop_be_bytes: "drop k (be_bytes (k + n) w) = be_bytes n w"
  by (induction k) auto

lemma shifted_bits:
  assumes "xo \<noteq> 0" "sig = 64 - leading_zeros xo - trailing_zeros xo" "sig \<le> 8 * n"
  shows "take_bit (8 * n) (drop_bit (trailing_zeros xo) xo) = drop_bit (trailing_zeros xo) xo"
proof (rule bit_word_eqI)
  fix i
  assume "i < LENGTH(64)"
  have "i < 8 * n" if "bit xo (trailing_zeros xo + i)"
    using that assms not_bit_leading [of xo "trailing_zeros xo + i"] by fastforce
  then show "bit (take_bit (8 * n) (drop_bit (trailing_zeros xo) xo)) i
      = bit (drop_bit (trailing_zeros xo) xo) i"
    by (auto simp: bit_simps)
qed

lemma push_drop_trailing: "push_bit (trailing_zeros x) (drop_bit (trailing_zeros x) x) = (x :: u64)"
proof (rule bit_word_eqI)
  fix n
  have "trailing_zeros x \<le> n" if "bit x n"
    using that not_bit_trailing not_less by blast
  then show "bit (push_bit (trailing_zeros x) (drop_bit (trailing_zeros x) x)) n = bit x n"
    by (auto simp: bit_simps dest: bit_imp_le_length)
qed

lemma gorilla_decode_value:
  "gorilla_decode_values (Suc n) prev (gorilla_value prev cur @ rest)
    = cur # gorilla_decode_values n cur rest"
proof -
  define xo where "xo = cur XOR prev"
  have cur: "prev XOR xo = cur" by (simp add: xo_def xor.assoc xor.left_commute)
  define lead where "lead = leading_zeros xo"
  define trail where "trail = trailing_zeros xo"
  define sig where "sig = 64 - lead - trail"
  define nb where "nb = (sig + 7) div 8"
  consider "xo = 0" | "xo \<noteq> 0" "sig \<le> 48" | "xo \<noteq> 0" "\<not> sig \<le> 48" by blast
  then show ?thesis
  proof cases
    case 1
    then show ?thesis using cur by (simp add: gorilla_value_def xo_def)
  next
    case 2
    have sum: "lead + trail < 64"
      using leading_trailing_sum [OF 2(1)] by (simp add: lead_def trail_def)
    have nb: "nb \<le> 8" "sig \<le> 8 * nb" using 2 by (auto simp: nb_def)
    have val: "gorilla_value prev cur
        = 1 # of_nat lead # of_nat trail # be_bytes nb (drop_bit trail xo)"
      using 2 sum drop_be_bytes [of "8 - nb" nb "drop_bit trail xo"] nb(1)
      by (simp add: gorilla_value_def Let_def sig_def nb_def lead_def trail_def flip: xo_def)
    have trail8: "unat (ucast (of_nat trail :: u8) :: u32) = trail"
      and lead8: "unat (ucast (of_nat lead :: u8) :: u32) = lead"
      using sum by (simp_all add: unat_byte_u32)
    have sig32: "unat (64 - (ucast (of_nat lead :: u8) :: u32) - ucast (of_nat trail :: u8)) = sig"
      using sum lead8 trail8 by (simp add: sig_def unat_sub_if')
    have "(from_be (be_bytes nb (drop_bit trail xo)) :: u64) = drop_bit trail xo"
      using shifted_bits [OF 2(1) _ nb(2)] by (simp add: from_be_be_bytes sig_def lead_def trail_def)
    then show ?thesis
      using val sig32 trail8 sum cur nb
      by (simp add: Let_def word_less_nat_alt trail_def push_drop_trailing flip: nb_def)
  next
    case 3
    then have "gorilla_value prev cur = 2 # be_bytes 8 xo"
      by (simp add: gorilla_value_def Let_def sig_def lead_def trail_def flip: xo_def)
    then show ?thesis using cur by simp
  qed
qed

lemma gorilla_decode_values_encode:
  "gorilla_decode_values (length vs) prev (gorilla_values prev vs) = vs"
proof (induction vs arbitrary: prev)
  case Nil
  then show ?case by simp
next
  case (Cons v vs)
  then show ?case using gorilla_decode_value [of "length vs" prev v] by simp
qed

lemma gorilla_roundtrip: "fits_u32 vs \<Longrightarrow> gorilla_decode (gorilla_encode vs) = vs"
proof (cases vs)
  case Nil
  then show ?thesis by (simp add: gorilla_decode_def)
next
  case (Cons v ws)
  assume "fits_u32 vs"
  then have len: "unat (of_nat (Suc (length ws)) :: u32) = Suc (length ws)"
    using Cons by (intro unat_of_nat_u32) (simp add: fits_u32_def)
  have "gorilla_encode vs
      = be_bytes 4 (of_nat (Suc (length ws)) :: u32) @ be_bytes 8 v @ gorilla_values v ws"
    using Cons by simp
  then show ?thesis
    using Cons len gorilla_decode_values_encode [of ws v]
    by (simp add: gorilla_decode_def Let_def del: of_nat_Suc)
qed

interpretation gorilla: column_codec gorilla_encode "\<lambda>b. Some (gorilla_decode b)" fits_u32
  by unfold_locales (simp add: gorilla_roundtrip)

subsection \<open>The double-delta transform\<close>

text \<open>\<open>f64_diffs p vs\<close> are the differences of neighbours in \<open>p # vs\<close>, \<open>f64_sums p ds\<close> the
  running sums from \<open>p\<close>.\<close>

fun f64_diffs :: "f64 \<Rightarrow> f64 list \<Rightarrow> f64 list" where
  "f64_diffs prev [] = []"
| "f64_diffs prev (v # vs) = f64_sub v prev # f64_diffs v vs"

fun f64_sums :: "f64 \<Rightarrow> f64 list \<Rightarrow> f64 list" where
  "f64_sums prev [] = []"
| "f64_sums prev (d # ds) = (let s = f64_add prev d in s # f64_sums s ds)"

fun compute_double_deltas :: "f64 list \<Rightarrow> f64 list" where
  "compute_double_deltas [] = []"
| "compute_double_deltas (v # vs) = v # f64_diffs v (f64_diffs v vs)"

fun reconstruct_from_double_deltas :: "f64 list \<Rightarrow> f64 list" where
  "reconstruct_from_double_deltas [] = []"
| "reconstruct_from_double_deltas (d # ds) = d # f64_sums d (f64_sums d ds)"

definition encode_double_delta :: "f64 list \<Rightarrow> bytes" where
  "encode_double_delta vs = gorilla_encode (compute_double_deltas vs)"

definition decode_double_delta :: "bytes \<Rightarrow> f64 list" where
  "decode_double_delta data = reconstruct_from_double_deltas (gorilla_decode data)"

lemma length_f64_diffs [simp]: "length (f64_diffs p vs) = length vs"
  by (induction vs arbitrary: p) auto

lemma length_f64_sums [simp]: "length (f64_sums p ds) = length ds"
  by (induction ds arbitrary: p) (auto simp: Let_def)

lemma length_double_deltas [simp]: "length (compute_double_deltas vs) = length vs"
  by (cases vs) auto

text \<open>The XOR stage is lossless, so what comes back is the rounded reconstruction; its length
  is always right.\<close>

lemma decode_encode_double_delta:
  "fits_u32 vs \<Longrightarrow> decode_double_delta (encode_double_delta vs)
    = reconstruct_from_double_deltas (compute_double_deltas vs)"
  unfolding decode_double_delta_def encode_double_delta_def
  by (subst gorilla_roundtrip) (auto simp: fits_u32_def)

lemma length_reconstruct [simp]: "length (reconstruct_from_double_deltas ds) = length ds"
  by (cases ds) auto

text \<open>A step of the transform is exact where adding the difference gives the value back.\<close>

fun diffs_exact :: "f64 \<Rightarrow> f64 list \<Rightarrow> bool" where
  "diffs_exact prev [] = True"
| "diffs_exact prev (v # vs) = (f64_add prev (f64_sub v prev) = v \<and> diffs_exact v vs)"

lemma f64_sums_diffs: "f64_sums prev (f64_diffs prev vs) = vs \<longleftrightarrow> diffs_exact prev vs"
proof (induction vs arbitrary: prev)
  case Nil
  then show ?case by simp
next
  case (Cons v vs)
  show ?case
    unfolding f64_diffs.simps f64_sums.simps diffs_exact.simps Let_def list.inject
    using Cons.IH by metis
qed

lemma double_delta_exact:
  assumes "diffs_exact v vs" "diffs_exact v (f64_diffs v vs)"
  shows "reconstruct_from_double_deltas (compute_double_deltas (v # vs)) = v # vs"
  using assms by (simp add: iffD2 [OF f64_sums_diffs])

subsection \<open>Properties\<close>

text \<open>
  C26. The XOR encoding is lossless: every column of fewer than \<open>2^32\<close> bit patterns, NaN and
  infinities included, decodes to itself, whatever bytes follow or precede it in its block.
\<close>

theorem gorilla_column_roundtrip:
  assumes "length vs < 2 ^ 32"
  shows "gorilla_decode (gorilla_encode vs) = vs"
  using gorilla_roundtrip [of vs] assms by (simp add: fits_u32_def)

theorem gorilla_column_roundtrip_witness:
  "gorilla_decode (gorilla_encode [0x3FF0000000000000, 0x7FF8000000000000, 0x4059000000000000])
    = [0x3FF0000000000000, 0x7FF8000000000000, 0x4059000000000000]"
  by (rule gorilla_column_roundtrip) simp

text \<open>
  The double-delta layer on top of it, which the SSTable uses for the four price columns,
  loses precision: the prices \<open>0.5, 0.1\<close> are read back as \<open>0.5, 0.09999999999999998\<close>, because
  differences and sums are rounded.
\<close>

theorem double_delta_lossy:
  "decode_double_delta (encode_double_delta [0x3FE0000000000000, 0x3FB999999999999A])
    = [0x3FE0000000000000, 0x3FB9999999999998]"
  by code_simp

text \<open>
  It is exact where the differences and second differences are: a price column whose
  rounded differences add back up to it is preserved.
\<close>

theorem double_delta_roundtrip:
  assumes "length (v # vs) < 2 ^ 32" and "diffs_exact v vs" and "diffs_exact v (f64_diffs v vs)"
  shows "decode_double_delta (encode_double_delta (v # vs)) = v # vs"
  using decode_encode_double_delta [of "v # vs"] double_delta_exact [of v vs] assms
  by (simp add: fits_u32_def)

theorem double_delta_roundtrip_witness:
  "decode_double_delta (encode_double_delta [0x4059000000000000, 0x4059100000000000, 0x4059080000000000])
    = [0x4059000000000000, 0x4059100000000000, 0x4059080000000000]"
proof (rule double_delta_roundtrip)
  show "diffs_exact 0x4059000000000000 [0x4059100000000000, 0x4059080000000000]" by code_simp
  show "diffs_exact 0x4059000000000000 (f64_diffs 0x4059000000000000 [0x4059100000000000, 0x4059080000000000])"
    by code_simp
qed simp

end
