(* ===== verification/RleLz4.thy ===== *)
theory RleLz4
  imports ColumnCodec
begin

text \<open>
  \<^verbatim>\<open>graphite-core/src/compression/rle_lz4.rs\<close>: run-length encoding of the volume column
  inside an LZ4 or ZSTD block.  The two compressors are crates outside the repository: the
  record \<open>compressors\<close> holds the four functions the code calls.
\<close>

record compressors =
  lz4_compress :: "bytes \<Rightarrow> bytes"
  lz4_decompress :: "bytes \<Rightarrow> bytes option"
  zstd_encode :: "bytes \<Rightarrow> bytes option"
  zstd_decode :: "bytes \<Rightarrow> bytes option"

definition CODE_LZ4 :: u8 where "CODE_LZ4 = 0"
definition CODE_ZSTD :: u8 where "CODE_ZSTD = 1"

text \<open>The inner loop of the encoder: the run at the head, counted in a \<^verbatim>\<open>u32\<close>.\<close>

fun rle_run :: "u64 \<Rightarrow> nat \<Rightarrow> u64 list \<Rightarrow> nat \<times> u64 list" where
  "rle_run val n [] = (n, [])"
| "rle_run val n (v # vs) = (if v = val then rle_run val (Suc n) vs else (n, v # vs))"

lemma length_rle_run: "length (snd (rle_run val n vs)) \<le> length vs"
  by (induction vs arbitrary: n) (auto intro: le_SucI)

function rle_runs :: "u64 list \<Rightarrow> bytes" where
  "rle_runs [] = []"
| "rle_runs (v # vs) = (let (run_len, rest) = rle_run v 1 vs in
     be_bytes 4 (of_nat run_len :: u32) @ be_bytes 8 v @ rle_runs rest)"
  by pat_completeness auto
termination
proof (relation "measure length")
  fix v :: u64 and vs :: "u64 list" and p x y
  assume "p = rle_run v 1 vs" "(x, y) = p"
  then have "y = snd (rle_run v 1 vs)" by (simp add: prod_eq_iff)
  then show "(y, v # vs) \<in> measure length" using length_rle_run [of v 1 vs] by simp
qed simp

definition rle_encode :: "u64 list \<Rightarrow> bytes" where
  "rle_encode volumes = be_bytes 4 (of_nat (length volumes) :: u32) @ rle_runs volumes"

text \<open>
  The loop of the decoder, on the bytes from the current offset on; \<open>n\<close> values have been
  pushed.  A run that overshoots \<^verbatim>\<open>total\<close> is pushed whole.
\<close>

function rle_decode_runs :: "nat \<Rightarrow> nat \<Rightarrow> bytes \<Rightarrow> u64 list" where
  "rle_decode_runs tot n data =
     (if data \<noteq> [] \<and> n < tot \<and> 12 \<le> length data
      then let run_len = unat (from_be (take 4 data) :: u32);
               val = from_be (take 8 (drop 4 data))
           in replicate run_len val @ rle_decode_runs tot (n + run_len) (drop 12 data)
      else [])"
  by pat_completeness auto
termination by (relation "measure (\<lambda>(_, _, data). length data)") auto

declare rle_decode_runs.simps [simp del]

definition rle_decode :: "bytes \<Rightarrow> u64 list" where
  "rle_decode rle = (if length rle < 4 then []
     else rle_decode_runs (unat (from_be (take 4 rle) :: u32)) 0 (drop 4 rle))"

definition encode_for_level :: "compressors \<Rightarrow> u64 list \<Rightarrow> u32 \<Rightarrow> bytes" where
  "encode_for_level c volumes level =
     (if volumes = [] then [0, 0, 0, 0]
      else let rle = rle_encode volumes;
               use_zstd = 1 \<le> level;
               compressed = (if use_zstd
                 then (case zstd_encode c rle of Some z \<Rightarrow> z | None \<Rightarrow> lz4_compress c rle)
                 else lz4_compress c rle)
           in (if use_zstd then CODE_ZSTD else CODE_LZ4) # compressed)"

definition rle_lz4_encode :: "compressors \<Rightarrow> u64 list \<Rightarrow> bytes" where
  "rle_lz4_encode c volumes = encode_for_level c volumes 0"

definition unwrap_or_default :: "bytes option \<Rightarrow> bytes" where
  "unwrap_or_default x = (case x of Some y \<Rightarrow> y | None \<Rightarrow> [])"

fun rle_lz4_decode :: "compressors \<Rightarrow> bytes \<Rightarrow> u64 list" where
  "rle_lz4_decode c [] = []"
| "rle_lz4_decode c (code # payload) =
     rle_decode (if code = CODE_LZ4 then unwrap_or_default (lz4_decompress c payload)
       else if code = CODE_ZSTD then unwrap_or_default (zstd_decode c payload)
       else unwrap_or_default (lz4_decompress c (code # payload)))"

subsection \<open>Run-length encoding\<close>

lemma rle_run_split:
  "rle_run val n vs = (m, rest) \<Longrightarrow> n \<le> m \<and> vs = replicate (m - n) val @ rest"
proof (induction vs arbitrary: n)
  case (Cons v vs)
  show ?case
  proof (cases "v = val")
    case True
    then have "Suc n \<le> m" "vs = replicate (m - Suc n) val @ rest" using Cons by auto
    moreover from this have "m - n = Suc (m - Suc n)" by simp
    ultimately show ?thesis using True by simp
  qed (use Cons.prems in auto)
qed auto

lemma rle_decode_runs_runs:
  "n + length vs < 2 ^ 32 \<Longrightarrow> rle_decode_runs (n + length vs) n (rle_runs vs) = vs"
proof (induction vs arbitrary: n rule: rle_runs.induct)
  case 1
  then show ?case by (simp add: rle_decode_runs.simps)
next
  case (2 v vs)
  obtain m rest where run: "rle_run v 1 vs = (m, rest)" by fastforce
  from rle_run_split [OF run] have m: "1 \<le> m" and vs: "vs = replicate (m - 1) v @ rest" by auto
  then have all: "v # vs = replicate m v @ rest" by (cases m) auto
  then have len: "length (v # vs) = m + length rest" by (metis length_append length_replicate)
  have ih: "rle_decode_runs (n + m + length rest) (n + m) (rle_runs rest) = rest"
    using "2.IH" [OF refl run [symmetric], of "n + m"] "2.prems" len by simp
  have "unat (of_nat m :: u32) = m" using "2.prems" len by (intro unat_of_nat_u32) simp
  moreover have runs: "rle_runs (v # vs) = be_bytes 4 (of_nat m :: u32) @ be_bytes 8 v @ rle_runs rest"
    using run by simp
  ultimately have "rle_decode_runs (n + (m + length rest)) n (rle_runs (v # vs)) = replicate m v @ rest"
    unfolding runs using ih m by (subst rle_decode_runs.simps) (simp add: Let_def add.assoc)
  then show ?case unfolding len all [symmetric] by simp
qed

lemma rle_decode_encode: "fits_u32 vs \<Longrightarrow> rle_decode (rle_encode vs) = vs"
  using rle_decode_runs_runs [of 0 vs]
  by (simp add: rle_decode_def rle_encode_def fits_u32_def unat_of_nat_u32)

interpretation rle: column_codec rle_encode "\<lambda>data. Some (rle_decode data)" fits_u32
  by unfold_locales (simp add: rle_decode_encode)

text \<open>A run costs twelve bytes however long it is.\<close>

lemma rle_run_replicate: "rle_run v n (replicate k v) = (n + k, [])"
  by (induction k arbitrary: n) auto

lemma length_rle_constant: "length (rle_encode (replicate (Suc k) v)) = 16"
  by (simp add: rle_encode_def rle_run_replicate)

text \<open>
  What the crates document: decompressing what was compressed gives the input back.
\<close>

definition lz4_lossless :: "compressors \<Rightarrow> bytes \<Rightarrow> bool" where
  "lz4_lossless c data \<longleftrightarrow> lz4_decompress c (lz4_compress c data) = Some data"

definition zstd_lossless :: "compressors \<Rightarrow> bytes \<Rightarrow> bool" where
  "zstd_lossless c data \<longleftrightarrow> (\<exists>z. zstd_encode c data = Some z \<and> zstd_decode c z = Some data)"

lemma rle_lz4_roundtrip:
  assumes "fits_u32 vs"
    and "level = 0 \<Longrightarrow> lz4_lossless c (rle_encode vs)"
    and "level \<noteq> 0 \<Longrightarrow> zstd_lossless c (rle_encode vs)"
  shows "vs \<noteq> [] \<Longrightarrow> rle_lz4_decode c (encode_for_level c vs level) = vs"
  using assms rle_decode_encode [OF assms(1)]
  by (cases "level = 0") (auto simp: encode_for_level_def Let_def lz4_lossless_def zstd_lossless_def
      CODE_LZ4_def CODE_ZSTD_def unwrap_or_default_def word_less_1 simp flip: not_less)

subsection \<open>Properties\<close>

text \<open>
  The volume column survives encoding at every level: with compressors that restore the
  block they were given (LZ4 at level 0, ZSTD above), decoding returns the encoded volumes.
\<close>

theorem volume_column_roundtrip:
  assumes "vs \<noteq> []" "length vs < 2 ^ 32"
    and "level = 0 \<longrightarrow> lz4_decompress c (lz4_compress c (rle_encode vs)) = Some (rle_encode vs)"
    and "level \<noteq> 0 \<longrightarrow> (\<exists>z. zstd_encode c (rle_encode vs) = Some z \<and>
           zstd_decode c z = Some (rle_encode vs))"
  shows "rle_lz4_decode c (encode_for_level c vs level) = vs"
  by (rule rle_lz4_roundtrip)
    (use assms in \<open>auto simp: fits_u32_def lz4_lossless_def zstd_lossless_def\<close>)

theorem volume_column_roundtrip_witness:
  "rle_lz4_decode \<lparr>lz4_compress = rev, lz4_decompress = (\<lambda>x. Some (rev x)), zstd_encode = Some,
       zstd_decode = Some\<rparr>
     (encode_for_level \<lparr>lz4_compress = rev, lz4_decompress = (\<lambda>x. Some (rev x)), zstd_encode = Some,
       zstd_decode = Some\<rparr> [100, 100, 100, 200] 1) = [100, 100, 100, 200]"
  by (rule volume_column_roundtrip) simp_all

text \<open>
  A constant volume column of any length that fits the count field is sixteen bytes
  before compression, and they decode to it.
\<close>

theorem rle_constant_size:
  assumes "k < 2 ^ 32 - 1"
  shows "length (rle_encode (replicate (Suc k) v)) = 16 \<and>
    rle_decode (rle_encode (replicate (Suc k) v)) = replicate (Suc k) v"
  using assms length_rle_constant [of k v] rle_decode_encode [of "replicate (Suc k) v"]
  by (auto simp: fits_u32_def)

theorem rle_constant_size_witness:
  "length (rle_encode (replicate (Suc 9999) 1000)) = 16"
  using rle_constant_size [of 9999 1000] by simp

end
