(* ===== verification/Dictionary.thy ===== *)
theory Dictionary
  imports ColumnCodec
begin

text \<open>
  \<^verbatim>\<open>graphite-core/src/compression/dictionary.rs\<close>: the symbol dictionary, its column codec
  and its metadata block.  A symbol is its UTF-8 bytes, one \<open>char\<close> per byte;
  \<^verbatim>\<open>String::from_utf8_lossy\<close> is the argument \<open>lossy\<close> of the reader, which is the identity on
  valid UTF-8.
\<close>

record symbol_dictionary =
  symbol_to_id :: "string \<rightharpoonup> u16"
  id_to_symbol :: "string list"

definition dict_new :: symbol_dictionary where
  "dict_new = \<lparr>symbol_to_id = Map.empty, id_to_symbol = []\<rparr>"

definition get_or_insert :: "symbol_dictionary \<Rightarrow> string \<Rightarrow> symbol_dictionary \<times> u16" where
  "get_or_insert d s = (case symbol_to_id d s of
      Some i \<Rightarrow> (d, i)
    | None \<Rightarrow> let i = of_nat (length (id_to_symbol d)) in
        (\<lparr>symbol_to_id = (symbol_to_id d)(s \<mapsto> i), id_to_symbol = id_to_symbol d @ [s]\<rparr>, i))"

definition get_id :: "symbol_dictionary \<Rightarrow> string \<Rightarrow> u16 option" where
  "get_id d s = symbol_to_id d s"

definition get_symbol :: "symbol_dictionary \<Rightarrow> u16 \<Rightarrow> string option" where
  "get_symbol d i = (if unat i < length (id_to_symbol d) then Some (id_to_symbol d ! unat i) else None)"

definition dict_len :: "symbol_dictionary \<Rightarrow> nat" where
  "dict_len d = length (id_to_symbol d)"

definition dict_is_empty :: "symbol_dictionary \<Rightarrow> bool" where
  "dict_is_empty d = (id_to_symbol d = [])"

definition encode_ids :: "u16 list \<Rightarrow> bytes" where
  "encode_ids ids = be_bytes 4 (of_nat (length ids) :: u32) @ concat (map (be_bytes 2) ids)"

text \<open>One turn of the loop of \<open>decode_ids\<close> per index; an index past the data adds nothing.\<close>

definition decode_ids :: "bytes \<Rightarrow> u16 list" where
  "decode_ids data =
     (if length data < 4 then []
      else concat (map (\<lambda>i. let offset = 4 + i * 2 in
             if offset + 2 \<le> length data then [from_be (take 2 (drop offset data))] else [])
           [0 ..< unat (from_be (take 4 data) :: u32)]))"

definition char_byte :: "char \<Rightarrow> u8" where
  "char_byte c = of_nat (of_char c)"

definition byte_char :: "u8 \<Rightarrow> char" where
  "byte_char b = char_of (unat b)"

definition as_bytes :: "string \<Rightarrow> bytes" where
  "as_bytes s = map char_byte s"

definition of_bytes :: "bytes \<Rightarrow> string" where
  "of_bytes bs = map byte_char bs"

fun metadata_symbols :: "string list \<Rightarrow> bytes" where
  "metadata_symbols [] = []"
| "metadata_symbols (s # ss) =
     be_bytes 2 (of_nat (length (as_bytes s)) :: u16) @ as_bytes s @ metadata_symbols ss"

definition to_metadata :: "symbol_dictionary \<Rightarrow> bytes" where
  "to_metadata d =
     be_bytes 4 (of_nat (length (id_to_symbol d)) :: u32) @ metadata_symbols (id_to_symbol d)"

text \<open>The loop of \<open>from_metadata\<close>, on the bytes from the current offset on.\<close>

fun read_symbols :: "(string \<Rightarrow> string) \<Rightarrow> nat \<Rightarrow> bytes \<Rightarrow> symbol_dictionary \<Rightarrow> symbol_dictionary" where
  "read_symbols lossy 0 data d = d"
| "read_symbols lossy (Suc n) data d =
     (if length data < 2 then d
      else let len = unat (from_be (take 2 data) :: u16); rest = drop 2 data in
        if length rest < len then d
        else read_symbols lossy n (drop len rest)
               (fst (get_or_insert d (lossy (of_bytes (take len rest))))))"

definition from_metadata :: "(string \<Rightarrow> string) \<Rightarrow> bytes \<Rightarrow> symbol_dictionary" where
  "from_metadata lossy data =
     (if length data < 4 then dict_new
      else read_symbols lossy (unat (from_be (take 4 data) :: u32)) (drop 4 data) dict_new)"

subsection \<open>Invariant\<close>

text \<open>
  Ids are positions and symbols are distinct.  At most \<open>2^16\<close> symbols: \<open>len as u16\<close> wraps
  beyond that.
\<close>

definition dict_inv :: "symbol_dictionary \<Rightarrow> bool" where
  "dict_inv d \<longleftrightarrow> length (id_to_symbol d) \<le> 2 ^ 16 \<and> distinct (id_to_symbol d) \<and>
     (\<forall>s i. symbol_to_id d s = Some i \<longleftrightarrow>
        unat i < length (id_to_symbol d) \<and> id_to_symbol d ! unat i = s)"

lemma dict_inv_new: "dict_inv dict_new"
  by (simp add: dict_inv_def dict_new_def)

lemma dict_id_iff: "dict_inv d \<Longrightarrow> get_id d s = Some i \<longleftrightarrow> get_symbol d i = Some s"
  by (auto simp: dict_inv_def get_id_def get_symbol_def)

lemma unat_of_nat_u16: "n < 2 ^ 16 \<Longrightarrow> unat (of_nat n :: u16) = n"
  by (simp add: unat_of_nat)

lemma dict_unmapped:
  assumes "dict_inv d"
  shows "symbol_to_id d s = None \<longleftrightarrow> s \<notin> set (id_to_symbol d)"
proof
  assume none: "symbol_to_id d s = None"
  show "s \<notin> set (id_to_symbol d)"
  proof
    assume "s \<in> set (id_to_symbol d)"
    then obtain n where n: "n < length (id_to_symbol d)" "id_to_symbol d ! n = s"
      by (auto simp: in_set_conv_nth)
    then have "n < 2 ^ 16" using assms by (auto simp: dict_inv_def)
    then have "unat (of_nat n :: u16) = n" by (rule unat_of_nat_u16)
    then have "symbol_to_id d s = Some (of_nat n)"
      using n assms by (simp add: dict_inv_def)
    then show False using none by simp
  qed
next
  assume "s \<notin> set (id_to_symbol d)"
  then show "symbol_to_id d s = None"
    using assms by (cases "symbol_to_id d s") (auto simp: dict_inv_def)
qed

lemma get_or_insert_known: "symbol_to_id d s = Some i \<Longrightarrow> get_or_insert d s = (d, i)"
  by (simp add: get_or_insert_def)

lemma get_or_insert_fresh:
  assumes "dict_inv d" "s \<notin> set (id_to_symbol d)"
  shows "get_or_insert d s =
    (\<lparr>symbol_to_id = (symbol_to_id d)(s \<mapsto> of_nat (length (id_to_symbol d))),
      id_to_symbol = id_to_symbol d @ [s]\<rparr>, of_nat (length (id_to_symbol d)))"
  using dict_unmapped [OF assms(1), of s] assms(2) by (simp add: get_or_insert_def Let_def)

lemma dict_inv_fresh:
  assumes inv: "dict_inv d" and new: "s \<notin> set (id_to_symbol d)" and room: "dict_len d < 2 ^ 16"
  shows "dict_inv (fst (get_or_insert d s))"
proof -
  let ?n = "length (id_to_symbol d)"
  have n: "unat (of_nat ?n :: u16) = ?n" using room by (intro unat_of_nat_u16) (simp add: dict_len_def)
  have "((symbol_to_id d)(s \<mapsto> of_nat ?n)) s' = Some i \<longleftrightarrow>
      unat i < Suc ?n \<and> (id_to_symbol d @ [s]) ! unat i = s'" for s' i
  proof (cases "s' = s")
    case True
    have "(id_to_symbol d @ [s]) ! unat i = s \<longleftrightarrow> unat i = ?n" if "unat i < Suc ?n"
      using that new by (auto simp: nth_append less_Suc_eq)
    moreover have "i = of_nat ?n \<longleftrightarrow> unat i = ?n" using n by (auto simp: word_unat_eq_iff)
    ultimately show ?thesis using True by auto
  next
    case False
    then show ?thesis using inv by (auto simp: dict_inv_def nth_append less_Suc_eq)
  qed
  then show ?thesis
    using inv new room by (simp add: get_or_insert_fresh dict_inv_def dict_len_def)
qed

lemma dict_inv_get_or_insert:
  assumes "dict_inv d" "dict_len d < 2 ^ 16 \<or> s \<in> set (id_to_symbol d)"
  shows "dict_inv (fst (get_or_insert d s))"
proof (cases "s \<in> set (id_to_symbol d)")
  case True
  then obtain i where "symbol_to_id d s = Some i" using dict_unmapped [OF assms(1)] by fastforce
  then show ?thesis using assms by (simp add: get_or_insert_known)
next
  case False
  then show ?thesis using assms by (intro dict_inv_fresh) auto
qed

text \<open>The id that is returned is the id of the symbol from then on, and no other id changes.\<close>

lemma get_id_get_or_insert:
  "get_or_insert d s = (d', i) \<Longrightarrow> get_id d' s' = (if s' = s then Some i else get_id d s')"
  by (auto simp: get_or_insert_def get_id_def Let_def split: option.splits)

subsection \<open>The id column\<close>

lemma drop_id_bytes:
  "i < length ids \<Longrightarrow> take 2 (drop (i * 2) (concat (map (be_bytes 2) ids))) = be_bytes 2 (ids ! i)"
proof (induction ids arbitrary: i)
  case (Cons x ids)
  then show ?case by (cases i) simp_all
qed simp

lemma length_id_bytes: "length (concat (map (be_bytes 2) ids)) = 2 * length ids"
  by (induction ids) auto

lemma decode_encode_ids:
  assumes "fits_u32 ids"
  shows "decode_ids (encode_ids ids) = ids"
proof -
  let ?body = "concat (map (be_bytes 2) ids)"
  have cnt: "unat (of_nat (length ids) :: u32) = length ids"
    using assms by (intro unat_of_nat_u32) (simp add: fits_u32_def)
  have row: "(if 4 + i * 2 + 2 \<le> length (encode_ids ids)
       then [from_be (take 2 (drop (4 + i * 2) (encode_ids ids)))] else []) = [ids ! i]"
    if "i < length ids" for i
  proof -
    have "drop (4 + i * 2) (encode_ids ids) = drop (i * 2) ?body" by (simp add: encode_ids_def)
    then show ?thesis using that by (simp add: drop_id_bytes encode_ids_def length_id_bytes)
  qed
  have "take 4 (encode_ids ids) = be_bytes 4 (of_nat (length ids) :: u32)"
    "\<not> length (encode_ids ids) < 4" by (simp_all add: encode_ids_def)
  then have "decode_ids (encode_ids ids) = concat (map (\<lambda>i. [ids ! i]) [0 ..< length ids])"
    unfolding decode_ids_def Let_def using cnt
    by (simp only: if_False from_be_inverse) (intro arg_cong [of _ _ concat] map_cong; use row in simp)
  also have "\<dots> = ids" by (simp add: concat_map_singleton map_nth)
  finally show ?thesis .
qed

interpretation ids: column_codec encode_ids "\<lambda>data. Some (decode_ids data)" fits_u32
  by unfold_locales (simp add: decode_encode_ids)

subsection \<open>The metadata block\<close>

lemma byte_char_inverse [simp]: "byte_char (char_byte c) = c"
proof -
  have "unat (of_nat (of_char c) :: u8) = of_char c"
    using of_char_mod_256 [of c, where ?'a = nat] by (simp add: unat_of_nat)
  then show ?thesis by (simp add: byte_char_def char_byte_def)
qed

lemma of_bytes_as_bytes [simp]: "of_bytes (as_bytes s) = s"
  by (simp add: of_bytes_def as_bytes_def comp_def)

lemma length_as_bytes [simp]: "length (as_bytes s) = length s"
  by (simp add: as_bytes_def)

text \<open>What the reader needs of the symbols: their length fits its field and they are UTF-8.\<close>

definition storable :: "(string \<Rightarrow> string) \<Rightarrow> string list \<Rightarrow> bool" where
  "storable lossy ss \<longleftrightarrow> (\<forall>s \<in> set ss. length s < 2 ^ 16 \<and> lossy s = s)"

lemma read_metadata_symbols:
  assumes "storable lossy ss" "distinct ss"
    "dict_inv d" "set ss \<inter> set (id_to_symbol d) = {}" "dict_len d + length ss \<le> 2 ^ 16"
  shows "dict_inv (read_symbols lossy (length ss) (metadata_symbols ss) d) \<and>
    id_to_symbol (read_symbols lossy (length ss) (metadata_symbols ss) d) = id_to_symbol d @ ss"
  using assms
proof (induction ss arbitrary: d)
  case (Cons s ss)
  let ?d = "fst (get_or_insert d s)"
  have fresh: "s \<notin> set (id_to_symbol d)" using Cons.prems(4) by auto
  have syms: "id_to_symbol ?d = id_to_symbol d @ [s]"
    using get_or_insert_fresh [OF Cons.prems(3) fresh] by simp
  have len: "unat (of_nat (length s) :: u16) = length s"
    using Cons.prems(1) by (intro unat_of_nat_u16) (simp add: storable_def)
  have "read_symbols lossy (length (s # ss)) (metadata_symbols (s # ss)) d
    = read_symbols lossy (length ss) (metadata_symbols ss) ?d"
    using len Cons.prems(1) by (simp add: Let_def storable_def)
  moreover have "dict_inv ?d"
    using Cons.prems by (intro dict_inv_fresh [OF _ fresh]) auto
  ultimately show ?case
    using Cons.IH [of ?d] Cons.prems syms by (auto simp: storable_def dict_len_def)
qed simp

lemma dict_inv_eqI:
  assumes "dict_inv d" "dict_inv e" "id_to_symbol d = id_to_symbol e"
  shows "d = (e :: symbol_dictionary)"
proof -
  have "symbol_to_id d s = symbol_to_id e s" for s
  proof (cases "symbol_to_id d s")
    case None
    then show ?thesis
      using dict_unmapped [OF assms(1), of s] dict_unmapped [OF assms(2), of s] assms(3) by simp
  next
    case (Some i)
    then have "symbol_to_id e s = Some i" using assms unfolding dict_inv_def by metis
    then show ?thesis using Some by simp
  qed
  then show ?thesis using assms(3) by (intro symbol_dictionary.equality) auto
qed

lemma from_to_metadata:
  assumes "dict_inv d" "storable lossy (id_to_symbol d)"
  shows "from_metadata lossy (to_metadata d) = d"
proof -
  have cnt: "unat (of_nat (length (id_to_symbol d)) :: u32) = length (id_to_symbol d)"
    using assms(1) by (intro unat_of_nat_u32) (auto simp: dict_inv_def)
  have "from_metadata lossy (to_metadata d)
    = read_symbols lossy (length (id_to_symbol d)) (metadata_symbols (id_to_symbol d)) dict_new"
    using cnt by (simp add: from_metadata_def to_metadata_def)
  also have "\<dots> = d"
    using read_metadata_symbols [of lossy "id_to_symbol d" dict_new] assms dict_inv_new
    by (intro dict_inv_eqI) (auto simp: dict_inv_def dict_new_def dict_len_def)
  finally show ?thesis .
qed

subsection \<open>Properties\<close>

text \<open>
  The dictionary block of an SSTable restores the dictionary: reading back the metadata
  of a dictionary of at most \<open>2^16\<close> distinct UTF-8 symbols of less than 64 KiB gives the same
  map and the same id for every symbol.
\<close>

theorem dictionary_metadata_roundtrip:
  assumes "dict_inv d" and "\<forall>s \<in> set (id_to_symbol d). length s < 2 ^ 16 \<and> lossy s = s"
  shows "from_metadata lossy (to_metadata d) = d"
  by (rule from_to_metadata) (use assms in \<open>auto simp: storable_def\<close>)

theorem dictionary_metadata_roundtrip_witness:
  "from_metadata (\<lambda>s. s) (to_metadata (fst (get_or_insert (fst (get_or_insert dict_new ''AAPL'')) ''GOOG'')))
   = fst (get_or_insert (fst (get_or_insert dict_new ''AAPL'')) ''GOOG'')"
proof (rule dictionary_metadata_roundtrip)
  have len: "dict_len dict_new = 0" "dict_len (fst (get_or_insert dict_new ''AAPL'')) = 1"
    by (simp_all add: dict_len_def dict_new_def get_or_insert_def Let_def)
  show "dict_inv (fst (get_or_insert (fst (get_or_insert dict_new ''AAPL'')) ''GOOG''))"
    using len by (intro dict_inv_get_or_insert dict_inv_new disjI1) simp_all
  show "\<forall>s \<in> set (id_to_symbol (fst (get_or_insert (fst (get_or_insert dict_new ''AAPL'')) ''GOOG''))).
    length s < 2 ^ 16 \<and> s = s"
    by (simp add: dict_new_def get_or_insert_def Let_def)
qed

text \<open>
  C38. Past \<open>2^16\<close> symbols ids are reused: the next new symbol gets id 0, which still names the
  first symbol, so two symbols share the keys of the engine.
\<close>

theorem dictionary_id_collision:
  assumes "dict_inv d" "dict_len d = 2 ^ 16" "s \<notin> set (id_to_symbol d)"
    and "get_or_insert d s = (d', i)"
  shows "i = 0 \<and> get_id d' (hd (id_to_symbol d)) = Some 0 \<and> get_id d' s = Some 0 \<and>
    get_symbol d' 0 = Some (hd (id_to_symbol d)) \<and> hd (id_to_symbol d) \<noteq> s"
proof -
  have "id_to_symbol d \<noteq> []" using assms(2) by (auto simp: dict_len_def)
  then obtain s0 ss where d: "id_to_symbol d = s0 # ss" by (cases "id_to_symbol d") auto
  have "symbol_to_id d s0 = Some 0" using assms(1) d by (simp add: dict_inv_def)
  moreover have "(of_nat (2 ^ 16) :: u16) = 0" by simp
  ultimately show ?thesis
    using get_or_insert_fresh [OF assms(1,3)] assms(2-4) d
    by (auto simp: dict_len_def get_id_def get_symbol_def)
qed

text \<open>A full dictionary: the symbols are the runs of the letter a.\<close>

definition full_dict :: symbol_dictionary where
  "full_dict = \<lparr>symbol_to_id = (\<lambda>s. if length s < 65536 \<and> s = replicate (length s) CHR ''a''
       then Some (of_nat (length s)) else None),
     id_to_symbol = map (\<lambda>n. replicate n CHR ''a'') [0 ..< 65536]\<rparr>"

lemma dict_inv_full: "dict_inv full_dict"
proof -
  have "distinct (map (\<lambda>n. replicate n CHR ''a'') [0 ..< 65536])"
    by (auto simp: distinct_map inj_on_def simp del: upt_rec_numeral dest: arg_cong [of _ _ length])
  moreover have "symbol_to_id full_dict s = Some i \<longleftrightarrow>
      unat i < 65536 \<and> replicate (unat i) CHR ''a'' = s" for s i
    by (auto simp: full_dict_def unat_of_nat word_unat_eq_iff)
  ultimately show ?thesis
    by (auto simp: dict_inv_def full_dict_def simp del: upt_rec_numeral)
qed

theorem dictionary_id_collision_witness:
  "\<exists>d'. get_or_insert full_dict ''b'' = (d', 0) \<and> get_id d' [] = Some 0 \<and> get_id d' ''b'' = Some 0"
proof -
  have "dict_len full_dict = 2 ^ 16" by (simp add: dict_len_def full_dict_def del: upt_rec_numeral)
  moreover have "''b'' \<notin> set (id_to_symbol full_dict)"
    by (auto simp: full_dict_def Cons_replicate_eq simp del: upt_rec_numeral)
  moreover obtain d' i where "get_or_insert full_dict ''b'' = (d', i)" by fastforce
  moreover have "hd (id_to_symbol full_dict) = []"
    by (simp add: full_dict_def hd_map del: upt_rec_numeral)
  ultimately show ?thesis using dictionary_id_collision [OF dict_inv_full, of "''b''" d' i] by auto
qed

end
