(* ===== verification/Bloom.thy ===== *)
theory Bloom
  imports ColumnCodec
begin

text \<open>
  \<^verbatim>\<open>graphite-core/src/bloom.rs\<close>: the per-SSTable Bloom filter.  \<^verbatim>\<open>f64::ln\<close>, whose precision
  Rust leaves to the platform, is an argument of the sizing functions.  \<open>None\<close> is a panic:
  the remainder by zero of a filter of no bits, or an index past the bit vector.
\<close>

definition FNV_OFFSET :: u64 where "FNV_OFFSET = 0xcbf29ce484222325"
definition FNV_PRIME :: u64 where "FNV_PRIME = 0x100000001b3"

definition fnv1a :: "bytes \<Rightarrow> u64" where
  "fnv1a data = foldl (\<lambda>hash byte. (hash XOR ucast byte) * FNV_PRIME) FNV_OFFSET data"

record bloom_filter =
  bf_bits :: "u64 list"
  bf_num_bits :: nat
  bf_num_hashes :: u32

definition div_ceil :: "nat \<Rightarrow> nat \<Rightarrow> nat" where
  "div_ceil a b = (a + b - 1) div b"

text \<open>
  \<^verbatim>\<open>x.ceil() as usize\<close> and \<^verbatim>\<open>x.round() as u32\<close>: saturating, zero on NaN; the value of
  \<open>x\<close> is \<open>f64_man x * 2 ^ f64_scale x / 2 ^ 1074\<close>.
\<close>

definition f64_ceil_usize :: "f64 \<Rightarrow> int" where
  "f64_ceil_usize x = (if f64_is_nan x \<or> f64_neg x then 0
     else min (2 ^ 64 - 1) (- (- (f64_man x * 2 ^ f64_scale x) div 2 ^ 1074)))"

definition f64_round_u32 :: "f64 \<Rightarrow> int" where
  "f64_round_u32 x = (if f64_is_nan x \<or> f64_neg x then 0
     else min (2 ^ 32 - 1) ((2 * (f64_man x * 2 ^ f64_scale x) + 2 ^ 1074) div 2 ^ 1075))"

definition optimal_num_bits :: "(f64 \<Rightarrow> f64) \<Rightarrow> nat \<Rightarrow> f64 \<Rightarrow> nat" where
  "optimal_num_bits ln_f64 num_items fpr =
     (let n = f64_of_u64 (of_nat num_items);
          bits = f64_div (f64_negate (f64_mul n (ln_f64 fpr)))
                   (f64_mul 0x4000000000000000 (f64_mul (ln_f64 fpr) (ln_f64 fpr)))
      in nat (max (f64_ceil_usize bits) 64))"

definition optimal_num_hashes :: "(f64 \<Rightarrow> f64) \<Rightarrow> nat \<Rightarrow> nat \<Rightarrow> u32" where
  "optimal_num_hashes ln_f64 num_bits num_items =
     (let n = f64_of_u64 (of_nat num_items);
          k = f64_mul (f64_mul (f64_div (f64_of_u64 (of_nat num_bits)) n) 0x4000000000000000)
                (ln_f64 0x4005BF0A8B145769)
      in of_int (min 16 (max 1 (f64_round_u32 k))))"

definition hash_to_index :: "u64 \<Rightarrow> nat \<Rightarrow> nat \<Rightarrow> nat option" where
  "hash_to_index hash i num_bits =
     (let combined = hash + of_nat i * 0x9e3779b97f4a7c15 in
      if num_bits = 0 then None else Some (unat combined mod num_bits))"

definition bloom_new :: "(f64 \<Rightarrow> f64) \<Rightarrow> nat \<Rightarrow> bloom_filter" where
  "bloom_new ln_f64 num_items =
     (let num_bits = optimal_num_bits ln_f64 num_items BLOOM_FPR;
          num_hashes = optimal_num_hashes ln_f64 num_bits num_items
      in \<lparr>bf_bits = replicate (div_ceil num_bits 64) 0, bf_num_bits = num_bits,
           bf_num_hashes = num_hashes\<rparr>)"

definition bloom_from_bytes :: "bytes \<Rightarrow> nat \<Rightarrow> u32 \<Rightarrow> bloom_filter" where
  "bloom_from_bytes data num_bits num_hashes =
     \<lparr>bf_bits = map (\<lambda>i. if i * 8 + 8 \<le> length data then from_be (take 8 (drop (i * 8) data)) else 0)
        [0 ..< div_ceil num_bits 64],
      bf_num_bits = num_bits, bf_num_hashes = num_hashes\<rparr>"

definition set_bit_at :: "bloom_filter \<Rightarrow> nat \<Rightarrow> bloom_filter option" where
  "set_bit_at f idx = (let word = idx div 64; b = idx mod 64 in
     if word < length (bf_bits f)
     then Some (f\<lparr>bf_bits := (bf_bits f)[word := bf_bits f ! word OR push_bit b 1]\<rparr>)
     else None)"

definition get_bit_at :: "bloom_filter \<Rightarrow> nat \<Rightarrow> bool option" where
  "get_bit_at f idx = (let word = idx div 64; b = idx mod 64 in
     if word < length (bf_bits f) then Some (bf_bits f ! word AND push_bit b 1 \<noteq> 0) else None)"

fun bloom_set_all :: "bloom_filter \<Rightarrow> u64 \<Rightarrow> nat list \<Rightarrow> bloom_filter option" where
  "bloom_set_all f hash [] = Some f"
| "bloom_set_all f hash (i # is) =
     Option.bind (hash_to_index hash i (bf_num_bits f)) (\<lambda>idx.
     Option.bind (set_bit_at f idx) (\<lambda>f'. bloom_set_all f' hash is))"

definition bloom_insert :: "bloom_filter \<Rightarrow> bytes \<Rightarrow> bloom_filter option" where
  "bloom_insert f key = bloom_set_all f (fnv1a key) [0 ..< unat (bf_num_hashes f)]"

fun bloom_test_all :: "bloom_filter \<Rightarrow> u64 \<Rightarrow> nat list \<Rightarrow> bool option" where
  "bloom_test_all f hash [] = Some True"
| "bloom_test_all f hash (i # is) =
     Option.bind (hash_to_index hash i (bf_num_bits f)) (\<lambda>idx.
     Option.bind (get_bit_at f idx) (\<lambda>b. if \<not> b then Some False else bloom_test_all f hash is))"

definition bloom_contains :: "bloom_filter \<Rightarrow> bytes \<Rightarrow> bool option" where
  "bloom_contains f key = bloom_test_all f (fnv1a key) [0 ..< unat (bf_num_hashes f)]"

definition bloom_to_bytes :: "bloom_filter \<Rightarrow> bytes" where
  "bloom_to_bytes f = be_bytes 4 (of_nat (bf_num_bits f) :: u32) @ be_bytes 4 (bf_num_hashes f) @
     concat (map (be_bytes 8) (bf_bits f))"

definition bloom_from_encoded :: "bytes \<Rightarrow> bloom_filter option" where
  "bloom_from_encoded data =
     (if length data < 12 then None
      else Some (bloom_from_bytes (drop 8 data) (unat (from_be (take 4 data) :: u32))
             (from_be (take 4 (drop 4 data)))))"

subsection \<open>Invariant\<close>

definition bloom_wf :: "bloom_filter \<Rightarrow> bool" where
  "bloom_wf f \<longleftrightarrow> 0 < bf_num_bits f \<and> length (bf_bits f) = div_ceil (bf_num_bits f) 64"

lemma div_ceil_64: "idx < n \<Longrightarrow> idx div 64 < div_ceil n 64"
  using div_le_mono [of "idx + 64" "n + 63" 64] by (simp add: div_ceil_def)

lemma bloom_wf_new: "bloom_wf (bloom_new ln_f64 n)"
  by (simp add: bloom_wf_def bloom_new_def Let_def optimal_num_bits_def)

lemma optimal_num_hashes_bounds:
  "1 \<le> unat (optimal_num_hashes ln_f64 b n) \<and> unat (optimal_num_hashes ln_f64 b n) \<le> 16"
proof -
  obtain k where k: "optimal_num_hashes ln_f64 b n = of_int k" "1 \<le> k" "k \<le> 16"
    by (rule that [of "min 16 (max 1 _)"]) (auto simp: optimal_num_hashes_def Let_def)
  then have "take_bit 32 k = k" by (subst take_bit_int_eq_self_iff) simp
  then have "unat (of_int k :: u32) = nat k" by (simp add: unsigned_of_int)
  then show ?thesis using k by (simp add: nat_le_iff Suc_le_eq)
qed

abbreviation bloom_bit :: "bloom_filter \<Rightarrow> nat \<Rightarrow> bool" where
  "bloom_bit f idx \<equiv> bit (bf_bits f ! (idx div 64)) (idx mod 64)"

abbreviation bloom_idx :: "bloom_filter \<Rightarrow> bytes \<Rightarrow> nat \<Rightarrow> nat" where
  "bloom_idx f key i \<equiv> the (hash_to_index (fnv1a key) i (bf_num_bits f))"

lemma hash_to_index_Some:
  assumes "bloom_wf f"
  obtains idx where "hash_to_index h i (bf_num_bits f) = Some idx" "idx < bf_num_bits f"
  using assms by (simp add: hash_to_index_def Let_def bloom_wf_def)

lemma get_bit_at_bit:
  assumes "idx div 64 < length (bf_bits f)"
  shows "get_bit_at f idx = Some (bloom_bit f idx)"
proof -
  have "w AND push_bit b 1 \<noteq> 0 \<longleftrightarrow> bit w b" for w :: u64 and b
    by (simp add: bit_iff_and_push_bit_not_eq_0)
  then show ?thesis using assms by (simp add: get_bit_at_def Let_def)
qed

lemma set_bit_at_bit:
  assumes "bloom_wf f" "idx < bf_num_bits f"
  shows "\<exists>f'. set_bit_at f idx = Some f' \<and> bloom_wf f' \<and> bf_num_bits f' = bf_num_bits f \<and>
    bf_num_hashes f' = bf_num_hashes f \<and>
    (\<forall>j < bf_num_bits f. bloom_bit f' j \<longleftrightarrow> j = idx \<or> bloom_bit f j)"
proof -
  have w: "idx div 64 < length (bf_bits f)" using assms by (simp add: bloom_wf_def div_ceil_64)
  let ?f = "f\<lparr>bf_bits := (bf_bits f)[idx div 64 := bf_bits f ! (idx div 64) OR push_bit (idx mod 64) 1]\<rparr>"
  have "bloom_bit ?f j \<longleftrightarrow> j = idx \<or> bloom_bit f j" for j
  proof (cases "j div 64 = idx div 64")
    case True
    then have "j = idx \<longleftrightarrow> j mod 64 = idx mod 64" by (metis div_mult_mod_eq)
    then show ?thesis using True w by (auto simp: bit_simps bit_1_iff)
  next
    case False
    then show ?thesis using w by (auto simp: nth_list_update)
  qed
  then show ?thesis using w assms by (simp add: set_bit_at_def Let_def bloom_wf_def)
qed

lemma bloom_set_all_bits:
  assumes "bloom_wf f"
  shows "\<exists>f'. bloom_set_all f (fnv1a key) is = Some f' \<and> bloom_wf f' \<and> bf_num_bits f' = bf_num_bits f \<and>
    bf_num_hashes f' = bf_num_hashes f \<and>
    (\<forall>j < bf_num_bits f. bloom_bit f' j \<longleftrightarrow> j \<in> bloom_idx f key ` set is \<or> bloom_bit f j)"
  using assms
proof (induction "is" arbitrary: f)
  case (Cons i "is")
  obtain idx where idx: "hash_to_index (fnv1a key) i (bf_num_bits f) = Some idx" "idx < bf_num_bits f"
    using hash_to_index_Some [OF Cons.prems] .
  obtain f' where f': "set_bit_at f idx = Some f'" "bloom_wf f'" "bf_num_bits f' = bf_num_bits f"
    "bf_num_hashes f' = bf_num_hashes f"
    "\<forall>j < bf_num_bits f. bloom_bit f' j \<longleftrightarrow> j = idx \<or> bloom_bit f j"
    using set_bit_at_bit [OF Cons.prems idx(2)] by blast
  from Cons.IH [OF f'(2)] obtain g where
    "bloom_set_all f' (fnv1a key) is = Some g" "bloom_wf g" "bf_num_bits g = bf_num_bits f"
    "bf_num_hashes g = bf_num_hashes f"
    "\<forall>j < bf_num_bits f. bloom_bit g j \<longleftrightarrow> j \<in> bloom_idx f key ` set is \<or> bloom_bit f' j"
    using f'(3,4) by auto
  then show ?case using idx f' by (intro exI [of _ g]) auto
qed auto

lemma bloom_test_all_iff:
  assumes "bloom_wf f"
  shows "bloom_test_all f (fnv1a key) is = Some (\<forall>i \<in> set is. bloom_bit f (bloom_idx f key i))"
proof (induction "is")
  case (Cons i "is")
  obtain idx where idx: "hash_to_index (fnv1a key) i (bf_num_bits f) = Some idx" "idx < bf_num_bits f"
    using hash_to_index_Some [OF assms] .
  then have "idx div 64 < length (bf_bits f)" using assms by (simp add: bloom_wf_def div_ceil_64)
  then show ?case using Cons idx by (simp add: get_bit_at_bit)
qed simp

subsection \<open>The filter contract\<close>

text \<open>
  What a reader of an SSTable relies on: adding a key never fails on a well-formed filter,
  the key tests positive from then on, and no positive test is lost.
\<close>

fun filter_add_all :: "('f \<Rightarrow> bytes \<Rightarrow> 'f option) \<Rightarrow> 'f \<Rightarrow> bytes list \<Rightarrow> 'f option" where
  "filter_add_all add f [] = Some f"
| "filter_add_all add f (k # ks) = Option.bind (add f k) (\<lambda>f'. filter_add_all add f' ks)"

locale key_filter =
  fixes wf :: "'f \<Rightarrow> bool"
    and add :: "'f \<Rightarrow> bytes \<Rightarrow> 'f option"
    and mem :: "'f \<Rightarrow> bytes \<Rightarrow> bool option"
  assumes add_ok: "wf f \<Longrightarrow> \<exists>f'. add f k = Some f' \<and> wf f' \<and> mem f' k = Some True \<and>
      (\<forall>j. mem f j = Some True \<longrightarrow> mem f' j = Some True)"
begin

lemma add_all:
  "wf f \<Longrightarrow> \<exists>f'. filter_add_all add f ks = Some f' \<and> wf f' \<and> (\<forall>k \<in> set ks. mem f' k = Some True) \<and>
    (\<forall>j. mem f j = Some True \<longrightarrow> mem f' j = Some True)"
proof (induction ks arbitrary: f)
  case (Cons k ks)
  obtain f' where f': "add f k = Some f'" "wf f'" "mem f' k = Some True"
    "\<forall>j. mem f j = Some True \<longrightarrow> mem f' j = Some True"
    using add_ok [OF Cons.prems] by blast
  obtain g where "filter_add_all add f' ks = Some g" "wf g" "\<forall>k \<in> set ks. mem g k = Some True"
    "\<forall>j. mem f' j = Some True \<longrightarrow> mem g j = Some True"
    using Cons.IH [OF f'(2)] by blast
  then show ?case using f' by auto
qed auto

end

lemma bloom_contains_iff:
  "bloom_wf f \<Longrightarrow> bloom_contains f key
    = Some (\<forall>i < unat (bf_num_hashes f). bloom_bit f (bloom_idx f key i))"
  by (auto simp: bloom_contains_def bloom_test_all_iff)

interpretation bloom: key_filter bloom_wf bloom_insert bloom_contains
proof
  fix f key
  assume wf: "bloom_wf f"
  obtain f' where f': "bloom_insert f key = Some f'" "bloom_wf f'" "bf_num_bits f' = bf_num_bits f"
    "bf_num_hashes f' = bf_num_hashes f"
    "\<forall>j < bf_num_bits f. bloom_bit f' j \<longleftrightarrow>
      j \<in> bloom_idx f key ` {0 ..< unat (bf_num_hashes f)} \<or> bloom_bit f j"
    using bloom_set_all_bits [OF wf, of key "[0 ..< unat (bf_num_hashes f)]"]
    by (auto simp: bloom_insert_def)
  have lt: "bloom_idx f k i < bf_num_bits f" for k i
    using hash_to_index_Some [OF wf] by (metis option.sel)
  show "\<exists>f'. bloom_insert f key = Some f' \<and> bloom_wf f' \<and> bloom_contains f' key = Some True \<and>
      (\<forall>j. bloom_contains f j = Some True \<longrightarrow> bloom_contains f' j = Some True)"
    using wf f' lt by (auto simp: bloom_contains_iff)
qed

subsection \<open>Serialization\<close>

lemma nth_word_bytes:
  "i < length ws \<Longrightarrow> take 8 (drop (i * 8) (concat (map (be_bytes 8) ws))) = be_bytes 8 (ws ! i)"
proof (induction ws arbitrary: i)
  case (Cons w ws)
  then show ?case by (cases i) simp_all
qed simp

lemma length_word_bytes: "length (concat (map (be_bytes 8) ws)) = 8 * length ws"
  by (induction ws) auto

lemma bloom_encoded_roundtrip:
  assumes "bloom_wf f" "bf_num_bits f < 2 ^ 32"
  shows "bloom_from_encoded (bloom_to_bytes f) = Some f"
proof -
  let ?ws = "concat (map (be_bytes 8) (bf_bits f))"
  have "0 < length (bf_bits f)" using assms(1) div_ceil_64 [of 0 "bf_num_bits f"] by (auto simp: bloom_wf_def)
  then have len: "\<not> length (bloom_to_bytes f) < 12"
    by (simp add: bloom_to_bytes_def length_word_bytes)
  have "bf_bits (bloom_from_bytes ?ws (bf_num_bits f) (bf_num_hashes f)) = bf_bits f"
    using assms(1)
    by (intro nth_equalityI)
      (auto simp: bloom_from_bytes_def bloom_wf_def length_word_bytes nth_word_bytes)
  then have "bloom_from_bytes ?ws (bf_num_bits f) (bf_num_hashes f) = f"
    by (intro bloom_filter.equality) (auto simp: bloom_from_bytes_def)
  moreover have "unat (of_nat (bf_num_bits f) :: u32) = bf_num_bits f"
    using assms(2) by (rule unat_of_nat_u32)
  ultimately show ?thesis using len by (simp add: bloom_from_encoded_def bloom_to_bytes_def)
qed

subsection \<open>Properties\<close>

lemma bloom_add_all_num_bits:
  "filter_add_all bloom_insert g ks = Some f \<Longrightarrow> bloom_wf g \<Longrightarrow> bf_num_bits f = bf_num_bits g"
proof (induction ks arbitrary: g)
  case (Cons k ks)
  obtain g' where "bloom_insert g k = Some g'" "bloom_wf g'" "bf_num_bits g' = bf_num_bits g"
    using bloom_set_all_bits [OF Cons.prems(2)] by (metis bloom_insert_def)
  then show ?case using Cons by auto
qed auto

lemma length_bloom_to_bytes:
  "bloom_wf f \<Longrightarrow> length (bloom_to_bytes f) = 8 + 8 * div_ceil (bf_num_bits f) 64"
  by (simp add: bloom_to_bytes_def length_word_bytes bloom_wf_def)

text \<open>
  C37. No false negatives: a filter made for any number of items takes any keys without a
  panic, and after it has been written and read back every one of them tests positive.
\<close>

theorem bloom_no_false_negatives:
  assumes "optimal_num_bits ln_f64 n BLOOM_FPR < 2 ^ 32" and "key \<in> set ks"
  shows "\<exists>f g. filter_add_all bloom_insert (bloom_new ln_f64 n) ks = Some f \<and>
    bloom_from_encoded (bloom_to_bytes f) = Some g \<and> bloom_contains g key = Some True"
proof -
  obtain f where f: "filter_add_all bloom_insert (bloom_new ln_f64 n) ks = Some f" "bloom_wf f"
    "bloom_contains f key = Some True"
    using bloom.add_all [OF bloom_wf_new, of ln_f64 n ks] assms(2) by blast
  moreover have "bf_num_bits f < 2 ^ 32"
    using bloom_add_all_num_bits [OF f(1) bloom_wf_new] assms(1) by (simp add: bloom_new_def Let_def)
  ultimately show ?thesis using bloom_encoded_roundtrip by blast
qed

theorem bloom_no_false_negatives_witness:
  "\<exists>f g. filter_add_all bloom_insert (bloom_new (\<lambda>x. 0x3FF0000000000000) 2) [[65], [66, 67]] = Some f \<and>
    bloom_from_encoded (bloom_to_bytes f) = Some g \<and> bloom_contains g [66, 67] = Some True"
proof (rule bloom_no_false_negatives)
  have "f64_ceil_usize (f64_div (f64_negate (f64_mul (f64_of_u64 2) 0x3FF0000000000000))
      (f64_mul 0x4000000000000000 (f64_mul 0x3FF0000000000000 0x3FF0000000000000))) = 0"
    by code_simp
  then show "optimal_num_bits (\<lambda>x. 0x3FF0000000000000) 2 BLOOM_FPR < 2 ^ 32"
    by (simp add: optimal_num_bits_def Let_def)
qed simp

text \<open>
  The filter is undersized: with \<open>ln 0.01\<close> and \<open>ln e\<close> rounded correctly, the sizing
  formula divides by \<open>2 (ln 0.01)^2\<close> where the standard one has \<open>(ln 2)^2\<close>, and a filter for
  the 10000 ticks of a full memtable gets 1086 bits and one hash function, a ninth of a bit
  per key, where a 1 percent false positive rate needs about 95851 bits and 7 hash functions.
\<close>

theorem bloom_undersized:
  assumes "ln_f64 BLOOM_FPR = 0xC0126BB1BBB55515" and "ln_f64 0x4005BF0A8B145769 = 0x3FF0000000000000"
  shows "bf_num_bits (bloom_new ln_f64 10000) = 1086 \<and> bf_num_hashes (bloom_new ln_f64 10000) = 1"
proof -
  have ten: "(of_nat 10000 :: u64) = 10000" "(of_nat 1086 :: u64) = 1086" by simp_all
  have "f64_ceil_usize (f64_div (f64_negate (f64_mul (f64_of_u64 10000) 0xC0126BB1BBB55515))
      (f64_mul 0x4000000000000000 (f64_mul 0xC0126BB1BBB55515 0xC0126BB1BBB55515))) = 1086"
    by code_simp
  then have "optimal_num_bits ln_f64 10000 BLOOM_FPR = 1086"
    by (simp add: optimal_num_bits_def Let_def ten assms(1))
  moreover have "f64_round_u32 (f64_mul (f64_mul (f64_div (f64_of_u64 1086) (f64_of_u64 10000))
      0x4000000000000000) 0x3FF0000000000000) = 0"
    by code_simp
  then have "optimal_num_hashes ln_f64 1086 10000 = 1"
    by (simp add: optimal_num_hashes_def Let_def ten assms(2))
  ultimately show ?thesis by (simp add: bloom_new_def Let_def)
qed

theorem bloom_undersized_witness:
  "bf_num_bits (bloom_new (\<lambda>x. if x = BLOOM_FPR then 0xC0126BB1BBB55515 else 0x3FF0000000000000) 10000)
     = 1086"
proof -
  have "(0x4005BF0A8B145769 :: f64) \<noteq> BLOOM_FPR" by (simp add: BLOOM_FPR_def)
  then show ?thesis
    using bloom_undersized [of "\<lambda>x. if x = BLOOM_FPR then 0xC0126BB1BBB55515 else 0x3FF0000000000000"]
    by simp
qed

end
