(* ===== verification/BlockCache.thy ===== *)
theory BlockCache
  imports Types "HOL-Library.Multiset"
begin

text \<open>
  \<^verbatim>\<open>graphite-core/src/block_cache.rs\<close>: the block cache, a doubly-linked list threaded
  through a vector of nodes by index, a hash map from keys to indices and a free list.
  \<open>None\<close> is a panic (an index past the vector) or an eviction loop that does not end.

  The invariant says that the list from head to tail is a proper doubly-linked list, that the
  map holds exactly its keys, and that every other node is on the free list; under it the
  cache refines a list of key-block pairs, the most recently inserted first.
\<close>

record cache_key =
  sstable_id :: u64
  block_offset :: u64

record cache_node =
  n_key :: cache_key
  n_data :: bytes
  n_prev :: "nat option"
  n_next :: "nat option"

record block_cache =
  bc_capacity :: nat
  bc_current_size :: nat
  bc_nodes :: "cache_node list"
  bc_map :: "cache_key \<rightharpoonup> nat"
  bc_head :: "nat option"
  bc_tail :: "nat option"
  bc_free_list :: "nat list"
  bc_hits :: u64
  bc_misses :: u64

definition cache_new :: "nat \<Rightarrow> block_cache" where
  "cache_new capacity_mb = \<lparr>bc_capacity = capacity_mb * 1024 * 1024 mod 2 ^ 64, bc_current_size = 0,
     bc_nodes = [], bc_map = Map.empty, bc_head = None, bc_tail = None, bc_free_list = [],
     bc_hits = 0, bc_misses = 0\<rparr>"

text \<open>\<open>usize\<close> subtraction of a release build.\<close>

definition usize_sub :: "nat \<Rightarrow> nat \<Rightarrow> nat" where
  "usize_sub a b = (if b \<le> a then a - b else a + 2 ^ 64 - b)"

definition upd_node :: "nat \<Rightarrow> (cache_node \<Rightarrow> cache_node) \<Rightarrow> block_cache \<Rightarrow> block_cache option" where
  "upd_node i f c = (if i < length (bc_nodes c)
     then Some (c\<lparr>bc_nodes := (bc_nodes c)[i := f (bc_nodes c ! i)]\<rparr>) else None)"

definition node_at :: "block_cache \<Rightarrow> nat \<Rightarrow> cache_node option" where
  "node_at c i = (if i < length (bc_nodes c) then Some (bc_nodes c ! i) else None)"

definition upd_opt :: "nat option \<Rightarrow> (cache_node \<Rightarrow> cache_node) \<Rightarrow> block_cache \<Rightarrow> block_cache option" where
  "upd_opt p f c = (case p of None \<Rightarrow> Some c | Some i \<Rightarrow> upd_node i f c)"

definition cache_get :: "block_cache \<Rightarrow> cache_key \<Rightarrow> (bytes option \<times> block_cache) option" where
  "cache_get c key = (case bc_map c key of
      Some idx \<Rightarrow> map_option (\<lambda>n. (Some (n_data n), c\<lparr>bc_hits := bc_hits c + 1\<rparr>)) (node_at c idx)
    | None \<Rightarrow> Some (None, c\<lparr>bc_misses := bc_misses c + 1\<rparr>))"

definition alloc_node :: "block_cache \<Rightarrow> cache_key \<Rightarrow> bytes \<Rightarrow> (nat \<times> block_cache) option" where
  "alloc_node c key data =
     (let node = \<lparr>n_key = key, n_data = data, n_prev = None, n_next = None\<rparr> in
      if bc_free_list c \<noteq> []
      then let idx = last (bc_free_list c) in
        map_option (\<lambda>c'. (idx, c'))
          (upd_node idx (\<lambda>_. node) (c\<lparr>bc_free_list := butlast (bc_free_list c)\<rparr>))
      else Some (length (bc_nodes c), c\<lparr>bc_nodes := bc_nodes c @ [node]\<rparr>))"

definition add_to_head :: "block_cache \<Rightarrow> nat \<Rightarrow> block_cache option" where
  "add_to_head c idx =
     Option.bind (upd_node idx (\<lambda>n. n\<lparr>n_prev := None, n_next := bc_head c\<rparr>) c) (\<lambda>c.
     Option.bind (upd_opt (bc_head c) (\<lambda>n. n\<lparr>n_prev := Some idx\<rparr>) c) (\<lambda>c.
     Some (c\<lparr>bc_head := Some idx,
              bc_tail := (if bc_tail c = None then Some idx else bc_tail c)\<rparr>)))"

definition move_to_head :: "block_cache \<Rightarrow> nat \<Rightarrow> block_cache option" where
  "move_to_head c idx =
     (if bc_head c = Some idx then Some c
      else Option.bind (node_at c idx) (\<lambda>node.
        let prev = n_prev node; next = n_next node in
        Option.bind (upd_opt prev (\<lambda>n. n\<lparr>n_next := next\<rparr>) c) (\<lambda>c.
        Option.bind (upd_opt next (\<lambda>n. n\<lparr>n_prev := prev\<rparr>) c) (\<lambda>c.
        let c = (if bc_tail c = Some idx then c\<lparr>bc_tail := prev\<rparr> else c) in
        Option.bind (upd_node idx (\<lambda>n. n\<lparr>n_prev := None, n_next := bc_head c\<rparr>) c) (\<lambda>c.
        Option.bind (upd_opt (bc_head c) (\<lambda>n. n\<lparr>n_prev := Some idx\<rparr>) c) (\<lambda>c.
        Some (c\<lparr>bc_head := Some idx\<rparr>)))))))"

text \<open>\<open>Some None\<close>: the list is empty.\<close>

definition remove_tail :: "block_cache \<Rightarrow> (nat option \<times> block_cache) option" where
  "remove_tail c = (case bc_tail c of
      None \<Rightarrow> Some (None, c)
    | Some tail_idx \<Rightarrow>
        Option.bind (node_at c tail_idx) (\<lambda>node.
        let prev = n_prev node; c = c\<lparr>bc_tail := prev\<rparr> in
        Option.bind (case prev of Some p \<Rightarrow> upd_node p (\<lambda>n. n\<lparr>n_next := None\<rparr>) c
                                | None \<Rightarrow> Some (c\<lparr>bc_head := None\<rparr>)) (\<lambda>c.
        Option.bind (node_at c tail_idx) (\<lambda>node.
        Some (Some tail_idx,
          c\<lparr>bc_current_size := usize_sub (bc_current_size c) (length (n_data node)),
             bc_map := (bc_map c)(n_key node := None),
             bc_free_list := bc_free_list c @ [tail_idx]\<rparr>)))))"

partial_function (option) evict_if_needed :: "block_cache \<Rightarrow> block_cache option" where
  "evict_if_needed c =
     (if bc_current_size c > bc_capacity c
      then Option.bind (remove_tail c) (\<lambda>(_, c'). evict_if_needed c')
      else Some c)"

definition cache_insert :: "block_cache \<Rightarrow> cache_key \<Rightarrow> bytes \<Rightarrow> block_cache option" where
  "cache_insert c key data =
     (let data_size = length data in
      if data_size > bc_capacity c then Some c
      else case bc_map c key of
        Some idx \<Rightarrow>
          Option.bind (node_at c idx) (\<lambda>node.
          Option.bind (upd_node idx (\<lambda>n. n\<lparr>n_data := data\<rparr>) c) (\<lambda>c.
          Option.bind (move_to_head
             (c\<lparr>bc_current_size := usize_sub (bc_current_size c) (length (n_data node)) + data_size\<rparr>)
             idx) evict_if_needed))
      | None \<Rightarrow>
          Option.bind (alloc_node c key data) (\<lambda>(idx, c).
          Option.bind (add_to_head
             (c\<lparr>bc_map := (bc_map c)(key \<mapsto> idx), bc_current_size := bc_current_size c + data_size\<rparr>)
             idx) evict_if_needed))"

definition hit_rate :: "block_cache \<Rightarrow> f64" where
  "hit_rate c = (let tot = bc_hits c + bc_misses c in
     if tot = 0 then f64_zero False else f64_div (f64_of_u64 (bc_hits c)) (f64_of_u64 tot))"

definition cache_clear :: "block_cache \<Rightarrow> block_cache" where
  "cache_clear c = c\<lparr>bc_nodes := [], bc_map := Map.empty, bc_head := None, bc_tail := None,
     bc_free_list := [], bc_current_size := 0\<rparr>"

subsection \<open>Doubly-linked segments\<close>

abbreviation first_idx :: "nat list \<Rightarrow> nat option \<Rightarrow> nat option" where
  "first_idx is q \<equiv> (case is of [] \<Rightarrow> q | j # _ \<Rightarrow> Some j)"

abbreviation last_idx :: "nat option \<Rightarrow> nat list \<Rightarrow> nat option" where
  "last_idx p is \<equiv> (if is = [] then p else Some (last is))"

fun seg :: "cache_node list \<Rightarrow> nat option \<Rightarrow> nat list \<Rightarrow> nat option \<Rightarrow> bool" where
  "seg ns p [] q = True"
| "seg ns p (i # is) q \<longleftrightarrow> i < length ns \<and> n_prev (ns ! i) = p \<and> n_next (ns ! i) = first_idx is q \<and>
     seg ns (Some i) is q"

lemma seg_append: "seg ns p (xs @ ys) q \<longleftrightarrow> seg ns p xs (first_idx ys q) \<and> seg ns (last_idx p xs) ys q"
  by (induction xs arbitrary: p) (auto split: list.splits)

lemma seg_less: "seg ns p xs q \<Longrightarrow> i \<in> set xs \<Longrightarrow> i < length ns"
  by (induction xs arbitrary: p) auto

lemma seg_frame [simp]: "i \<notin> set xs \<Longrightarrow> seg (ns[i := n]) p xs q \<longleftrightarrow> seg ns p xs q"
  by (induction xs arbitrary: p) auto

lemma seg_frame_append: "seg ns p xs q \<Longrightarrow> seg (ns @ ms) p xs q"
  by (induction xs arbitrary: p) (auto simp: nth_append)

lemma seg_cong:
  "(\<And>i. n_prev (ns ! i) = n_prev (ms ! i) \<and> n_next (ns ! i) = n_next (ms ! i)) \<Longrightarrow> length ns = length ms
    \<Longrightarrow> seg ns p xs q \<longleftrightarrow> seg ms p xs q"
  by (induction xs arbitrary: p) auto

lemma seg_set_prev:
  "distinct (x # xs) \<Longrightarrow> seg ns p (x # xs) q \<Longrightarrow> seg (ns[x := (ns ! x)\<lparr>n_prev := p'\<rparr>]) p' (x # xs) q"
  by auto

lemma seg_set_next:
  assumes "distinct xs" "xs \<noteq> []" "seg ns p xs q"
  shows "seg (ns[last xs := (ns ! last xs)\<lparr>n_next := q'\<rparr>]) p xs q'"
proof -
  obtain ys y where xs: "xs = ys @ [y]" using assms(2) by (cases xs rule: rev_cases) auto
  then show ?thesis using assms by (auto simp: seg_append)
qed

subsection \<open>Invariant\<close>

abbreviation blk :: "block_cache \<Rightarrow> nat \<Rightarrow> cache_key \<times> bytes" where
  "blk c i \<equiv> (n_key (bc_nodes c ! i), n_data (bc_nodes c ! i))"

definition blocks_size :: "(cache_key \<times> bytes) list \<Rightarrow> nat" where
  "blocks_size kds = sum_list (map (\<lambda>kd. length (snd kd)) kds)"

definition cache_ok :: "block_cache \<Rightarrow> nat list \<Rightarrow> bool" where
  "cache_ok c is \<longleftrightarrow> distinct (is @ bc_free_list c) \<and>
     set (is @ bc_free_list c) = {..< length (bc_nodes c)} \<and>
     seg (bc_nodes c) None is None \<and> bc_head c = first_idx is None \<and> bc_tail c = last_idx None is \<and>
     (\<forall>k i. bc_map c k = Some i \<longleftrightarrow> i \<in> set is \<and> n_key (bc_nodes c ! i) = k) \<and>
     bc_current_size c = blocks_size (map (blk c) is)"

text \<open>What the list operations leave alone: everything but the links and the two ends.\<close>

definition same_blocks :: "block_cache \<Rightarrow> block_cache \<Rightarrow> bool" where
  "same_blocks c c' \<longleftrightarrow> length (bc_nodes c') = length (bc_nodes c) \<and> (\<forall>i. blk c' i = blk c i) \<and>
     bc_map c' = bc_map c \<and> bc_free_list c' = bc_free_list c \<and>
     bc_current_size c' = bc_current_size c \<and> bc_capacity c' = bc_capacity c"

lemma blocks_size_simps [simp]:
  "blocks_size [] = 0" "blocks_size (kd # kds) = length (snd kd) + blocks_size kds"
  "blocks_size (kds @ lds) = blocks_size kds + blocks_size lds"
  by (simp_all add: blocks_size_def)

lemma cache_ok_relink:
  assumes "cache_ok c is" "same_blocks c c'" "mset is' = mset is"
    and "seg (bc_nodes c') None is' None" "bc_head c' = first_idx is' None" "bc_tail c' = last_idx None is'"
  shows "cache_ok c' is'"
proof -
  have blks: "blk c' = blk c" using assms(2) by (auto simp: same_blocks_def)
  have "set is' = set is" "distinct is' \<longleftrightarrow> distinct is"
    using assms(3) by (metis mset_eq_setD, metis mset_eq_imp_distinct_iff)
  moreover have "blocks_size (map (blk c') is') = blocks_size (map (blk c) is)"
  proof -
    have "mset (map (\<lambda>i. length (snd (blk c i))) is') = mset (map (\<lambda>i. length (snd (blk c i))) is)"
      using assms(3) by simp
    then have "sum_mset (mset (map (\<lambda>i. length (snd (blk c i))) is'))
        = sum_mset (mset (map (\<lambda>i. length (snd (blk c i))) is))" by (rule arg_cong)
    then have "sum_list (map (\<lambda>i. length (snd (blk c i))) is') = sum_list (map (\<lambda>i. length (snd (blk c i))) is)"
      by (simp only: sum_mset_sum_list)
    then show ?thesis unfolding blks by (simp add: blocks_size_def comp_def)
  qed
  moreover have "n_key (bc_nodes c' ! i) = n_key (bc_nodes c ! i)" for i
    using assms(2) by (simp add: same_blocks_def)
  ultimately show ?thesis
    using assms(1,2,4-6) unfolding cache_ok_def same_blocks_def by simp
qed

lemma cache_ok_new: "cache_ok (cache_new mb) []"
  by (simp add: cache_ok_def cache_new_def)

lemma cache_ok_clear: "cache_ok (cache_clear c) []"
  by (simp add: cache_ok_def cache_clear_def)

lemma nth_update_field: "f (g (ns ! i)) = f (ns ! i) \<Longrightarrow> f (ns[i := g (ns ! i)] ! j) = f (ns ! j)"
  by (cases "i < length ns"; cases "i = j") (simp_all add: list_update_beyond)

lemma nth_update_links:
  "n_key (ns[i := (ns ! i)\<lparr>n_prev := p\<rparr>] ! j) = n_key (ns ! j)"
  "n_data (ns[i := (ns ! i)\<lparr>n_prev := p\<rparr>] ! j) = n_data (ns ! j)"
  "n_key (ns[i := (ns ! i)\<lparr>n_next := q\<rparr>] ! j) = n_key (ns ! j)"
  "n_data (ns[i := (ns ! i)\<lparr>n_next := q\<rparr>] ! j) = n_data (ns ! j)"
  "n_key (ns[i := (ns ! i)\<lparr>n_prev := p, n_next := q\<rparr>] ! j) = n_key (ns ! j)"
  "n_data (ns[i := (ns ! i)\<lparr>n_prev := p, n_next := q\<rparr>] ! j) = n_data (ns ! j)"
  by (rule nth_update_field, simp)+

text \<open>Linking a detached node in front of the list.\<close>

definition push_front :: "nat option \<Rightarrow> nat \<Rightarrow> cache_node list \<Rightarrow> cache_node list" where
  "push_front head idx ns =
     (let ns' = ns[idx := (ns ! idx)\<lparr>n_prev := None, n_next := head\<rparr>]
      in case head of None \<Rightarrow> ns' | Some h \<Rightarrow> ns'[h := (ns' ! h)\<lparr>n_prev := Some idx\<rparr>])"

lemma push_front_blocks [simp]:
  "length (push_front h i ns) = length ns" "n_key (push_front h i ns ! j) = n_key (ns ! j)"
  "n_data (push_front h i ns ! j) = n_data (ns ! j)"
  by (simp_all add: push_front_def Let_def nth_update_links split: option.split)

lemma seg_push_front:
  assumes "seg ns None is None" "distinct is" "idx \<notin> set is" "idx < length ns"
  shows "seg (push_front (first_idx is None) idx ns) None (idx # is) None"
proof (cases "is")
  case (Cons h hs)
  let ?ns = "ns[idx := (ns ! idx)\<lparr>n_prev := None, n_next := Some h\<rparr>]"
  have "seg ?ns None (h # hs) None" using assms Cons by simp
  then have "seg (?ns[h := (?ns ! h)\<lparr>n_prev := Some idx\<rparr>]) (Some idx) (h # hs) None"
    using assms(2) Cons by (intro seg_set_prev) auto
  then show ?thesis using assms Cons by (auto simp: push_front_def Let_def)
qed (use assms in \<open>simp add: push_front_def Let_def\<close>)

text \<open>Unlinking a node that is not the head.\<close>

definition unlink :: "nat option \<Rightarrow> nat option \<Rightarrow> cache_node list \<Rightarrow> cache_node list" where
  "unlink prev next ns =
     (let ns' = (case prev of None \<Rightarrow> ns | Some p \<Rightarrow> ns[p := (ns ! p)\<lparr>n_next := next\<rparr>])
      in case next of None \<Rightarrow> ns' | Some n \<Rightarrow> ns'[n := (ns' ! n)\<lparr>n_prev := prev\<rparr>])"

lemma unlink_blocks [simp]:
  "length (unlink p q ns) = length ns" "n_key (unlink p q ns ! j) = n_key (ns ! j)"
  "n_data (unlink p q ns ! j) = n_data (ns ! j)"
  by (simp_all add: unlink_def Let_def nth_update_links split: option.split)

lemma seg_unlink:
  assumes "seg ns None (xs @ idx # ys) None" "distinct (xs @ idx # ys)" "xs \<noteq> []"
  shows "seg (unlink (Some (last xs)) (first_idx ys None) ns) None (xs @ ys) None"
proof -
  let ?q = "first_idx ys None"
  let ?ns = "ns[last xs := (ns ! last xs)\<lparr>n_next := ?q\<rparr>]"
  have s: "seg ns None xs (Some idx)" "seg ns (Some idx) ys None"
    using assms(1,3) by (auto simp: seg_append)
  have xs: "seg ?ns None xs ?q" using assms s by (intro seg_set_next) auto
  have "last xs \<in> set xs" using assms(3) by simp
  then have "last xs \<notin> set ys" using assms(2) by auto
  then have ys: "seg ?ns (Some idx) ys None" using s by simp
  show ?thesis
  proof (cases ys)
    case (Cons y zs)
    have "seg (?ns[y := (?ns ! y)\<lparr>n_prev := Some (last xs)\<rparr>]) (Some (last xs)) (y # zs) None"
      using ys assms(2) Cons by (intro seg_set_prev) auto
    moreover have "seg (?ns[y := (?ns ! y)\<lparr>n_prev := Some (last xs)\<rparr>]) None xs ?q"
      using xs assms(2) Cons by (subst seg_frame) auto
    moreover have "unlink (Some (last xs)) ?q ns = ?ns[y := (?ns ! y)\<lparr>n_prev := Some (last xs)\<rparr>]"
      using Cons by (simp add: unlink_def Let_def)
    ultimately show ?thesis unfolding seg_append using assms(3) Cons by (simp only: if_False)
  qed (use xs in \<open>simp add: unlink_def Let_def\<close>)
qed

subsection \<open>Operations\<close>

lemma cache_okD:
  assumes "cache_ok c is"
  shows "distinct is" "distinct (bc_free_list c)" "set is \<inter> set (bc_free_list c) = {}"
    "\<And>i. i \<in> set is \<Longrightarrow> i < length (bc_nodes c)" "\<And>i. i \<in> set (bc_free_list c) \<Longrightarrow> i < length (bc_nodes c)"
    "seg (bc_nodes c) None is None" "bc_head c = first_idx is None" "bc_tail c = last_idx None is"
    "\<And>k i. bc_map c k = Some i \<longleftrightarrow> i \<in> set is \<and> n_key (bc_nodes c ! i) = k"
    "bc_current_size c = blocks_size (map (blk c) is)"
proof -
  have eq: "set is \<union> set (bc_free_list c) = {..< length (bc_nodes c)}"
    using assms by (simp add: cache_ok_def)
  show "\<And>i. i \<in> set is \<Longrightarrow> i < length (bc_nodes c)" "\<And>i. i \<in> set (bc_free_list c) \<Longrightarrow> i < length (bc_nodes c)"
    using eq by blast+
qed (use assms in \<open>simp_all add: cache_ok_def\<close>)

lemma add_to_head_eq:
  assumes "idx < length (bc_nodes c)" "\<And>h. bc_head c = Some h \<Longrightarrow> h < length (bc_nodes c)"
  shows "add_to_head c idx = Some (c\<lparr>bc_nodes := push_front (bc_head c) idx (bc_nodes c),
    bc_head := Some idx, bc_tail := (if bc_tail c = None then Some idx else bc_tail c)\<rparr>)"
  using assms
  by (simp add: add_to_head_def upd_node_def upd_opt_def push_front_def Let_def split: option.split)

lemma alloc_node_ok:
  assumes "cache_ok c is"
  obtains idx c1 where "alloc_node c key data = Some (idx, c1)" "idx \<notin> set is"
    "distinct (idx # is @ bc_free_list c1)"
    "set (idx # is @ bc_free_list c1) = {..< length (bc_nodes c1)}"
    "seg (bc_nodes c1) None is None" "\<forall>i \<in> set is. blk c1 i = blk c i" "blk c1 idx = (key, data)"
    "bc_map c1 = bc_map c" "bc_head c1 = bc_head c" "bc_tail c1 = bc_tail c"
    "bc_current_size c1 = bc_current_size c" "bc_capacity c1 = bc_capacity c"
proof (cases "bc_free_list c" rule: rev_cases)
  case Nil
  let ?node = "\<lparr>n_key = key, n_data = data, n_prev = None, n_next = None\<rparr>"
  let ?c = "c\<lparr>bc_nodes := bc_nodes c @ [?node]\<rparr>"
  have s: "set is = {..< length (bc_nodes c)}" using assms Nil by (simp add: cache_ok_def)
  show ?thesis
  proof (rule that [of "length (bc_nodes c)" ?c])
    show "alloc_node c key data = Some (length (bc_nodes c), ?c)"
      using Nil by (simp add: alloc_node_def)
    show "seg (bc_nodes ?c) None is None"
      using cache_okD(6) [OF assms] by (simp add: seg_frame_append)
    show "\<forall>i \<in> set is. blk ?c i = blk c i" using s by (simp add: nth_append)
  qed (use cache_okD(1) [OF assms] s Nil in \<open>auto simp: lessThan_Suc\<close>)
next
  case (snoc fs f)
  let ?node = "\<lparr>n_key = key, n_data = data, n_prev = None, n_next = None\<rparr>"
  let ?c = "c\<lparr>bc_free_list := fs, bc_nodes := (bc_nodes c)[f := ?node]\<rparr>"
  have f: "f \<notin> set is" "f < length (bc_nodes c)"
    using cache_okD(3,5) [OF assms] snoc by auto
  show ?thesis
  proof (rule that [of f ?c])
    show "alloc_node c key data = Some (f, ?c)"
      using snoc f by (simp add: alloc_node_def upd_node_def)
    show "seg (bc_nodes ?c) None is None" using cache_okD(6) [OF assms] f by simp
    show "set (f # is @ bc_free_list ?c) = {..< length (bc_nodes ?c)}"
      using assms snoc by (simp add: cache_ok_def insert_commute)
    have "(bc_nodes c)[f := ?node] ! i = bc_nodes c ! i" if "i \<in> set is" for i
      using that f(1) by (metis nth_list_update_neq)
    then show "\<forall>i \<in> set is. blk ?c i = blk c i" by simp
  qed (use cache_okD(1,2,3) [OF assms] f snoc in auto)
qed

lemma insert_new_ok:
  assumes ok: "cache_ok c is" and new: "bc_map c key = None"
  obtains idx c1 c2 where "alloc_node c key data = Some (idx, c1)"
    "add_to_head (c1\<lparr>bc_map := (bc_map c1)(key \<mapsto> idx),
       bc_current_size := bc_current_size c1 + length data\<rparr>) idx = Some c2"
    "cache_ok c2 (idx # is)" "map (blk c2) (idx # is) = (key, data) # map (blk c) is"
    "bc_capacity c2 = bc_capacity c"
proof -
  obtain idx c1 where a: "alloc_node c key data = Some (idx, c1)" "idx \<notin> set is"
    "distinct (idx # is @ bc_free_list c1)"
    "set (idx # is @ bc_free_list c1) = {..< length (bc_nodes c1)}"
    "seg (bc_nodes c1) None is None" "\<forall>i \<in> set is. blk c1 i = blk c i" "blk c1 idx = (key, data)"
    "bc_map c1 = bc_map c" "bc_head c1 = bc_head c" "bc_tail c1 = bc_tail c"
    "bc_current_size c1 = bc_current_size c" "bc_capacity c1 = bc_capacity c"
    using alloc_node_ok [OF ok, of key data] .
  let ?c = "c1\<lparr>bc_map := (bc_map c1)(key \<mapsto> idx), bc_current_size := bc_current_size c1 + length data\<rparr>"
  let ?c2 = "?c\<lparr>bc_nodes := push_front (bc_head ?c) idx (bc_nodes ?c), bc_head := Some idx,
    bc_tail := (if bc_tail ?c = None then Some idx else bc_tail ?c)\<rparr>"
  have lt: "idx < length (bc_nodes c1)" "\<And>i. i \<in> set is \<Longrightarrow> i < length (bc_nodes c1)"
    using a(4) by auto
  have "add_to_head ?c idx = Some ?c2"
    using lt cache_okD(7) [OF ok] a(9) by (intro add_to_head_eq) (auto split: list.splits)
  moreover have conts: "map (blk ?c2) (idx # is) = (key, data) # map (blk c) is"
    using a(6,7) by simp
  moreover have "cache_ok ?c2 (idx # is)"
  proof -
    have keys: "bc_map c k = Some i \<longleftrightarrow> i \<in> set is \<and> n_key (bc_nodes c1 ! i) = k" for k i
      using cache_okD(9) [OF ok] a(6) by auto
    have "seg (bc_nodes ?c2) None (idx # is) None"
      using seg_push_front [OF a(5) _ a(2) lt(1)] a(3,9) cache_okD(7) [OF ok] by simp
    moreover have "((bc_map c)(key \<mapsto> idx)) k = Some i \<longleftrightarrow>
        i \<in> set (idx # is) \<and> n_key (bc_nodes ?c2 ! i) = k" for k i
      using keys [of k i] new a(2,7) by (cases "k = key") (auto dest: keys [THEN iffD2])
    ultimately show ?thesis
      using a conts cache_okD(7,8,10) [OF ok] unfolding cache_ok_def conts
      by (auto split: list.splits)
  qed
  ultimately show ?thesis using a(1,12) that by simp
qed

lemma move_to_head_ok:
  assumes ok: "cache_ok c (xs @ idx # ys)"
  obtains c' where "move_to_head c idx = Some c'" "cache_ok c' (idx # xs @ ys)" "same_blocks c c'"
proof (cases "xs = []")
  case True
  then have "move_to_head c idx = Some c"
    using cache_okD(7) [OF ok] by (simp add: move_to_head_def)
  then show ?thesis using that ok True by (simp add: same_blocks_def)
next
  case False
  let ?n = "bc_nodes c" and ?p = "Some (last xs)" and ?q = "first_idx ys None"
  let ?u = "unlink ?p ?q ?n"
  let ?c' = "c\<lparr>bc_nodes := push_front (bc_head c) idx ?u, bc_head := Some idx,
    bc_tail := (if bc_tail c = Some idx then ?p else bc_tail c)\<rparr>"
  note d = cache_okD [OF ok]
  have lt: "last xs < length ?n" "idx < length ?n" "hd xs < length ?n" "\<And>y. y \<in> set ys \<Longrightarrow> y < length ?n"
    using d(4) False by auto
  have links: "n_prev (?n ! idx) = ?p" "n_next (?n ! idx) = ?q"
    using d(6) False by (auto simp: seg_append)
  have head: "bc_head c = first_idx (xs @ ys) None" "bc_head c = Some (hd xs)"
    using d(7) False by (cases xs; simp)+
  have notin: "idx \<notin> set (xs @ ys)" using d(1) by auto
  then have "hd xs \<noteq> idx" using False by (metis Un_iff hd_in_set set_append)
  then have eq: "move_to_head c idx = Some ?c'"
    using lt links head(2)
    by (cases ys) (simp_all add: move_to_head_def node_at_def upd_opt_def upd_node_def unlink_def
        push_front_def Let_def)
  have "seg ?u None (xs @ ys) None" using seg_unlink [OF d(6,1) False] .
  then have "seg (push_front (bc_head c) idx ?u) None (idx # xs @ ys) None"
    unfolding head(1) using d(1) notin lt(2) by (intro seg_push_front) auto
  moreover have same: "same_blocks c ?c'" by (simp add: same_blocks_def)
  moreover have "bc_tail ?c' = last_idx None (idx # xs @ ys)"
    using d(1,8) False notin by (cases ys rule: rev_cases) auto
  ultimately have "cache_ok ?c' (idx # xs @ ys)"
    using cache_ok_relink [OF ok same, of "idx # xs @ ys"] by simp
  then show ?thesis using that eq same by blast
qed

lemma remove_tail_ok:
  assumes ok: "cache_ok c (is @ [t])"
  obtains c' where "remove_tail c = Some (Some t, c')" "cache_ok c' is"
    "map (blk c') is = map (blk c) is" "bc_capacity c' = bc_capacity c"
proof -
  let ?n = "bc_nodes c"
  let ?n' = "if is = [] then ?n else ?n[last is := (?n ! last is)\<lparr>n_next := None\<rparr>]"
  let ?c' = "c\<lparr>bc_tail := last_idx None is, bc_head := (if is = [] then None else bc_head c),
    bc_nodes := ?n', bc_current_size := usize_sub (bc_current_size c) (length (n_data (?n ! t))),
    bc_map := (bc_map c)(n_key (?n ! t) := None), bc_free_list := bc_free_list c @ [t]\<rparr>"
  note d = cache_okD [OF ok]
  have t: "t < length ?n" "t \<notin> set is" "is \<noteq> [] \<Longrightarrow> last is < length ?n"
    using d(1,4) by auto
  have prev: "n_prev (?n ! t) = last_idx None is" using d(6) by (simp add: seg_append)
  have same: "n_key (?n' ! i) = n_key (?n ! i)" "n_data (?n' ! i) = n_data (?n ! i)" for i
    by (simp_all add: nth_update_links)
  have "remove_tail c = Some (Some t, ?c')"
    using d(8) t prev same [of t]
    by (auto simp: remove_tail_def node_at_def upd_node_def Let_def)
  moreover have blks: "map (blk ?c') is = map (blk c) is" by (simp add: nth_update_links)
  moreover have "cache_ok ?c' is"
  proof -
    have "seg ?n' None is None"
      using d(1,6) by (auto simp: seg_append intro!: seg_set_next)
    moreover have "bc_map ?c' k = Some i \<longleftrightarrow> i \<in> set is \<and> n_key (?n' ! i) = k" for k i
    proof (cases "k = n_key (?n ! t)")
      case True
      then have "bc_map c k = Some t" using d(9) by simp
      then have "\<not> (i \<in> set is \<and> n_key (?n ! i) = k)" using d(9) [of k i] t(2) by auto
      then show ?thesis unfolding same(1) using True by simp
    next
      case False
      then have "i = t \<Longrightarrow> n_key (?n ! i) \<noteq> k" by simp
      then show ?thesis unfolding same(1) using False d(9) [of k i] by auto
    qed
    moreover have "bc_current_size ?c' = blocks_size (map (blk ?c') is)"
      unfolding blks using d(10) by (simp add: usize_sub_def)
    moreover have "set (is @ bc_free_list ?c') = {..< length (bc_nodes ?c')}"
      using ok by (auto simp: cache_ok_def)
    ultimately show ?thesis
      unfolding cache_ok_def using d(1-3,7) by (auto split: list.splits)
  qed
  ultimately show ?thesis using that by simp
qed

subsection \<open>Refinement to a list of blocks\<close>

text \<open>The specification: blocks from the most recent insertion on; eviction drops from the end.\<close>

function evict_blocks :: "nat \<Rightarrow> (cache_key \<times> bytes) list \<Rightarrow> (cache_key \<times> bytes) list" where
  "evict_blocks cap kds =
     (if kds \<noteq> [] \<and> cap < blocks_size kds then evict_blocks cap (butlast kds) else kds)"
  by pat_completeness auto
termination by (relation "measure (\<lambda>(_, kds). length kds)") auto

declare evict_blocks.simps [simp del]

definition put_block ::
  "nat \<Rightarrow> (cache_key \<times> bytes) list \<Rightarrow> cache_key \<Rightarrow> bytes \<Rightarrow> (cache_key \<times> bytes) list" where
  "put_block cap kds key data = (if length data > cap then kds
     else evict_blocks cap ((key, data) # filter (\<lambda>kd. fst kd \<noteq> key) kds))"

definition cache_rep :: "block_cache \<Rightarrow> (cache_key \<times> bytes) list \<Rightarrow> bool" where
  "cache_rep c kds \<longleftrightarrow> (\<exists>is. cache_ok c is \<and> kds = map (blk c) is) \<and> blocks_size kds \<le> bc_capacity c"

lemma evict_blocks_size: "blocks_size (evict_blocks cap kds) \<le> cap"
proof (induction cap kds rule: evict_blocks.induct)
  case (1 cap kds)
  then show ?case by (subst evict_blocks.simps) (auto simp: blocks_size_def)
qed

lemma evict_blocks_prefix: "\<exists>zs. kds = evict_blocks cap kds @ zs"
proof (induction cap kds rule: evict_blocks.induct)
  case (1 cap kds)
  show ?case
  proof (cases "kds \<noteq> [] \<and> cap < blocks_size kds")
    case True
    then obtain zs where "butlast kds = evict_blocks cap (butlast kds) @ zs" using 1 by blast
    then have "kds = evict_blocks cap (butlast kds) @ (zs @ [last kds])"
      using True by (metis append.assoc append_butlast_last_id)
    then show ?thesis using True by (subst evict_blocks.simps) auto
  qed (subst evict_blocks.simps, auto)
qed

lemma evict_blocks_head:
  assumes "length data \<le> cap"
  shows "\<exists>zs. evict_blocks cap ((key, data) # kds) = (key, data) # zs"
proof (induction kds rule: rev_induct)
  case Nil
  then show ?case using assms by (subst evict_blocks.simps) simp
next
  case (snoc x xs)
  then show ?case by (subst evict_blocks.simps) auto
qed

lemma evict_ok:
  "cache_ok c is \<Longrightarrow> \<exists>c' is'. evict_if_needed c = Some c' \<and> cache_ok c' is' \<and>
    map (blk c') is' = evict_blocks (bc_capacity c) (map (blk c) is) \<and> bc_capacity c' = bc_capacity c"
proof (induction "is" arbitrary: c rule: rev_induct)
  case Nil
  then have "bc_current_size c = 0" using cache_okD(10) by fastforce
  then show ?case
    using Nil by (subst evict_if_needed.simps, subst evict_blocks.simps) auto
next
  case (snoc t "is")
  note size = cache_okD(10) [OF snoc.prems]
  show ?case
  proof (cases "bc_current_size c > bc_capacity c")
    case True
    obtain c1 where c1: "remove_tail c = Some (Some t, c1)" "cache_ok c1 is"
      "map (blk c1) is = map (blk c) is" "bc_capacity c1 = bc_capacity c"
      using remove_tail_ok [OF snoc.prems] by blast
    have "evict_blocks (bc_capacity c) (map (blk c) (is @ [t])) = evict_blocks (bc_capacity c) (map (blk c) is)"
      using True size by (subst evict_blocks.simps) simp
    moreover have "evict_if_needed c = evict_if_needed c1"
      using True c1(1) by (subst evict_if_needed.simps) simp
    ultimately show ?thesis using snoc.IH [OF c1(2)] c1(3,4) by simp
  next
    case False
    then show ?thesis using snoc.prems size
      by (subst evict_if_needed.simps, subst evict_blocks.simps) auto
  qed
qed

lemma cache_rep_new: "cache_rep (cache_new mb) []"
  using cache_ok_new by (simp add: cache_rep_def)

lemma cache_rep_distinct: "cache_rep c kds \<Longrightarrow> distinct (map fst kds)"
proof -
  assume "cache_rep c kds"
  then obtain "is" where ok: "cache_ok c is" and kds: "kds = map (blk c) is" by (auto simp: cache_rep_def)
  have "inj_on (\<lambda>i. n_key (bc_nodes c ! i)) (set is)"
    using cache_okD(9) [OF ok] by (intro inj_onI) (metis option.inject)
  then show ?thesis using cache_okD(1) [OF ok] by (simp add: kds distinct_map comp_def)
qed

lemma cache_ok_lookup:
  assumes "cache_ok c is"
  shows "map_of (map (blk c) is) key = map_option (\<lambda>i. n_data (bc_nodes c ! i)) (bc_map c key)"
proof (cases "bc_map c key")
  case None
  then have "key \<notin> fst ` set (map (blk c) is)" using cache_okD(9) [OF assms, of key] by fastforce
  then show ?thesis using None by (simp add: map_of_eq_None_iff)
next
  case (Some i)
  then have i: "i \<in> set is" "n_key (bc_nodes c ! i) = key" using cache_okD(9) [OF assms] by auto
  have "inj_on (\<lambda>i. n_key (bc_nodes c ! i)) (set is)"
    using cache_okD(9) [OF assms] by (intro inj_onI) (metis option.inject)
  then have "distinct (map fst (map (blk c) is))"
    using cache_okD(1) [OF assms] by (simp add: distinct_map comp_def)
  moreover have "(key, n_data (bc_nodes c ! i)) \<in> set (map (blk c) is)" using i by force
  ultimately show ?thesis using Some by (simp add: map_of_is_SomeI)
qed

lemma cache_get_rep:
  assumes "cache_rep c kds"
  obtains c' where "cache_get c key = Some (map_of kds key, c')" "cache_rep c' kds"
proof -
  obtain "is" where ok: "cache_ok c is" and kds: "kds = map (blk c) is"
    using assms by (auto simp: cache_rep_def)
  have "cache_ok (c\<lparr>bc_hits := h\<rparr>) is" "cache_ok (c\<lparr>bc_misses := h\<rparr>) is" for h
    using ok by (simp_all add: cache_ok_def)
  then have reps: "cache_rep (c\<lparr>bc_hits := h\<rparr>) kds" "cache_rep (c\<lparr>bc_misses := h\<rparr>) kds" for h
    using assms kds by (auto simp: cache_rep_def)
  show ?thesis
  proof (cases "bc_map c key")
    case None
    then show ?thesis using that reps(2) cache_ok_lookup [OF ok, of key] kds by (simp add: cache_get_def)
  next
    case (Some i)
    then have "i < length (bc_nodes c)" using cache_okD(4,9) [OF ok] by auto
    then show ?thesis
      using that reps(1) cache_ok_lookup [OF ok, of key] kds Some by (simp add: cache_get_def node_at_def)
  qed
qed

lemma cache_ok_set_data:
  fixes data :: bytes
  assumes ok: "cache_ok c (xs @ idx # ys)"
  defines "c' \<equiv> c\<lparr>bc_nodes := (bc_nodes c)[idx := (bc_nodes c ! idx)\<lparr>n_data := data\<rparr>],
    bc_current_size := usize_sub (bc_current_size c) (length (n_data (bc_nodes c ! idx))) + length data\<rparr>"
  shows "cache_ok c' (xs @ idx # ys)" "map (blk c') (xs @ ys) = map (blk c) (xs @ ys)"
    "blk c' idx = (n_key (bc_nodes c ! idx), data)"
proof -
  note d = cache_okD [OF ok]
  have idx: "idx < length (bc_nodes c)" "idx \<notin> set (xs @ ys)" using d(1,4) by auto
  have other: "bc_nodes c' ! i = bc_nodes c ! i" if "i \<in> set (xs @ ys)" for i
    using that idx(2) by (cases "i = idx") (simp_all add: c'_def)
  show blks: "map (blk c') (xs @ ys) = map (blk c) (xs @ ys)" using other by (intro map_cong) auto
  show new: "blk c' idx = (n_key (bc_nodes c ! idx), data)" using idx by (simp add: c'_def)
  have f: "n_key (bc_nodes c' ! i) = n_key (bc_nodes c ! i)" "n_prev (bc_nodes c' ! i) = n_prev (bc_nodes c ! i)"
    "n_next (bc_nodes c' ! i) = n_next (bc_nodes c ! i)" for i
    unfolding c'_def by (simp_all, (rule nth_update_field, simp)+)
  have "seg (bc_nodes c') None (xs @ idx # ys) None"
    using d(6) seg_cong [of "bc_nodes c'" "bc_nodes c"] f by (simp add: c'_def)
  moreover have "bc_current_size c' = blocks_size (map (blk c') (xs @ idx # ys))"
  proof -
    have parts: "map (blk c') xs = map (blk c) xs" "map (blk c') ys = map (blk c) ys"
      using other by auto
    have "bc_current_size c' = usize_sub (bc_current_size c) (length (n_data (bc_nodes c ! idx))) + length data"
      by (simp add: c'_def)
    then show ?thesis using d(10) new unfolding map_append list.map parts by (simp add: usize_sub_def)
  qed
  ultimately show "cache_ok c' (xs @ idx # ys)"
    using ok f(1) unfolding cache_ok_def by (simp add: c'_def)
qed

lemma cache_insert_rep:
  assumes rep: "cache_rep c kds"
  obtains c' where "cache_insert c key data = Some c'" "bc_capacity c' = bc_capacity c"
    "cache_rep c' (put_block (bc_capacity c) kds key data)"
proof -
  obtain "is" where ok: "cache_ok c is" and kds: "kds = map (blk c) is"
    using rep by (auto simp: cache_rep_def)
  note result = that
  have finish: ?thesis
    if c2: "cache_ok c2 js" "bc_capacity c2 = bc_capacity c"
      "map (blk c2) js = (key, data) # filter (\<lambda>kd. fst kd \<noteq> key) kds"
      and run: "length data \<le> bc_capacity c \<Longrightarrow> cache_insert c key data = evict_if_needed c2"
      and small: "length data \<le> bc_capacity c" for c2 js
  proof -
    obtain c' is' where "evict_if_needed c2 = Some c'" "cache_ok c' is'"
      "map (blk c') is' = put_block (bc_capacity c) kds key data" "bc_capacity c' = bc_capacity c"
      using evict_ok [OF c2(1)] c2(2,3) small by (auto simp: put_block_def)
    moreover from this have "cache_rep c' (put_block (bc_capacity c) kds key data)"
      unfolding cache_rep_def using small evict_blocks_size [of "bc_capacity c"]
      by (auto simp: put_block_def)
    ultimately show ?thesis by (intro result [of c']) (simp_all add: run small)
  qed
  show ?thesis
  proof (cases "length data \<le> bc_capacity c")
    case False
    then show ?thesis using that [of c] rep by (simp add: cache_insert_def put_block_def)
  next
    case small: True
    show ?thesis
    proof (cases "bc_map c key")
      case None
      obtain idx c1 c2 where c2: "alloc_node c key data = Some (idx, c1)"
        "add_to_head (c1\<lparr>bc_map := (bc_map c1)(key \<mapsto> idx),
           bc_current_size := bc_current_size c1 + length data\<rparr>) idx = Some c2"
        "cache_ok c2 (idx # is)" "map (blk c2) (idx # is) = (key, data) # map (blk c) is"
        "bc_capacity c2 = bc_capacity c"
        by (rule insert_new_ok [OF ok None])
      have "key \<notin> fst ` set kds"
        using None cache_ok_lookup [OF ok, of key] kds by (simp add: map_of_eq_None_iff)
      then have "filter (\<lambda>kd. fst kd \<noteq> key) kds = kds" by (intro filter_True) force
      then show ?thesis
        using c2 None small kds by (intro finish [of c2 "idx # is"]) (simp_all add: cache_insert_def)
    next
      case (Some idx)
      then have idx: "idx \<in> set is" "n_key (bc_nodes c ! idx) = key" using cache_okD(9) [OF ok] by auto
      then obtain xs ys where xs: "is = xs @ idx # ys" by (metis in_set_conv_decomp)
      let ?c1 = "c\<lparr>bc_nodes := (bc_nodes c)[idx := (bc_nodes c ! idx)\<lparr>n_data := data\<rparr>],
        bc_current_size := usize_sub (bc_current_size c) (length (n_data (bc_nodes c ! idx))) + length data\<rparr>"
      note c1 = cache_ok_set_data [OF ok [unfolded xs], of data]
      obtain c2 where c2: "move_to_head ?c1 idx = Some c2" "cache_ok c2 (idx # xs @ ys)" "same_blocks ?c1 c2"
        by (rule move_to_head_ok [OF c1(1)])
      have blks: "map (blk c2) (idx # xs @ ys) = (key, data) # map (blk c) (xs @ ys)"
        using c1(2,3) c2(3) idx(2) by (simp add: same_blocks_def)
      have "fst ` set (map (blk c) (xs @ ys)) \<inter> {key} = {}"
        using cache_rep_distinct [OF rep] idx(2) by (auto simp: kds xs)
      then have "filter (\<lambda>kd. fst kd \<noteq> key) (map (blk c) (xs @ ys)) = map (blk c) (xs @ ys)"
        by (intro filter_True) force
      then have "filter (\<lambda>kd. fst kd \<noteq> key) kds = map (blk c) (xs @ ys)"
        using idx(2) by (simp add: kds xs)
      moreover have "idx < length (bc_nodes c)" using cache_okD(4) [OF ok] idx(1) .
      ultimately show ?thesis
        using c2 blks small Some
        by (intro finish [of c2 "idx # xs @ ys"])
          (simp_all add: cache_insert_def node_at_def upd_node_def same_blocks_def)
    qed
  qed
qed

subsection \<open>The cache contract\<close>

text \<open>
  What a reader relies on: a lookup returns the block that the contents hold, and an insertion
  adds nothing but its own block.  A reader that goes through the cache then sees the file.
\<close>

definition read_through ::
  "('c \<Rightarrow> cache_key \<Rightarrow> (bytes option \<times> 'c) option) \<Rightarrow> ('c \<Rightarrow> cache_key \<Rightarrow> bytes \<Rightarrow> 'c option) \<Rightarrow>
   'c \<Rightarrow> cache_key \<Rightarrow> (unit \<Rightarrow> bytes option) \<Rightarrow> (bytes \<times> 'c) option" where
  "read_through get ins c key read =
     Option.bind (get c key) (\<lambda>(hit, c'). case hit of
        Some d \<Rightarrow> Some (d, c')
      | None \<Rightarrow> Option.bind (read ()) (\<lambda>d. map_option (\<lambda>c''. (d, c'')) (ins c' key d)))"

locale block_store =
  fixes rep :: "'c \<Rightarrow> (cache_key \<times> bytes) list \<Rightarrow> bool"
    and get :: "'c \<Rightarrow> cache_key \<Rightarrow> (bytes option \<times> 'c) option"
    and ins :: "'c \<Rightarrow> cache_key \<Rightarrow> bytes \<Rightarrow> 'c option"
  assumes get_rep: "rep c kds \<Longrightarrow> \<exists>c'. get c k = Some (map_of kds k, c') \<and> rep c' kds"
    and ins_rep: "rep c kds \<Longrightarrow> \<exists>c' kds'. ins c k d = Some c' \<and> rep c' kds' \<and>
      set kds' \<subseteq> insert (k, d) (set kds)"
begin

lemma read_through_coherent:
  assumes "rep c kds" "\<forall>(k, d) \<in> set kds. block k = Some d" "block key = Some d"
  shows "\<exists>c' kds'. read_through get ins c key (\<lambda>_. block key) = Some (d, c') \<and> rep c' kds' \<and>
    (\<forall>(k, d) \<in> set kds'. block k = Some d)"
proof -
  obtain c1 where c1: "get c key = Some (map_of kds key, c1)" "rep c1 kds"
    using get_rep [OF assms(1)] by blast
  show ?thesis
  proof (cases "map_of kds key")
    case None
    obtain c2 kds2 where "ins c1 key d = Some c2" "rep c2 kds2" "set kds2 \<subseteq> insert (key, d) (set kds)"
      using ins_rep [OF c1(2)] by blast
    then show ?thesis using c1 None assms(2,3) by (fastforce simp: read_through_def)
  next
    case (Some d')
    then have "d' = d" using assms(2,3) map_of_SomeD by fastforce
    then show ?thesis using c1 Some assms(2) by (fastforce simp: read_through_def)
  qed
qed

end

lemma put_block_subset: "set (put_block cap kds k d) \<subseteq> insert (k, d) (set kds)"
proof -
  have "set (evict_blocks cap lds) \<subseteq> set lds" for lds
    using evict_blocks_prefix [of lds cap] by (metis Un_upper1 set_append)
  from this [of "(k, d) # filter (\<lambda>kd. fst kd \<noteq> k) kds"] show ?thesis
    by (auto simp: put_block_def)
qed

interpretation lru: block_store cache_rep cache_get cache_insert
proof
  fix c kds k d
  assume rep: "cache_rep c kds"
  show "\<exists>c'. cache_get c k = Some (map_of kds k, c') \<and> cache_rep c' kds"
    using cache_get_rep [OF rep] by metis
  show "\<exists>c' kds'. cache_insert c k d = Some c' \<and> cache_rep c' kds' \<and> set kds' \<subseteq> insert (k, d) (set kds)"
    using cache_insert_rep [OF rep] put_block_subset by metis
qed

subsection \<open>Properties\<close>

text \<open>
  C28. The linked structure implements the block list: inserting a block into a cache that
  stands for \<open>kds\<close> ends without a panic, stands for \<open>kds\<close> with the block in front and the
  oldest blocks dropped until the total fits, and never holds more bytes than its capacity.
\<close>

theorem cache_insert_refines:
  assumes "cache_rep c kds"
  shows "\<exists>c'. cache_insert c key data = Some c' \<and>
    cache_rep c' (put_block (bc_capacity c) kds key data) \<and>
    bc_current_size c' = blocks_size (put_block (bc_capacity c) kds key data) \<and>
    bc_current_size c' \<le> bc_capacity c'"
proof -
  obtain c' where c': "cache_insert c key data = Some c'" "bc_capacity c' = bc_capacity c"
    "cache_rep c' (put_block (bc_capacity c) kds key data)"
    by (rule cache_insert_rep [OF assms])
  have "bc_current_size c' = blocks_size (put_block (bc_capacity c) kds key data)"
    using c'(3) cache_okD(10) by (auto simp: cache_rep_def)
  with c' show ?thesis by (auto simp: cache_rep_def)
qed

theorem cache_insert_refines_witness:
  "\<exists>c'. cache_insert (cache_new 1) \<lparr>sstable_id = 1, block_offset = 8\<rparr> [1, 2, 3] = Some c' \<and>
    cache_rep c' (put_block 1048576 [] \<lparr>sstable_id = 1, block_offset = 8\<rparr> [1, 2, 3])"
  using cache_insert_refines [OF cache_rep_new [of 1]] by (fastforce simp: cache_new_def)

text \<open>
  A block that fits is found right after it was inserted, and it is the block inserted
  last for its key.
\<close>

theorem cache_get_after_insert:
  assumes "cache_rep c kds" "length data \<le> bc_capacity c"
  shows "\<exists>c' c''. cache_insert c key data = Some c' \<and> cache_get c' key = Some (Some data, c'')"
proof -
  obtain c' where c': "cache_insert c key data = Some c'"
    "cache_rep c' (put_block (bc_capacity c) kds key data)"
    using cache_insert_rep [OF assms(1)] by metis
  obtain zs where "put_block (bc_capacity c) kds key data = (key, data) # zs"
    using evict_blocks_head [OF assms(2)] assms(2) by (auto simp: put_block_def)
  then show ?thesis using lru.get_rep [OF c'(2), of key] c'(1) by auto
qed

theorem cache_get_after_insert_witness:
  "\<exists>c' c''. cache_insert (cache_new 1) \<lparr>sstable_id = 1, block_offset = 8\<rparr> [1, 2, 3] = Some c' \<and>
    cache_get c' \<lparr>sstable_id = 1, block_offset = 8\<rparr> = Some (Some [1, 2, 3], c'')"
  by (rule cache_get_after_insert [OF cache_rep_new]) (simp add: cache_new_def)

text \<open>
  The eviction order is insertion order, not recency of use: a lookup, hit or miss,
  changes the counters only, so a block that is read all the time is evicted as soon as it is
  the oldest insertion.
\<close>

theorem cache_get_no_recency:
  assumes "cache_get c key = Some (hit, c')"
  shows "bc_nodes c' = bc_nodes c \<and> bc_head c' = bc_head c \<and> bc_tail c' = bc_tail c \<and>
    (\<forall>kds. cache_rep c kds \<longrightarrow> cache_rep c' kds) \<and>
    bc_hits c' + bc_misses c' = bc_hits c + bc_misses c + 1"
proof -
  have "\<exists>h m. c' = c\<lparr>bc_hits := h, bc_misses := m\<rparr>"
    using assms unfolding cache_get_def
    by (auto split: option.splits) (metis block_cache.surjective block_cache.update_convs(8,9))+
  then obtain h m where c': "c' = c\<lparr>bc_hits := h, bc_misses := m\<rparr>" by blast
  have "cache_ok c' is \<longleftrightarrow> cache_ok c is" for "is" by (simp add: c' cache_ok_def)
  then have "cache_rep c kds \<longrightarrow> cache_rep c' kds" for kds by (auto simp: cache_rep_def c')
  moreover have "bc_hits c' + bc_misses c' = bc_hits c + bc_misses c + 1"
    using assms by (auto simp: cache_get_def split: option.splits)
  ultimately show ?thesis using c' by simp
qed

theorem cache_get_no_recency_witness:
  "bc_nodes (snd (the (cache_get (cache_new 1) \<lparr>sstable_id = 1, block_offset = 8\<rparr>))) = []"
  using cache_get_no_recency [of "cache_new 1" "\<lparr>sstable_id = 1, block_offset = 8\<rparr>" None
      "(cache_new 1)\<lparr>bc_misses := 1\<rparr>"]
  by (simp add: cache_get_def cache_new_def)

end
