(* ===== verification/SsTable.thy ===== *)
theory SsTable
  imports Delta Gorilla RleLz4 Dictionary Bloom BlockCache
begin

text \<open>
  \<^verbatim>\<open>graphite-core/src/sstable.rs\<close>: the writer and the reader of the on-disk tables.

  A table holds the contents of its open file and whether the handle may read: \<open>write\<close> opens
  the file write-only and keeps that handle, \<open>open\<close> opens it read-only.  Reads are positioned:
  a seek past \<open>2^63 - 1\<close> is refused, a read past the end of the file is the \<open>Io\<close> error of
  \<^verbatim>\<open>read_exact\<close>.  Running out of memory and failing disks are not modelled.
\<close>

datatype sst_error = SstIo | SstCorrupt string

record index_entry =
  ie_key :: key
  ie_block_offset :: u64
  ie_block_size :: u32

record footer =
  ft_data_offset :: u64
  ft_data_size :: u64
  ft_index_offset :: u64
  ft_index_size :: u64
  ft_bloom_offset :: u64
  ft_bloom_size :: u64
  ft_meta_offset :: u64
  ft_meta_size :: u64

record sstable =
  st_id :: u64
  st_path :: string
  st_meta :: sstable_meta
  st_file :: bytes
  st_readable :: bool
  st_index :: "index_entry list"
  st_bloom :: bloom_filter
  st_dict :: symbol_dictionary
  st_footer :: footer

definition SSTABLE_MAGIC :: u32 where "SSTABLE_MAGIC = 0x53535442"
definition SSTABLE_VERSION :: u16 where "SSTABLE_VERSION = 1"

subsection \<open>Writing\<close>

text \<open>The filter gets the key and the symbol name of every tick.\<close>

definition tick_bloom_keys :: "symbol_dictionary \<Rightarrow> tick \<Rightarrow> bytes list" where
  "tick_bloom_keys dict t = [key_encode (tick_key t),
     as_bytes (case get_symbol dict (t_symbol_id t) of Some s \<Rightarrow> s | None \<Rightarrow> ''UNKNOWN'')]"

definition write_bloom :: "(f64 \<Rightarrow> f64) \<Rightarrow> symbol_dictionary \<Rightarrow> tick list \<Rightarrow> bloom_filter option" where
  "write_bloom ln_f64 dict ticks =
     filter_add_all bloom_insert (bloom_new ln_f64 (max (length ticks) 1))
       (concat (map (tick_bloom_keys dict) ticks))"

definition prefix_len :: "key option \<Rightarrow> bytes \<Rightarrow> nat" where
  "prefix_len prev_key full_key = (case prev_key of
      Some prev \<Rightarrow> length (takeWhile (\<lambda>(a, b). a = b) (zip full_key (key_encode prev)))
    | None \<Rightarrow> 0)"

definition set_block_size :: "bytes \<Rightarrow> index_entry list \<Rightarrow> index_entry list" where
  "set_block_size data_buf index = (if index = [] then []
     else butlast index @ [(last index)\<lparr>ie_block_size :=
            of_nat (length data_buf) - ucast (ie_block_offset (last index))\<rparr>])"

text \<open>The loop over the ticks from row \<open>i\<close> on, \<open>n\<close> rows in all.\<close>

fun write_rows ::
  "nat \<Rightarrow> nat \<Rightarrow> key option \<Rightarrow> tick list \<Rightarrow> bytes \<Rightarrow> index_entry list \<Rightarrow> bytes \<times> index_entry list" where
  "write_rows n i prev_key [] data_buf index = (data_buf, index)"
| "write_rows n i prev_key (t # ts) data_buf index =
     (let key = tick_key t;
          index = (if i mod INDEX_INTERVAL = 0
                   then index @ [\<lparr>ie_key = key, ie_block_offset = of_nat (length data_buf), ie_block_size = 0\<rparr>]
                   else index);
          full_key = key_encode key;
          pl = prefix_len prev_key full_key;
          data_buf = data_buf @ [of_nat pl] @ drop pl full_key @ be_bytes 4 (of_nat i :: u32);
          index = (if BLOCK_SIZE \<le> length data_buf \<and> i < n - 1 then set_block_size data_buf index else index)
      in write_rows n (Suc i) (Some key) ts data_buf index)"

text \<open>The seven columns in the order of the file.\<close>

definition encode_columns :: "compressors \<Rightarrow> u32 \<Rightarrow> tick list \<Rightarrow> bytes list" where
  "encode_columns cz level ticks =
     [delta_encode (map t_timestamp ticks),
      encode_double_delta (map t_open ticks), encode_double_delta (map t_high ticks),
      encode_double_delta (map t_low ticks), encode_double_delta (map t_close ticks),
      encode_for_level cz (map t_volume ticks) level,
      encode_ids (map t_symbol_id ticks)]"

definition data_section :: "bytes \<Rightarrow> bytes list \<Rightarrow> bytes" where
  "data_section rows cols =
     rows @ concat (map (\<lambda>c. be_bytes 4 (of_nat (length c) :: u32)) cols) @ concat cols"

definition index_bytes :: "index_entry list \<Rightarrow> bytes" where
  "index_bytes index = be_bytes 4 (of_nat (length index) :: u32) @
     concat (map (\<lambda>e. key_encode (ie_key e) @ be_bytes 8 (ie_block_offset e) @ be_bytes 4 (ie_block_size e)) index)"

definition write_meta :: "tick list \<Rightarrow> u32 \<Rightarrow> sstable_meta" where
  "write_meta ticks level =
     \<lparr>m_min_timestamp = (if ticks = [] then 0 else t_timestamp (hd ticks)),
      m_max_timestamp = (if ticks = [] then 0 else t_timestamp (last ticks)),
      m_min_symbol_id = (if ticks = [] then 0 else Min (set (map t_symbol_id ticks))),
      m_max_symbol_id = (if ticks = [] then 0 else Max (set (map t_symbol_id ticks))),
      m_row_count = of_nat (length ticks), m_file_size = 0, m_level = level\<rparr>"

definition meta_bytes :: "sstable_meta \<Rightarrow> u64 \<Rightarrow> symbol_dictionary \<Rightarrow> bytes" where
  "meta_bytes meta col_offset dict =
     be_bytes 8 (m_min_timestamp meta) @ be_bytes 8 (m_max_timestamp meta) @
     be_bytes 2 (m_min_symbol_id meta) @ be_bytes 2 (m_max_symbol_id meta) @
     be_bytes 8 (m_row_count meta) @ be_bytes 4 (m_level meta) @ be_bytes 8 col_offset @
     be_bytes 4 (of_nat (length (to_metadata dict)) :: u32) @ to_metadata dict"

definition write_footer :: "footer \<Rightarrow> bytes" where
  "write_footer f = be_bytes 8 (ft_data_offset f) @ be_bytes 8 (ft_data_size f) @
     be_bytes 8 (ft_index_offset f) @ be_bytes 8 (ft_index_size f) @
     be_bytes 8 (ft_bloom_offset f) @ be_bytes 8 (ft_bloom_size f) @
     be_bytes 8 (ft_meta_offset f) @ be_bytes 8 (ft_meta_size f)"

definition make_footer :: "bytes \<Rightarrow> bytes \<Rightarrow> bytes \<Rightarrow> bytes \<Rightarrow> footer" where
  "make_footer data_buf index_buf bloom_bytes meta_buf =
     (let data_offset = 8; data_size = of_nat (length data_buf);
          index_offset = data_offset + data_size; index_size = of_nat (length index_buf);
          bloom_offset = index_offset + index_size; bloom_size = of_nat (length bloom_bytes);
          meta_offset = bloom_offset + bloom_size; meta_size = of_nat (length meta_buf)
      in \<lparr>ft_data_offset = data_offset, ft_data_size = data_size, ft_index_offset = index_offset,
          ft_index_size = index_size, ft_bloom_offset = bloom_offset, ft_bloom_size = bloom_size,
          ft_meta_offset = meta_offset, ft_meta_size = meta_size\<rparr>)"

definition sst_write ::
  "(f64 \<Rightarrow> f64) \<Rightarrow> compressors \<Rightarrow> u64 \<Rightarrow> string \<Rightarrow> tick list \<Rightarrow> u32 \<Rightarrow> symbol_dictionary \<Rightarrow>
   (sstable, sst_error) outcome" where
  "sst_write ln_f64 cz tid path ticks level dict =
     bind_outcome (or_panic (write_bloom ln_f64 dict ticks)) (\<lambda>bloom.
     let cols = encode_columns cz level ticks;
         (rows, index0) = write_rows (length ticks) 0 None ticks [] [];
         index = set_block_size rows index0;
         col_offset = of_nat (length rows);
         data_buf = data_section rows cols;
         index_buf = index_bytes index;
         bloom_bytes = bloom_to_bytes bloom;
         meta = write_meta ticks level;
         meta_buf = meta_bytes meta col_offset dict;
         ft = make_footer data_buf index_buf bloom_bytes meta_buf;
         file = be_bytes 4 SSTABLE_MAGIC @ be_bytes 2 SSTABLE_VERSION @ data_buf @ index_buf @
                bloom_bytes @ meta_buf @ write_footer ft
     in Ok \<lparr>st_id = tid, st_path = path, st_meta = meta\<lparr>m_file_size := of_nat (length file)\<rparr>,
            st_file = file, st_readable = False, st_index = index, st_bloom = bloom, st_dict = dict,
            st_footer = ft\<rparr>)"

subsection \<open>Reading\<close>

text \<open>\<^verbatim>\<open>seek\<close>, \<^verbatim>\<open>vec![0; len]\<close> and \<^verbatim>\<open>read_exact\<close>: a vector of \<open>2^63\<close> bytes or more panics.\<close>

definition read_at :: "bytes \<Rightarrow> u64 \<Rightarrow> u64 \<Rightarrow> (bytes, sst_error) outcome" where
  "read_at file off len =
     (if 2 ^ 63 \<le> unat off then Err SstIo
      else if 2 ^ 63 \<le> unat len then Panic
      else if unat off + unat len \<le> length file then Ok (take (unat len) (drop (unat off) file))
      else Err SstIo)"

definition read_footer :: "bytes \<Rightarrow> u64 \<Rightarrow> (footer, sst_error) outcome" where
  "read_footer file file_size =
     bind_outcome (read_at file (file_size - 64) 64) (\<lambda>buf.
     let read_u64 = (\<lambda>off. from_be (take 8 (drop off buf)))
     in Ok \<lparr>ft_data_offset = read_u64 0, ft_data_size = read_u64 8, ft_index_offset = read_u64 16,
            ft_index_size = read_u64 24, ft_bloom_offset = read_u64 32, ft_bloom_size = read_u64 40,
            ft_meta_offset = read_u64 48, ft_meta_size = read_u64 56\<rparr>)"

definition read_metadata :: "bytes \<Rightarrow> footer \<Rightarrow> (sstable_meta, sst_error) outcome" where
  "read_metadata file ft =
     bind_outcome (read_at file (ft_meta_offset ft) (ft_meta_size ft)) (\<lambda>buf.
     if length buf < 32 then Panic
     else Ok \<lparr>m_min_timestamp = from_be (take 8 buf), m_max_timestamp = from_be (take 8 (drop 8 buf)),
             m_min_symbol_id = from_be (take 2 (drop 16 buf)),
             m_max_symbol_id = from_be (take 2 (drop 18 buf)),
             m_row_count = from_be (take 8 (drop 20 buf)), m_file_size = 0,
             m_level = from_be (take 4 (drop 28 buf))\<rparr>)"

text \<open>One index entry per turn, from the bytes that are left; slicing past them panics.\<close>

fun read_entries :: "nat \<Rightarrow> bytes \<Rightarrow> index_entry list option" where
  "read_entries 0 buf = Some []"
| "read_entries (Suc n) buf =
     (if length buf < 22 then None
      else map_option (\<lambda>es. \<lparr>ie_key = the (key_decode (take 10 buf)),
               ie_block_offset = from_be (take 8 (drop 10 buf)),
               ie_block_size = from_be (take 4 (drop 18 buf))\<rparr> # es)
             (read_entries n (drop 22 buf)))"

definition read_index :: "bytes \<Rightarrow> footer \<Rightarrow> (index_entry list, sst_error) outcome" where
  "read_index file ft =
     bind_outcome (read_at file (ft_index_offset ft) (ft_index_size ft)) (\<lambda>buf.
     if length buf < 4 then Panic
     else or_panic (read_entries (unat (from_be (take 4 buf) :: u32)) (drop 4 buf)))"

definition read_bloom :: "bytes \<Rightarrow> footer \<Rightarrow> (bloom_filter, sst_error) outcome" where
  "read_bloom file ft =
     bind_outcome (read_at file (ft_bloom_offset ft) (ft_bloom_size ft)) (\<lambda>buf.
     case bloom_from_encoded buf of Some b \<Rightarrow> Ok b | None \<Rightarrow> Err (SstCorrupt ''bad bloom filter''))"

definition read_symbol_dict ::
  "(string \<Rightarrow> string) \<Rightarrow> bytes \<Rightarrow> footer \<Rightarrow> (symbol_dictionary, sst_error) outcome" where
  "read_symbol_dict lossy file ft =
     bind_outcome (read_at file (ft_meta_offset ft) (ft_meta_size ft)) (\<lambda>buf.
     if length buf < 44 then Panic
     else let dict_len = unat (from_be (take 4 (drop 40 buf)) :: u32) in
       bind_outcome (or_panic (rslice 44 (44 + dict_len) buf)) (\<lambda>dict_data.
       Ok (from_metadata lossy dict_data)))"

definition sst_open :: "(string \<Rightarrow> string) \<Rightarrow> u64 \<Rightarrow> string \<Rightarrow> bytes \<Rightarrow> (sstable, sst_error) outcome" where
  "sst_open lossy tid path file =
     bind_outcome (read_at file 0 4) (\<lambda>magic_buf.
     if (from_be magic_buf :: u32) \<noteq> SSTABLE_MAGIC then Err (SstCorrupt ''bad magic'')
     else bind_outcome (read_at file 4 2) (\<lambda>version_buf.
     bind_outcome (read_footer file (of_nat (length file))) (\<lambda>ft.
     bind_outcome (read_metadata file ft) (\<lambda>meta.
     bind_outcome (read_index file ft) (\<lambda>index.
     bind_outcome (read_bloom file ft) (\<lambda>bloom.
     bind_outcome (read_symbol_dict lossy file ft) (\<lambda>dict.
     Ok \<lparr>st_id = tid, st_path = path, st_meta = meta, st_file = file, st_readable = True,
         st_index = index, st_bloom = bloom, st_dict = dict, st_footer = ft\<rparr>)))))))"

definition may_contain_symbol :: "sstable \<Rightarrow> string \<Rightarrow> bool option" where
  "may_contain_symbol t s = bloom_contains (st_bloom t) (as_bytes s)"

definition may_contain_key :: "sstable \<Rightarrow> key \<Rightarrow> bool option" where
  "may_contain_key t k = bloom_contains (st_bloom t) (key_encode k)"

definition overlaps_time_range :: "sstable \<Rightarrow> i64 \<Rightarrow> i64 \<Rightarrow> bool" where
  "overlaps_time_range t t1 t2 \<longleftrightarrow>
     sint (m_max_timestamp (st_meta t)) \<ge> sint t1 \<and> sint (m_min_timestamp (st_meta t)) \<le> sint t2"

definition overlaps_symbol :: "sstable \<Rightarrow> u16 \<Rightarrow> bool" where
  "overlaps_symbol t sid \<longleftrightarrow> m_min_symbol_id (st_meta t) \<le> sid \<and> sid \<le> m_max_symbol_id (st_meta t)"

text \<open>\<open>None\<close>: the \<^verbatim>\<open>unwrap\<close> of a failed seek or read.\<close>

definition read_data_block :: "sstable \<Rightarrow> bytes option" where
  "read_data_block t = (if \<not> st_readable t then None
     else case read_at (st_file t) (ft_data_offset (st_footer t)) (ft_data_size (st_footer t)) of
       Ok buf \<Rightarrow> Some buf | _ \<Rightarrow> None)"

definition get_or :: "'a \<Rightarrow> 'a list \<Rightarrow> nat \<Rightarrow> 'a" where
  "get_or d xs i = (if i < length xs then xs ! i else d)"

text \<open>The slices \<open>&data[offset..offset + size]\<close> of consecutive columns.\<close>

fun take_columns :: "bytes \<Rightarrow> nat \<Rightarrow> nat list \<Rightarrow> bytes list option" where
  "take_columns data off [] = Some []"
| "take_columns data off (n # ns) =
     Option.bind (rslice off (off + n) data) (\<lambda>c. map_option ((#) c) (take_columns data (off + n) ns))"

definition decode_rows ::
  "i64 list \<Rightarrow> f64 list \<Rightarrow> f64 list \<Rightarrow> f64 list \<Rightarrow> f64 list \<Rightarrow> u64 list \<Rightarrow> u16 list \<Rightarrow>
   u16 option \<Rightarrow> i64 \<Rightarrow> i64 \<Rightarrow> tick list" where
  "decode_rows timestamps opens highs lows closes volumes symbol_ids symbol_id t1 t2 =
     concat (map (\<lambda>i.
       let ts = get_or 0 timestamps i; sid = get_or 0 symbol_ids i in
       if sint ts < sint t1 \<or> sint ts > sint t2 then []
       else if (case symbol_id of Some fs \<Rightarrow> sid \<noteq> fs | None \<Rightarrow> False) then []
       else [\<lparr>t_symbol_id = sid, t_timestamp = ts, t_open = get_or 0 opens i, t_high = get_or 0 highs i,
              t_low = get_or 0 lows i, t_close = get_or 0 closes i, t_volume = get_or 0 volumes i\<rparr>])
     [0 ..< length timestamps])"

definition decode_column_list ::
  "compressors \<Rightarrow> bytes list \<Rightarrow> u16 option \<Rightarrow> i64 \<Rightarrow> i64 \<Rightarrow> tick list option" where
  "decode_column_list cz cols symbol_id t1 t2 =
     map_option (\<lambda>timestamps. decode_rows timestamps
         (decode_double_delta (cols ! 1)) (decode_double_delta (cols ! 2))
         (decode_double_delta (cols ! 3)) (decode_double_delta (cols ! 4))
         (rle_lz4_decode cz (cols ! 5)) (decode_ids (cols ! 6)) symbol_id t1 t2)
       (delta_decode (cols ! 0))"

text \<open>\<open>None\<close> is a slice out of range.\<close>

definition decode_ticks :: "compressors \<Rightarrow> bytes \<Rightarrow> u16 option \<Rightarrow> i64 \<Rightarrow> i64 \<Rightarrow> tick list option" where
  "decode_ticks cz data symbol_id t1 t2 =
     (if length data < 28 then Some []
      else let col_sizes_offset = length data - 28;
               col_sizes = map (\<lambda>i. unat (from_be (take 4 (drop (col_sizes_offset + i * 4) data)) :: u32)) [0 ..< 7];
               col_start = col_sizes_offset + 28
           in Option.bind (take_columns data col_start col_sizes)
                (\<lambda>cols. decode_column_list cz cols symbol_id t1 t2))"

text \<open>The optional shared cache is threaded through; the column projection is ignored.\<close>

definition sst_scan ::
  "compressors \<Rightarrow> sstable \<Rightarrow> u16 option \<Rightarrow> i64 \<Rightarrow> i64 \<Rightarrow> block_cache option \<Rightarrow>
   (tick list \<times> block_cache option) option" where
  "sst_scan cz t symbol_id t1 t2 cache =
     (if \<not> overlaps_time_range t t1 t2 then Some ([], cache)
      else if (case symbol_id of Some sid \<Rightarrow> \<not> overlaps_symbol t sid | None \<Rightarrow> False) then Some ([], cache)
      else let cache_key = \<lparr>sstable_id = st_id t, block_offset = ft_data_offset (st_footer t)\<rparr> in
        Option.bind (case cache of
            Some c \<Rightarrow> map_option (\<lambda>(d, c'). (d, Some c'))
              (read_through cache_get cache_insert c cache_key (\<lambda>_. read_data_block t))
          | None \<Rightarrow> map_option (\<lambda>d. (d, None)) (read_data_block t))
        (\<lambda>(data, cache'). map_option (\<lambda>ts. (ts, cache')) (decode_ticks cz data symbol_id t1 t2)))"

subsection \<open>The writer\<close>

lemma write_bloom_ok:
  obtains f where "write_bloom ln_f64 dict ticks = Some f" "bloom_wf f"
    "\<forall>t \<in> set ticks. \<forall>k \<in> set (tick_bloom_keys dict t). bloom_contains f k = Some True"
proof -
  let ?ks = "concat (map (tick_bloom_keys dict) ticks)"
  obtain f where f: "write_bloom ln_f64 dict ticks = Some f" "bloom_wf f"
    "\<forall>k \<in> set ?ks. bloom_contains f k = Some True"
    using bloom.add_all [OF bloom_wf_new, of ln_f64 "max (length ticks) 1" ?ks]
    by (auto simp: write_bloom_def)
  show ?thesis by (rule that [OF f(1,2)]) (use f(3) in auto)
qed

lemma length_set_block_size [simp]: "length (set_block_size buf index) = length index"
  by (simp add: set_block_size_def)

lemma length_write_rows_index:
  "length (snd (write_rows n i p ts buf index)) + div_ceil i INDEX_INTERVAL
    = length index + div_ceil (i + length ts) INDEX_INTERVAL"
proof (induction ts arbitrary: i p buf index)
  case (Cons t ts)
  have step: "div_ceil (Suc i) INDEX_INTERVAL
      = div_ceil i INDEX_INTERVAL + (if i mod INDEX_INTERVAL = 0 then 1 else 0)"
    using div_Suc [of "i + 15" 16] by (simp add: div_ceil_def INDEX_INTERVAL_def add.commute)
  obtain buf' index' where next_row: "write_rows n i p (t # ts) buf index
      = write_rows n (Suc i) (Some (tick_key t)) ts buf' index'"
    "length index' = length index + (if i mod INDEX_INTERVAL = 0 then 1 else 0)"
    by (rule that) (unfold write_rows.simps Let_def, rule refl, simp)
  show ?case
    unfolding next_row(1)
    using Cons.IH [of "Suc i" "Some (tick_key t)" buf' index'] step next_row(2) by simp
qed simp

text \<open>What a written table looks like; every fact about \<open>sst_write\<close> goes through this.\<close>

lemma sst_writeE:
  assumes "sst_write ln_f64 cz tid path ticks level dict = Ok t"
  obtains bloom rows index data idx blm meta where
    "write_bloom ln_f64 dict ticks = Some bloom" "rows = fst (write_rows (length ticks) 0 None ticks [] [])"
    "data = data_section rows (encode_columns cz level ticks)" "idx = index_bytes index"
    "length index = div_ceil (length ticks) INDEX_INTERVAL"
    "blm = bloom_to_bytes bloom" "meta = meta_bytes (write_meta ticks level) (of_nat (length rows)) dict"
    "st_file t = be_bytes 4 SSTABLE_MAGIC @ be_bytes 2 SSTABLE_VERSION @ data @ idx @ blm @ meta @
       write_footer (make_footer data idx blm meta)"
    "t = \<lparr>st_id = tid, st_path = path,
       st_meta = (write_meta ticks level)\<lparr>m_file_size := of_nat (length (st_file t))\<rparr>,
       st_file = st_file t, st_readable = False, st_index = index, st_bloom = bloom, st_dict = dict,
       st_footer = make_footer data idx blm meta\<rparr>"
proof -
  obtain bloom where b: "write_bloom ln_f64 dict ticks = Some bloom"
    using assms by (cases "write_bloom ln_f64 dict ticks") (auto simp: sst_write_def)
  obtain rows index0 where w: "write_rows (length ticks) 0 None ticks [] [] = (rows, index0)"
    by fastforce
  have "length (set_block_size rows index0) = div_ceil (length ticks) INDEX_INTERVAL"
    using length_write_rows_index [of "length ticks" 0 None ticks "[]" "[]"] w
    by (simp add: div_ceil_def INDEX_INTERVAL_def)
  moreover from assms have "t = \<lparr>st_id = tid, st_path = path,
       st_meta = (write_meta ticks level)\<lparr>m_file_size := of_nat (length (st_file t))\<rparr>,
       st_file = st_file t, st_readable = False, st_index = set_block_size rows index0,
       st_bloom = bloom, st_dict = dict,
       st_footer = make_footer (data_section rows (encode_columns cz level ticks))
         (index_bytes (set_block_size rows index0)) (bloom_to_bytes bloom)
         (meta_bytes (write_meta ticks level) (of_nat (length rows)) dict)\<rparr>"
    and "st_file t = be_bytes 4 SSTABLE_MAGIC @ be_bytes 2 SSTABLE_VERSION @
       data_section rows (encode_columns cz level ticks) @ index_bytes (set_block_size rows index0) @
       bloom_to_bytes bloom @ meta_bytes (write_meta ticks level) (of_nat (length rows)) dict @
       write_footer (make_footer (data_section rows (encode_columns cz level ticks))
         (index_bytes (set_block_size rows index0)) (bloom_to_bytes bloom)
         (meta_bytes (write_meta ticks level) (of_nat (length rows)) dict))"
    by (auto simp: sst_write_def b w Let_def)
  moreover have "rows = fst (write_rows (length ticks) 0 None ticks [] [])" by (simp add: w)
  ultimately show ?thesis using that b by blast
qed

lemma sst_write_fields:
  assumes "sst_write ln_f64 cz tid path ticks level dict = Ok t"
  shows "\<not> st_readable t" "st_id t = tid" "st_path t = path" "st_dict t = dict"
    "st_meta t = (write_meta ticks level)\<lparr>m_file_size := of_nat (length (st_file t))\<rparr>"
proof -
  have "\<not> st_readable t \<and> st_id t = tid \<and> st_path t = path \<and> st_dict t = dict \<and>
    st_meta t = (write_meta ticks level)\<lparr>m_file_size := of_nat (length (st_file t))\<rparr>"
  proof (rule sst_writeE [OF assms])
  fix index bloom data idx blm meta
  assume e: "t = \<lparr>st_id = tid, st_path = path,
       st_meta = (write_meta ticks level)\<lparr>m_file_size := of_nat (length (st_file t))\<rparr>,
       st_file = st_file t, st_readable = False, st_index = index, st_bloom = bloom, st_dict = dict,
       st_footer = make_footer data idx blm meta\<rparr>"
  show ?thesis
    using arg_cong [OF e, of st_readable] arg_cong [OF e, of st_id] arg_cong [OF e, of st_path]
      arg_cong [OF e, of st_dict] arg_cong [OF e, of st_meta] by simp
  qed
  then show "\<not> st_readable t" "st_id t = tid" "st_path t = path" "st_dict t = dict"
    "st_meta t = (write_meta ticks level)\<lparr>m_file_size := of_nat (length (st_file t))\<rparr>" by simp_all
qed

lemma sst_write_total: "\<exists>t. sst_write ln_f64 cz tid path ticks level dict = Ok t"
proof -
  obtain f where "write_bloom ln_f64 dict ticks = Some f" by (rule write_bloom_ok)
  then show ?thesis by (simp add: sst_write_def Let_def split: prod.splits)
qed

subsection \<open>The reader\<close>

lemma read_entries_short: "length buf < 22 * n \<Longrightarrow> read_entries n buf = None"
proof (induction n arbitrary: buf)
  case (Suc n)
  then show ?case by (cases "length buf < 22") (simp_all add: Suc.IH)
qed simp

lemma length_index_bytes: "length (index_bytes index) = 4 + 22 * length index"
  by (induction index) (simp_all add: index_bytes_def)

text \<open>Two bytes into the index the count field holds the low half of the count in its high half.\<close>

lemma shifted_count:
  fixes w :: u32
  assumes "2 \<le> length rest"
  shows "unat (from_be (take 4 (drop 2 (be_bytes 4 w @ rest))) :: u32) div 2 ^ 16 = unat w mod 2 ^ 16"
proof -
  obtain x y rest' where r: "rest = x # y # rest'"
    using assms by (metis Suc_le_length_iff numeral_2_eq_2)
  have "drop 2 (be_bytes 4 w) = be_bytes 2 w" using drop_be_bytes [of 2 2 w] by simp
  then have t: "take 4 (drop 2 (be_bytes 4 w @ rest)) = be_bytes 2 w @ [x, y]" by (simp add: r)
  let ?v = "from_be (be_bytes 2 w @ [x, y]) :: u32"
  have v: "?v = push_bit 8 (push_bit 8 (take_bit 16 w) OR ucast x) OR ucast y"
    using from_be_be_bytes [of 2 w] by (simp add: from_be_def)
  have "\<not> bit x (n + 8)" "\<not> bit y (n + 16)" for n
    using bit_imp_le_length [of x "n + 8"] bit_imp_le_length [of y "n + 16"] by auto
  then have "drop_bit 16 ?v = take_bit 16 w"
    unfolding v by (intro bit_eqI) (auto simp: bit_simps add.commute)
  then have "unat (drop_bit 16 ?v) = unat (take_bit 16 w)" by (rule arg_cong)
  moreover have "take_bit 32 (unat ?v) = unat ?v"
    using unsigned_less [of ?v, where ?'a = nat] by (simp only: take_bit_nat_eq_self_iff) simp
  ultimately have "drop_bit 16 (unat ?v) = take_bit 16 (unat w)"
    by (simp only: unsigned_take_bit_eq) (simp add: unsigned_drop_bit_eq)
  then show ?thesis unfolding t by (simp only: drop_bit_eq_div take_bit_eq_mod)
qed

lemma read_at_ok:
  assumes "length file < 2 ^ 63" "off + len \<le> length file"
  shows "read_at file (of_nat off) (of_nat len) = Ok (take len (drop off file))"
proof -
  have "unat (of_nat off :: u64) = off" "unat (of_nat len :: u64) = len"
    using assms by (simp_all add: unat_of_nat)
  then show ?thesis using assms by (simp add: read_at_def)
qed

lemma length_write_footer [simp]: "length (write_footer f) = 64"
  by (simp add: write_footer_def)

lemma read_footer_ok:
  assumes "length (pre @ write_footer ft) < 2 ^ 63"
  shows "read_footer (pre @ write_footer ft) (of_nat (length (pre @ write_footer ft))) = Ok ft"
proof -
  have "of_nat (length (pre @ write_footer ft)) - 64 = (of_nat (length pre) :: u64)" by simp
  then have "read_at (pre @ write_footer ft) (of_nat (length (pre @ write_footer ft)) - 64) 64
      = Ok (write_footer ft)"
    using read_at_ok [OF assms, of "length pre" 64] by simp
  then show ?thesis
    unfolding read_footer_def by (simp add: write_footer_def Let_def)
qed

lemma length_meta_bytes: "44 \<le> length (meta_bytes m off dict)"
  by (simp add: meta_bytes_def)

text \<open>
  The sections start at byte 6 and the footer says 8: each section is read two bytes late, and
  the last one ends inside the footer, so no read fails.
\<close>

lemma shifted_sections:
  fixes data idx blm meta :: bytes
  defines "ft \<equiv> make_footer data idx blm meta"
    and "file \<equiv> be_bytes 4 SSTABLE_MAGIC @ be_bytes 2 SSTABLE_VERSION @ data @ idx @ blm @ meta @
      write_footer (make_footer data idx blm meta)"
  assumes "length file < 2 ^ 63"
  shows "read_at file (ft_index_offset ft) (ft_index_size ft)
      = Ok (take (length idx) (drop 2 (idx @ blm @ meta @ write_footer ft)))"
    "read_at file (ft_meta_offset ft) (ft_meta_size ft)
      = Ok (take (length meta) (drop 2 (meta @ write_footer ft)))"
proof -
  have i: "ft_index_offset ft = of_nat (8 + length data)" "ft_index_size ft = of_nat (length idx)"
    "ft_meta_offset ft = of_nat (8 + length data + length idx + length blm)"
    "ft_meta_size ft = of_nat (length meta)"
    by (simp_all add: ft_def make_footer_def Let_def)
  have d1: "drop (8 + length data) file = drop 2 (idx @ blm @ meta @ write_footer ft)"
    and d2: "drop (8 + length data + length idx + length blm) file = drop 2 (meta @ write_footer ft)"
    by (simp_all add: file_def ft_def)
  have len: "8 + length data + length idx \<le> length file"
    "8 + length data + length idx + length blm + length meta \<le> length file"
    by (simp_all add: file_def)
  show "read_at file (ft_index_offset ft) (ft_index_size ft)
      = Ok (take (length idx) (drop 2 (idx @ blm @ meta @ write_footer ft)))"
    unfolding i d1 [symmetric] using assms(3) len(1) by (intro read_at_ok) auto
  show "read_at file (ft_meta_offset ft) (ft_meta_size ft)
      = Ok (take (length meta) (drop 2 (meta @ write_footer ft)))"
    unfolding i d2 [symmetric] using assms(3) len(2) by (intro read_at_ok) auto
qed

lemma read_index_shifted:
  fixes index :: "index_entry list"
  assumes "read_at file (ft_index_offset ft) (ft_index_size ft)
      = Ok (take (length (index_bytes index)) (drop 2 (index_bytes index @ rest)))"
    and "2 \<le> length rest" "index \<noteq> []" "length index < 2 ^ 16"
  shows "read_index file ft = Panic"
proof -
  let ?n = "length index"
  let ?es = "concat (map (\<lambda>e. key_encode (ie_key e) @ be_bytes 8 (ie_block_offset e) @ be_bytes 4 (ie_block_size e)) index)"
  let ?buf = "take (length (index_bytes index)) (drop 2 (index_bytes index @ rest))"
  let ?cnt = "unat (from_be (take 4 ?buf) :: u32)"
  have len: "length ?buf = 4 + 22 * ?n" using assms(2) by (simp add: length_index_bytes)
  have idx: "index_bytes index @ rest = be_bytes 4 (of_nat ?n :: u32) @ (?es @ rest)"
    by (simp add: index_bytes_def)
  have "take 4 ?buf = take 4 (drop 2 (index_bytes index @ rest))"
    by (simp add: length_index_bytes min_def)
  then have "take 4 ?buf = take 4 (drop 2 (be_bytes 4 (of_nat ?n :: u32) @ (?es @ rest)))"
    unfolding idx .
  moreover have "2 \<le> length (?es @ rest)" using assms(2) by simp
  ultimately have "?cnt div 2 ^ 16 = unat (of_nat ?n :: u32) mod 2 ^ 16"
    using shifted_count [of "?es @ rest" "of_nat ?n"] by (simp only:)
  also have "\<dots> = ?n" using assms(4) by (simp add: unat_of_nat)
  finally have div: "?cnt div 2 ^ 16 = ?n" .
  have big: "22 * ?n < 22 * cnt" if "cnt div 2 ^ 16 = ?n" for cnt
    using that assms(3) div_times_less_eq_dividend [of cnt "2 ^ 16"] by (cases index) auto
  have "length (drop 4 ?buf) = 22 * ?n" unfolding length_drop len by simp
  then have "length (drop 4 ?buf) < 22 * ?cnt" using big [OF div] by (rule ord_eq_less_trans)
  then have "read_entries ?cnt (drop 4 ?buf) = None" by (rule read_entries_short)
  moreover have "\<not> length ?buf < 4" unfolding len by simp
  ultimately show ?thesis
    unfolding read_index_def assms(1) bind_outcome.simps by (simp only: if_False or_panic_simps)
qed

lemma read_at_prefix:
  "length (xs @ ys) < 2 ^ 63 \<Longrightarrow> n = length xs \<Longrightarrow> read_at (xs @ ys) 0 (of_nat n) = Ok xs"
  using read_at_ok [of "xs @ ys" 0 n] by simp

lemma sst_open_index_panic:
  assumes "length file < 2 ^ 63" "file = be_bytes 4 SSTABLE_MAGIC @ be_bytes 2 SSTABLE_VERSION @ body @ write_footer ft"
    and meta: "read_at file (ft_meta_offset ft) (ft_meta_size ft) = Ok buf" "32 \<le> length buf"
    and idx: "read_index file ft = Panic"
  shows "sst_open lossy tid path file = Panic"
proof -
  have "read_at file 0 4 = Ok (be_bytes 4 SSTABLE_MAGIC)"
    using assms(1) read_at_prefix [of "be_bytes 4 SSTABLE_MAGIC" _ 4] unfolding assms(2) by simp
  moreover have "\<exists>v. read_at file 4 2 = Ok v"
    using read_at_ok [OF assms(1), of 4 2] by (auto simp: assms(2))
  moreover have "read_footer file (of_nat (length file)) = Ok ft"
    using read_footer_ok [of "be_bytes 4 SSTABLE_MAGIC @ be_bytes 2 SSTABLE_VERSION @ body" ft] assms(1)
    unfolding assms(2) by simp
  moreover have "\<exists>m. read_metadata file ft = Ok m" using meta by (simp add: read_metadata_def)
  ultimately show ?thesis unfolding sst_open_def using idx by auto
qed

lemma take_columns_at_end: "take_columns data (length data) ns = (if \<forall>n \<in> set ns. n = 0 then Some (map (\<lambda>_. []) ns) else None)"
  by (induction ns) (auto simp: rslice_def)

lemma decode_ticks_empty: "decode_ticks cz data symbol_id t1 t2 \<in> {None, Some []}"
proof (cases "length data < 28")
  case False
  then have off: "length data - 28 + 28 = length data" by simp
  have "decode_column_list cz cols symbol_id t1 t2 = Some []" if "cols ! 0 = []" for cols
    using that by (simp add: decode_column_list_def delta_decode_def decode_rows_def)
  moreover have "map (\<lambda>_. []) (map f [0 ..< 7]) ! 0 = []" for f :: "nat \<Rightarrow> nat"
    by (simp add: upt_rec)
  ultimately show ?thesis
    unfolding decode_ticks_def Let_def off take_columns_at_end using False
    by (simp del: upt_rec_numeral)
qed (simp add: decode_ticks_def)

subsection \<open>The columns\<close>

text \<open>
  The price columns the writer stores without loss, and the columns as a whole: what a reader
  that finds the seven columns gets back.
\<close>

definition prices_exact :: "f64 list \<Rightarrow> bool" where
  "prices_exact vs \<longleftrightarrow> (case vs of [] \<Rightarrow> True
     | v # us \<Rightarrow> diffs_exact v us \<and> diffs_exact v (f64_diffs v us))"

definition storable_ticks :: "compressors \<Rightarrow> u32 \<Rightarrow> tick list \<Rightarrow> bool" where
  "storable_ticks cz level ticks \<longleftrightarrow> ticks \<noteq> [] \<and> delta_carries (map t_timestamp ticks) \<and>
     prices_exact (map t_open ticks) \<and> prices_exact (map t_high ticks) \<and>
     prices_exact (map t_low ticks) \<and> prices_exact (map t_close ticks) \<and>
     (if level = 0 then lz4_lossless cz (rle_encode (map t_volume ticks))
      else zstd_lossless cz (rle_encode (map t_volume ticks)))"

lemma double_delta_codec:
  "fits_u32 vs \<Longrightarrow> prices_exact vs \<Longrightarrow> decode_double_delta (encode_double_delta vs) = vs"
  using decode_encode_double_delta [of vs] double_delta_exact
  by (cases vs) (auto simp: prices_exact_def)

definition tick_matches :: "u16 option \<Rightarrow> i64 \<Rightarrow> i64 \<Rightarrow> tick \<Rightarrow> bool" where
  "tick_matches symbol_id t1 t2 t \<longleftrightarrow> sint t1 \<le> sint (t_timestamp t) \<and> sint (t_timestamp t) \<le> sint t2 \<and>
     (case symbol_id of Some s \<Rightarrow> t_symbol_id t = s | None \<Rightarrow> True)"

lemma decode_rows_ticks:
  "decode_rows (map t_timestamp ts) (map t_open ts) (map t_high ts) (map t_low ts) (map t_close ts)
     (map t_volume ts) (map t_symbol_id ts) symbol_id t1 t2 = filter (tick_matches symbol_id t1 t2) ts"
proof -
  have "concat (map (\<lambda>i. if P (ts ! i) then [ts ! i] else []) [0 ..< length ts]) = filter P ts"
    for P :: "tick \<Rightarrow> bool"
  proof -
    have "concat (map (\<lambda>i. if P (ts ! i) then [ts ! i] else []) [0 ..< length ts])
      = concat (map (\<lambda>t. if P t then [t] else []) (map ((!) ts) [0 ..< length ts]))"
      by (simp add: comp_def)
    also have "\<dots> = filter P ts" unfolding map_nth by (induction ts) auto
    finally show ?thesis .
  qed
  note rows = this [of "tick_matches symbol_id t1 t2"]
  have get: "get_or d (map f ts) i = f (ts ! i)" if "i < length ts" for d i and f :: "tick \<Rightarrow> 'b"
    using that by (simp add: get_or_def)
  show ?thesis
    unfolding decode_rows_def rows [symmetric] Let_def
    by (intro arg_cong [of _ _ concat] map_cong)
      (auto simp: get tick_matches_def not_less split: option.splits)
qed

lemma fits_map [simp]: "fits_u32 (map f xs) \<longleftrightarrow> fits_u32 xs"
  by (simp add: fits_u32_def)

lemma decode_encode_columns:
  assumes "storable_ticks cz level ticks"
  shows "decode_column_list cz (encode_columns cz level ticks) symbol_id t1 t2
    = Some (filter (tick_matches symbol_id t1 t2) ticks)"
proof -
  have ts: "delta_decode (delta_encode (map t_timestamp ticks)) = Some (map t_timestamp ticks)"
    using assms by (intro delta.roundtrip) (simp add: storable_ticks_def)
  have fits: "fits_u32 ticks" using assms by (auto simp: storable_ticks_def delta_carries_def)
  have "rle_lz4_decode cz (encode_for_level cz (map t_volume ticks) level) = map t_volume ticks"
    using assms fits by (intro rle_lz4_roundtrip) (auto simp: storable_ticks_def split: if_splits)
  then show ?thesis
    using ts fits assms
    by (simp add: decode_column_list_def encode_columns_def double_delta_codec decode_encode_ids
        storable_ticks_def decode_rows_ticks)
qed

lemma take_columns_layout:
  "take_columns (pre @ concat cols @ post) (length pre) (map length cols) = Some cols"
proof (induction cols arbitrary: pre)
  case (Cons c cols)
  then show ?case using Cons.IH [of "pre @ c"] by (simp add: rslice_append_mid)
qed simp

subsection \<open>Properties\<close>

text \<open>
  Writing a table always succeeds, and its filter admits every key and every symbol it
  holds: a reader that asks the filter first never skips a table with a tick it needs.
\<close>

theorem sst_write_filter_complete:
  "\<exists>t. sst_write ln_f64 cz tid path ticks level dict = Ok t \<and>
    (\<forall>k \<in> set ticks. may_contain_key t (tick_key k) = Some True \<and>
       (\<forall>s. get_symbol dict (t_symbol_id k) = Some s \<longrightarrow> may_contain_symbol t s = Some True))"
proof -
  obtain t where t: "sst_write ln_f64 cz tid path ticks level dict = Ok t"
    using sst_write_total by blast
  obtain f where f: "write_bloom ln_f64 dict ticks = Some f"
    "\<forall>k \<in> set ticks. \<forall>b \<in> set (tick_bloom_keys dict k). bloom_contains f b = Some True"
    using write_bloom_ok by blast
  have "st_bloom t = f" using t f(1) by (auto simp: sst_write_def Let_def split: prod.splits)
  then show ?thesis
    using t f(2) by (fastforce simp: may_contain_key_def may_contain_symbol_def tick_bloom_keys_def)
qed

definition example_cz :: compressors where
  "example_cz = \<lparr>lz4_compress = rev, lz4_decompress = (\<lambda>x. Some (rev x)), zstd_encode = Some, zstd_decode = Some\<rparr>"

definition example_dict :: symbol_dictionary where
  "example_dict = fst (get_or_insert dict_new ''AAPL'')"

definition example_tick :: "u16 \<Rightarrow> i64 \<Rightarrow> tick" where
  "example_tick sid ts = \<lparr>t_symbol_id = sid, t_timestamp = ts, t_open = 0, t_high = 0, t_low = 0,
     t_close = 0, t_volume = 100\<rparr>"

theorem sst_write_filter_complete_witness:
  "\<exists>t. sst_write (\<lambda>x. x) example_cz 1 ''a.sst'' [example_tick 0 5, example_tick 0 7] 0 example_dict = Ok t \<and>
    may_contain_key t (Key 0 7) = Some True \<and> may_contain_symbol t ''AAPL'' = Some True"
proof -
  have "get_symbol example_dict 0 = Some ''AAPL''"
    by (simp add: example_dict_def dict_new_def get_or_insert_def get_symbol_def Let_def)
  then show ?thesis
    using sst_write_filter_complete [of "\<lambda>x. x" example_cz 1 "''a.sst''"
        "[example_tick 0 5, example_tick 0 7]" 0 example_dict]
    by (auto simp: example_tick_def tick_key_def)
qed

lemma open_written:
  assumes "sst_write ln_f64 cz tid path ticks level dict = Ok t"
    and "ticks \<noteq> []" "length ticks \<le> 1048560" "length (st_file t) < 2 ^ 63"
  shows "sst_open lossy tid' path' (st_file t) = Panic"
proof (rule sst_writeE [OF assms(1)])
  fix bloom rows index data idx blm meta
  assume w: "data = data_section rows (encode_columns cz level ticks)" "idx = index_bytes index"
    "length index = div_ceil (length ticks) INDEX_INTERVAL"
    "meta = meta_bytes (write_meta ticks level) (of_nat (length rows)) dict"
    "st_file t = be_bytes 4 SSTABLE_MAGIC @ be_bytes 2 SSTABLE_VERSION @ data @ idx @ blm @ meta @
       write_footer (make_footer data idx blm meta)"
  let ?ft = "make_footer data idx blm meta"
  note reads = shifted_sections [of data idx blm meta, folded w(5), OF assms(4)]
  have "0 < length index" using assms(2) w(3) by (cases ticks) (simp_all add: div_ceil_def INDEX_INTERVAL_def)
  moreover have "length index < 2 ^ 16" using assms(3) w(3) by (simp add: div_ceil_def INDEX_INTERVAL_def)
  ultimately have "read_index (st_file t) ?ft = Panic"
    using read_index_shifted [OF reads(1) [unfolded w(2)]] by (auto simp: w(2))
  moreover have "st_file t = be_bytes 4 SSTABLE_MAGIC @ be_bytes 2 SSTABLE_VERSION @
      (data @ idx @ blm @ meta) @ write_footer ?ft" using w(5) by simp
  moreover have "32 \<le> length (take (length meta) (drop 2 (meta @ write_footer ?ft)))"
    using length_meta_bytes [of "write_meta ticks level" "of_nat (length rows)" dict] w(4) by simp
  ultimately show ?thesis
    using sst_open_index_panic [OF assms(4) _ reads(2)] by blast
qed

text \<open>
  C2. No table that was written can be opened again: the writer puts the data at byte 6 and
  the footer records byte 8, so the reader takes the low half of the entry count for the high
  half and slices past the index.  This holds for every table of 1 to 1048560 ticks.
\<close>

theorem sst_open_written_panics:
  assumes "sst_write ln_f64 cz tid path ticks level dict = Ok t"
    and "ticks \<noteq> []" "length ticks \<le> 1048560" "length (st_file t) < 2 ^ 63"
  shows "sst_open lossy tid' path' (st_file t) = Panic"
  using open_written [OF assms] .

text \<open>The size of a written table, without evaluating its filter.\<close>

lemma sst_file_length:
  assumes "sst_write ln_f64 cz tid path ticks level dict = Ok t"
  shows "length (st_file t) = 6 + length (data_section (fst (write_rows (length ticks) 0 None ticks [] []))
      (encode_columns cz level ticks)) + (4 + 22 * div_ceil (length ticks) INDEX_INTERVAL) +
    (8 + 8 * div_ceil (optimal_num_bits ln_f64 (max (length ticks) 1) BLOOM_FPR) 64) +
    (44 + length (to_metadata dict)) + 64"
proof (rule sst_writeE [OF assms])
  fix bloom rows index data idx blm meta
  assume w: "write_bloom ln_f64 dict ticks = Some bloom" "rows = fst (write_rows (length ticks) 0 None ticks [] [])"
    "data = data_section rows (encode_columns cz level ticks)" "idx = index_bytes index"
    "length index = div_ceil (length ticks) INDEX_INTERVAL"
    "blm = bloom_to_bytes bloom" "meta = meta_bytes (write_meta ticks level) (of_nat (length rows)) dict"
    "st_file t = be_bytes 4 SSTABLE_MAGIC @ be_bytes 2 SSTABLE_VERSION @ data @ idx @ blm @ meta @
       write_footer (make_footer data idx blm meta)"
  have "bloom_wf bloom" using write_bloom_ok [of ln_f64 dict ticks] w(1) by (metis option.inject)
  moreover have "bf_num_bits bloom = optimal_num_bits ln_f64 (max (length ticks) 1) BLOOM_FPR"
    using bloom_add_all_num_bits [OF w(1) [unfolded write_bloom_def] bloom_wf_new]
    by (simp add: bloom_new_def Let_def)
  moreover have "length meta = 44 + length (to_metadata dict)" by (simp add: w(7) meta_bytes_def)
  ultimately show ?thesis
    using length_bloom_to_bytes [of bloom] w(2,3,5)
    unfolding w(8) by (simp add: length_index_bytes w(4,6))
qed

lemma example_file_small:
  assumes "sst_write (\<lambda>x. 0x3FF0000000000000) example_cz tid path [example_tick 0 5] 0 example_dict = Ok t"
  shows "length (st_file t) < 2 ^ 63"
proof -
  have "f64_ceil_usize (f64_div (f64_negate (f64_mul (f64_of_u64 1) 0x3FF0000000000000))
      (f64_mul 0x4000000000000000 (f64_mul 0x3FF0000000000000 0x3FF0000000000000))) = 0"
    by code_simp
  then have "optimal_num_bits (\<lambda>x. 0x3FF0000000000000) 1 BLOOM_FPR = 64"
    by (simp add: optimal_num_bits_def Let_def)
  then show ?thesis
    unfolding sst_file_length [OF assms]
    by (simp add: data_section_def encode_columns_def prefix_len_def Let_def div_ceil_def INDEX_INTERVAL_def
        delta_bits_def encode_double_delta_def encode_for_level_def example_cz_def rle_encode_def encode_ids_def
        to_metadata_def example_dict_def dict_new_def get_or_insert_def)
qed

theorem sst_open_written_panics_witness:
  "\<exists>t. sst_write (\<lambda>x. 0x3FF0000000000000) example_cz 1 ''a.sst'' [example_tick 0 5] 0 example_dict = Ok t \<and>
    sst_open (\<lambda>s. s) 2 ''a.sst'' (st_file t) = Panic"
proof -
  obtain t where t: "sst_write (\<lambda>x. 0x3FF0000000000000) example_cz 1 ''a.sst'' [example_tick 0 5] 0 example_dict = Ok t"
    using sst_write_total by blast
  with sst_open_written_panics [OF t _ _ example_file_small [OF t]] show ?thesis by auto
qed

lemma scan_returns_nothing:
  assumes "sst_scan cz t symbol_id t1 t2 cache = Some (ts, cache')"
  shows "ts = []"
proof -
  have "decode_ticks cz data symbol_id t1 t2 = Some ts' \<Longrightarrow> ts' = []" for data ts'
    using decode_ticks_empty [of cz data symbol_id t1 t2] by auto
  then show ?thesis
    using assms unfolding sst_scan_def
    by (auto simp: Let_def bind_eq_Some_conv split: if_splits option.splits)
qed

text \<open>
  C23. No scan ever returns a tick: the reader looks for the column sizes in the last 28 bytes
  of the data section, but the writer puts them before the columns, so the first slice starts
  at the end of the data.  A scan that does not panic returns nothing, for every table,
  filter and cache.
\<close>

theorem sst_scan_never_returns_tick:
  assumes "sst_scan cz t symbol_id t1 t2 cache = Some (ts, cache')"
  shows "ts = []"
  using scan_returns_nothing [OF assms] .

theorem sst_scan_never_returns_tick_witness:
  "\<exists>t. overlaps_time_range t 0 10 \<and> sst_scan example_cz t None 0 10 None = Some ([], None)"
proof -
  let ?t = "\<lparr>st_id = 1, st_path = ''a'', st_meta = write_meta [example_tick 0 5] 0,
    st_file = replicate 36 0, st_readable = True, st_index = [], st_bloom = bloom_new (\<lambda>x. x) 1,
    st_dict = dict_new, st_footer = make_footer (replicate 28 0) [] [] []\<rparr>"
  have o: "overlaps_time_range ?t 0 10"
    by (simp add: overlaps_time_range_def write_meta_def example_tick_def)
  have "read_data_block ?t = Some (replicate 28 0)"
    by (simp add: read_data_block_def make_footer_def read_at_def Let_def flip: replicate_append_same)
  moreover have "decode_ticks example_cz (replicate 28 0) None 0 10 \<noteq> None"
  proof -
    let ?d = "replicate 28 (0 :: u8)"
    have "from_be (replicate k 0) = (0 :: u32)" for k by (induction k) (simp_all add: from_be_def)
    then have "from_be (take 4 (drop n ?d)) = (0 :: u32)" for n
      by (simp only: take_replicate drop_replicate)
    then have "map (\<lambda>i. unat (from_be (take 4 (drop (length ?d - 28 + i * 4) ?d)) :: u32)) [0 ..< 7]
        = map (\<lambda>_. 0) [0 ..< 7]" by (simp only: unsigned_0)
    moreover have "take_columns ?d (length ?d - 28 + 28) (map (\<lambda>_. 0) [0 ..< 7]) = Some (map (\<lambda>_. []) [0 ..< 7])"
      using take_columns_at_end [of ?d "map (\<lambda>_. 0) [0 ..< 7]"] by (simp add: comp_def)
    moreover have "\<not> length ?d < 28" by simp
    ultimately have "decode_ticks example_cz ?d None 0 10
        = decode_column_list example_cz (map (\<lambda>_. []) [0 ..< 7]) None 0 10"
      unfolding decode_ticks_def Let_def by (simp only: if_False Option.bind.simps)
    then show ?thesis by (simp add: decode_column_list_def delta_decode_def)
  qed
  ultimately obtain ts where "sst_scan example_cz ?t None 0 10 None = Some (ts, None)"
    using o by (auto simp: sst_scan_def)
  moreover from this have "ts = []" by (rule sst_scan_never_returns_tick)
  ultimately show ?thesis using o by blast
qed

lemma scan_written:
  assumes "sst_write ln_f64 cz tid path ticks level dict = Ok t"
    and "overlaps_time_range t t1 t2" "symbol_id = None \<or> (\<exists>s. symbol_id = Some s \<and> overlaps_symbol t s)"
    and "cache = None \<or> (\<exists>c c'. cache = Some c \<and>
      cache_get c \<lparr>sstable_id = tid, block_offset = ft_data_offset (st_footer t)\<rparr> = Some (None, c'))"
  shows "sst_scan cz t symbol_id t1 t2 cache = None"
proof -
  have "\<not> st_readable t" "st_id t = tid" using sst_write_fields [OF assms(1)] by simp_all
  then show ?thesis
    using assms(2-4) by (auto simp: sst_scan_def read_data_block_def read_through_def Let_def)
qed

text \<open>
  A table that was just written panics when it is scanned: its file handle is write-only
  and the read is unwrapped.
\<close>

theorem sst_scan_written_panics:
  assumes "sst_write ln_f64 cz tid path ticks level dict = Ok t"
    and "overlaps_time_range t t1 t2" "symbol_id = None \<or> (\<exists>s. symbol_id = Some s \<and> overlaps_symbol t s)"
    and "cache = None \<or> (\<exists>c c'. cache = Some c \<and>
      cache_get c \<lparr>sstable_id = tid, block_offset = ft_data_offset (st_footer t)\<rparr> = Some (None, c'))"
  shows "sst_scan cz t symbol_id t1 t2 cache = None"
  using scan_written [OF assms] .

theorem sst_scan_written_panics_witness:
  "\<exists>t. sst_write (\<lambda>x. x) example_cz 1 ''a.sst'' [example_tick 0 5] 0 example_dict = Ok t \<and>
    sst_scan example_cz t (Some 0) 0 10 None = None"
proof -
  obtain t where t: "sst_write (\<lambda>x. x) example_cz 1 ''a.sst'' [example_tick 0 5] 0 example_dict = Ok t"
    using sst_write_total by blast
  note sst_write_fields(5) [OF t]
  then have "overlaps_time_range t 0 10" "overlaps_symbol t 0"
    by (simp_all add: overlaps_time_range_def overlaps_symbol_def write_meta_def example_tick_def)
  then have "sst_scan example_cz t (Some 0) 0 10 None = None"
    by (intro sst_scan_written_panics [OF t]) auto
  then show ?thesis using t by blast
qed

text \<open>
  C27. The data of a storable table is all there.  A table is storable when it has some and fewer
  than \<open>2\<^sup>3\<^sup>2\<close> ticks that survive the column codecs: the second differences of the prices are
  exact, the deltas of the timestamps (the first timestamp counts as one) need at most 57 bits and
  are not all the same non-zero number unless there is one tick only, and the compressor is
  lossless on the volumes.  The file of such a table holds, behind six bytes of header, a row
  section whose length the metadata records as the offset of the columns; a reader that starts
  there, plus the 28 bytes of sizes, finds the seven columns, and the decoding code returns from
  them exactly the ticks of the table that match the symbol and the time range.
\<close>

theorem sst_columns_complete:
  assumes "storable_ticks cz level ticks" and "sst_write ln_f64 cz tid path ticks level dict = Ok t"
  shows "\<exists>rows index bloom. st_file t = be_bytes 4 SSTABLE_MAGIC @ be_bytes 2 SSTABLE_VERSION @
      data_section rows (encode_columns cz level ticks) @ index @ bloom @
      meta_bytes (write_meta ticks level) (of_nat (length rows)) dict @ write_footer (st_footer t) \<and>
    take_columns (data_section rows (encode_columns cz level ticks)) (length rows + 28)
      (map length (encode_columns cz level ticks)) = Some (encode_columns cz level ticks) \<and>
    decode_column_list cz (encode_columns cz level ticks) symbol_id t1 t2
      = Some (filter (tick_matches symbol_id t1 t2) ticks)"
proof -
  let ?cols = "encode_columns cz level ticks"
  obtain bloom where bloom: "write_bloom ln_f64 dict ticks = Some bloom"
    using assms(2) by (cases "write_bloom ln_f64 dict ticks") (simp_all add: sst_write_def or_panic_def)
  obtain rows index where w: "write_rows (length ticks) 0 None ticks [] [] = (rows, index)" by fastforce
  let ?pre = "rows @ concat (map (\<lambda>c. be_bytes 4 (of_nat (length c) :: u32)) ?cols)"
  have "length ?pre = length rows + 28" by (simp add: encode_columns_def)
  then have "take_columns (data_section rows ?cols) (length rows + 28) (map length ?cols) = Some ?cols"
    using take_columns_layout [of ?pre ?cols "[]"] by (simp add: data_section_def)
  moreover have "st_file t = be_bytes 4 SSTABLE_MAGIC @ be_bytes 2 SSTABLE_VERSION @ data_section rows ?cols @
      index_bytes (set_block_size rows index) @ bloom_to_bytes bloom @
      meta_bytes (write_meta ticks level) (of_nat (length rows)) dict @ write_footer (st_footer t)"
    using assms(2) by (auto simp: sst_write_def or_panic_def bloom w Let_def)
  ultimately show ?thesis using decode_encode_columns [OF assms(1)] by blast
qed

lemma example_storable_ticks: "storable_ticks example_cz 0 [example_tick 0 5, example_tick 0 9]"
  unfolding storable_ticks_def
proof (intro conjI)
  have "delta_bits [5, 4] \<le> 57" "delta_bits [5, 4] \<noteq> 0" by code_simp+
  then show "delta_carries (map t_timestamp [example_tick 0 5, example_tick 0 9])"
    by (simp add: delta_carries_def fits_u32_def example_tick_def)
  show "prices_exact (map t_open [example_tick 0 5, example_tick 0 9])" by code_simp
  show "prices_exact (map t_high [example_tick 0 5, example_tick 0 9])" by code_simp
  show "prices_exact (map t_low [example_tick 0 5, example_tick 0 9])" by code_simp
  show "prices_exact (map t_close [example_tick 0 5, example_tick 0 9])" by code_simp
qed (simp_all add: lz4_lossless_def example_cz_def)

theorem sst_columns_complete_witness:
  "\<exists>t rows rest. sst_write (\<lambda>x. x) example_cz 1 ''a.sst'' [example_tick 0 5, example_tick 0 9] 0 example_dict = Ok t \<and>
    st_file t = be_bytes 4 SSTABLE_MAGIC @ be_bytes 2 SSTABLE_VERSION @
      data_section rows (encode_columns example_cz 0 [example_tick 0 5, example_tick 0 9]) @ rest \<and>
    decode_column_list example_cz (encode_columns example_cz 0 [example_tick 0 5, example_tick 0 9]) (Some 0) 0 7
      = Some [example_tick 0 5]"
proof -
  obtain t where t: "sst_write (\<lambda>x. x) example_cz 1 ''a.sst'' [example_tick 0 5, example_tick 0 9] 0 example_dict = Ok t"
    using sst_write_total by blast
  have "filter (tick_matches (Some 0) 0 7) [example_tick 0 5, example_tick 0 9] = [example_tick 0 5]"
    by (simp add: tick_matches_def example_tick_def)
  then show ?thesis
    using sst_columns_complete [OF example_storable_ticks t, of "Some 0" 0 7] t by fastforce
qed

lemma sorted_one_symbol:
  assumes "tick_sorted (t # ts)" "\<forall>u \<in> set (t # ts). t_symbol_id u = s" "k \<in> set (t # ts)"
  shows "sint (t_timestamp t) \<le> sint (t_timestamp k)" "sint (t_timestamp k) \<le> sint (t_timestamp (last (t # ts)))"
proof -
  have cmp: "sint (t_timestamp u) \<le> sint (t_timestamp v)"
    if "tick_key u \<le> tick_key v" "u \<in> set (t # ts)" "v \<in> set (t # ts)" for u v
    using that assms(2)
    by (auto simp: tick_key_def less_eq_key_def key_cmp_def cmp_u16_def cmp_i64_def split: if_splits)
  have "tick_key t \<le> tick_key k" using assms(1,3) by auto
  then show "sint (t_timestamp t) \<le> sint (t_timestamp k)" using cmp assms(3) by simp
  have "tick_key k \<le> tick_key (last (t # ts))"
  proof -
    have "t # ts = butlast (t # ts) @ [last (t # ts)]" by simp
    then have "tick_sorted (butlast (t # ts) @ [last (t # ts)])" using assms(1) by metis
    then show ?thesis using assms(3)
      by (metis \<open>t # ts = butlast (t # ts) @ [last (t # ts)]\<close> Un_iff empty_iff insert_iff less_imp_le
          list.set(1,2) order_refl set_append tick_sorted_append)
  qed
  then show "sint (t_timestamp k) \<le> sint (t_timestamp (last (t # ts)))"
    using cmp assms(3) by (metis last_in_set list.discI)
qed

lemma write_meta_symbols:
  "k \<in> set ticks \<Longrightarrow> m_min_symbol_id (write_meta ticks level) \<le> t_symbol_id k \<and>
    t_symbol_id k \<le> m_max_symbol_id (write_meta ticks level)"
  by (auto simp: write_meta_def)

text \<open>
  The time range in the metadata is that of the first and the last tick in (symbol, time)
  order.  For a table of one symbol it is the range of the table, so no scan skips a table
  with a matching tick.
\<close>

theorem sst_range_sound_one_symbol:
  assumes "sst_write ln_f64 cz tid path ticks level dict = Ok t"
    and "tick_sorted ticks" "\<forall>u \<in> set ticks. t_symbol_id u = s"
    and "k \<in> set ticks" "tick_matches (Some s) t1 t2 k"
  shows "overlaps_time_range t t1 t2 \<and> overlaps_symbol t s"
proof -
  obtain u us where ticks: "ticks = u # us" using assms(4) by (cases ticks) auto
  have "sint (t_timestamp u) \<le> sint t2" "sint t1 \<le> sint (t_timestamp (last ticks))"
    using sorted_one_symbol [OF assms(2-4) [unfolded ticks]] assms(5) ticks
    by (auto simp: tick_matches_def)
  moreover have "t_symbol_id k = s" using assms(3,4) by blast
  ultimately show ?thesis
    using sst_write_fields(5) [OF assms(1)] write_meta_symbols [OF assms(4), of level] ticks
    by (simp add: overlaps_time_range_def overlaps_symbol_def) (simp add: write_meta_def)
qed

theorem sst_range_sound_one_symbol_witness:
  "\<exists>t. sst_write (\<lambda>x. x) example_cz 1 ''a.sst'' [example_tick 0 5, example_tick 0 9] 0 example_dict = Ok t \<and>
    overlaps_time_range t 8 10 \<and> overlaps_symbol t 0"
proof -
  obtain t where t: "sst_write (\<lambda>x. x) example_cz 1 ''a.sst'' [example_tick 0 5, example_tick 0 9] 0 example_dict = Ok t"
    using sst_write_total by blast
  have "tick_sorted [example_tick 0 5, example_tick 0 9]"
    by (simp add: example_tick_def tick_key_def less_key_def key_cmp_def cmp_u16_def cmp_i64_def)
  moreover have "tick_matches (Some 0) 8 10 (example_tick 0 9)"
    by (simp add: tick_matches_def example_tick_def)
  ultimately have "overlaps_time_range t 8 10 \<and> overlaps_symbol t 0"
    by (intro sst_range_sound_one_symbol [OF t, of 0 "example_tick 0 9"]) (auto simp: example_tick_def)
  then show ?thesis using t by blast
qed

text \<open>
  For a table of several symbols it is not: the table of tick (0, 100) and tick (1, 5)
  records the range 100 to 5, and a scan of the range 50 to 100 skips it although its first
  tick is in range.
\<close>

theorem sst_range_hides_tick:
  assumes "sst_write ln_f64 cz tid path [example_tick 0 100, example_tick 1 5] level dict = Ok t"
  shows "tick_sorted [example_tick 0 100, example_tick 1 5] \<and>
    tick_matches (Some 0) 50 100 (example_tick 0 100) \<and> sst_scan cz t (Some 0) 50 100 cache = Some ([], cache)"
proof -
  have "\<not> overlaps_time_range t 50 100"
    using sst_write_fields(5) [OF assms]
    by (simp add: overlaps_time_range_def write_meta_def example_tick_def)
  then show ?thesis
    by (simp add: sst_scan_def tick_matches_def example_tick_def tick_key_def less_key_def
        key_cmp_def cmp_u16_def)
qed

theorem sst_range_hides_tick_witness:
  "\<exists>t. sst_write (\<lambda>x. x) example_cz 1 ''a.sst'' [example_tick 0 100, example_tick 1 5] 0 example_dict = Ok t \<and>
    sst_scan example_cz t (Some 0) 50 100 None = Some ([], None)"
proof -
  obtain t where t: "sst_write (\<lambda>x. x) example_cz 1 ''a.sst'' [example_tick 0 100, example_tick 1 5] 0 example_dict = Ok t"
    using sst_write_total by blast
  then show ?thesis using sst_range_hides_tick [OF t, of None] by blast
qed

end
