(* ===== verification/Wal.thy ===== *)
theory Wal
  imports ColumnCodec
begin

text \<open>
  \<^verbatim>\<open>graphite-core/src/wal.rs\<close>: the write-ahead log.  A log is the bytes of its file, the
  sequence number of the next record and what was replayed at opening.  The JSON encoding of a
  record (\<^verbatim>\<open>serde_json\<close>) and the checksum (\<^verbatim>\<open>crc32fast\<close>) are crates: the record \<open>wal_format\<close>
  holds the three functions the code calls.  Writes and fsyncs succeed; the only I/O error is
  \<^verbatim>\<open>read_exact\<close> at the end of the file.
\<close>

record wal_format =
  wf_ser :: "wal_record \<Rightarrow> bytes option"
  wf_de :: "bytes \<Rightarrow> wal_record option"
  wf_crc :: "bytes \<Rightarrow> u32"

text \<open>The reason of a corrupt record, in place of the formatted message.\<close>

datatype wal_reason = BadMagic u32 | UnsupportedVersion u16 | ChecksumMismatch | BadJson

datatype wal_error = WalIo | WalCorrupt u64 wal_reason | WalSerialize

record wal =
  w_file :: bytes
  w_offset :: u64
  w_sequence :: u64
  w_replayed :: "wal_record list"

definition WAL_MAGIC :: u32 where "WAL_MAGIC = 0x47524154"
definition WAL_VERSION :: u16 where "WAL_VERSION = 1"

subsection \<open>Appending\<close>

definition wal_frame :: "wal_format \<Rightarrow> u64 \<Rightarrow> bytes \<Rightarrow> bytes" where
  "wal_frame fmt seq payload =
     be_bytes 4 WAL_MAGIC @ be_bytes 2 WAL_VERSION @ be_bytes 4 (wf_crc fmt payload) @
     be_bytes 4 (of_nat (length payload) :: u32) @ be_bytes 8 seq @ payload"

text \<open>The result and the log after the call; a record that cannot be serialized writes nothing.\<close>

definition wal_append :: "wal_format \<Rightarrow> wal \<Rightarrow> wal_record \<Rightarrow> (u64, wal_error) outcome \<times> wal" where
  "wal_append fmt w r = (case wf_ser fmt r of
      None \<Rightarrow> (Err WalSerialize, w)
    | Some payload \<Rightarrow>
        let record_size = 4 + 2 + 4 + 8 + 4 + length payload;
            w' = w\<lparr>w_file := w_file w @ wal_frame fmt (w_sequence w) payload,
                   w_offset := w_offset w + of_nat record_size,
                   w_sequence := w_sequence w + 1\<rparr>
        in (Ok (w_sequence w'), w'))"

text \<open>The loop of \<open>append_batch\<close> stops at the first error and keeps what it has written.\<close>

fun wal_append_batch :: "wal_format \<Rightarrow> wal \<Rightarrow> wal_record list \<Rightarrow> (u64, wal_error) outcome \<times> wal" where
  "wal_append_batch fmt w [] = (Ok (w_sequence w), w)"
| "wal_append_batch fmt w (r # rs) = (case wf_ser fmt r of
      None \<Rightarrow> (Err WalSerialize, w)
    | Some payload \<Rightarrow>
        wal_append_batch fmt
          (w\<lparr>w_file := w_file w @ wal_frame fmt (w_sequence w) payload,
             w_offset := w_offset w + of_nat (4 + 2 + 4 + 8 + 4 + length payload),
             w_sequence := w_sequence w + 1\<rparr>) rs)"

definition wal_truncate :: "wal \<Rightarrow> wal" where
  "wal_truncate w = w\<lparr>w_file := [], w_offset := 0\<rparr>"

subsection \<open>Reading\<close>

text \<open>
  One turn of the read loops up to the checksum test: \<open>Ok None\<close> ends the loop (fewer than four
  bytes are left), otherwise sequence number, payload and the rest of the file.
\<close>

definition wal_read_frame ::
  "wal_format \<Rightarrow> u64 \<Rightarrow> bytes \<Rightarrow> ((u64 \<times> bytes \<times> bytes) option, wal_error) outcome" where
  "wal_read_frame fmt offset data =
     (if length data < 4 then Ok None
      else let magic = from_be (take 4 data); d1 = drop 4 data in
        if magic \<noteq> WAL_MAGIC then Err (WalCorrupt offset (BadMagic magic))
        else if length d1 < 2 then Err WalIo
        else let version = from_be (take 2 d1); d2 = drop 2 d1 in
          if version \<noteq> WAL_VERSION then Err (WalCorrupt offset (UnsupportedVersion version))
          else if length d2 < 16 then Err WalIo
          else let expected = from_be (take 4 d2);
                   payload_len = unat (from_be (take 4 (drop 4 d2)) :: u32);
                   seq = from_be (take 8 (drop 8 d2));
                   d3 = drop 16 d2 in
            if length d3 < payload_len then Err WalIo
            else if wf_crc fmt (take payload_len d3) \<noteq> expected
              then Err (WalCorrupt offset ChecksumMismatch)
            else Ok (Some (seq, take payload_len d3, drop payload_len d3)))"

lemma wal_read_frame_shorter:
  "wal_read_frame fmt offset data = Ok (Some (seq, payload, rest)) \<Longrightarrow> length rest < length data"
  by (auto simp: wal_read_frame_def Let_def split: if_splits)

text \<open>The records and the sequence number after the last one.\<close>

function wal_replay_from ::
  "wal_format \<Rightarrow> u64 \<Rightarrow> u64 \<Rightarrow> bytes \<Rightarrow> (wal_record list \<times> u64, wal_error) outcome" where
  "wal_replay_from fmt sequence offset data = (case wal_read_frame fmt offset data of
      Ok None \<Rightarrow> Ok ([], sequence)
    | Ok (Some (seq, payload, rest)) \<Rightarrow>
       (case wf_de fmt payload of
          None \<Rightarrow> Err (WalCorrupt offset BadJson)
        | Some r \<Rightarrow> bind_outcome
            (wal_replay_from fmt (seq + 1) (offset + 22 + of_nat (length payload)) rest)
            (\<lambda>(rs, s). Ok (r # rs, s)))
    | Err e \<Rightarrow> Err e | Panic \<Rightarrow> Panic | Deadlock \<Rightarrow> Deadlock)"
  by pat_completeness auto
termination
  by (relation "measure (\<lambda>(_, _, _, data). length data)") (auto dest: wal_read_frame_shorter)

declare wal_replay_from.simps [simp del]

definition wal_replay :: "wal_format \<Rightarrow> wal \<Rightarrow> (wal_record list \<times> u64, wal_error) outcome" where
  "wal_replay fmt w = wal_replay_from fmt (w_sequence w) 0 (w_file w)"

text \<open>\<open>open\<close> on the bytes of the file, which is empty when it has just been created.\<close>

definition wal_open :: "wal_format \<Rightarrow> bytes \<Rightarrow> (wal, wal_error) outcome" where
  "wal_open fmt file =
     (let w = \<lparr>w_file = file, w_offset = of_nat (length file), w_sequence = 0, w_replayed = []\<rparr>
      in bind_outcome (wal_replay fmt w) (\<lambda>(rs, s). Ok (w\<lparr>w_sequence := s, w_replayed := rs\<rparr>)))"

text \<open>
  \<open>n\<close> results are already there; the offset is advanced before a record is parsed, so a bad
  record is reported at the end of its frame.
\<close>

function wal_read_from ::
  "wal_format \<Rightarrow> u64 option \<Rightarrow> nat \<Rightarrow> nat \<Rightarrow> u64 \<Rightarrow> bytes \<Rightarrow> ((u64 \<times> wal_record) list, wal_error) outcome" where
  "wal_read_from fmt after_sequence limit n offset data =
     (if limit \<le> n then Ok []
      else case wal_read_frame fmt offset data of
        Ok None \<Rightarrow> Ok []
      | Ok (Some (seq, payload, rest)) \<Rightarrow>
          let offset = offset + 22 + of_nat (length payload);
              include = (case after_sequence of None \<Rightarrow> True | Some la \<Rightarrow> seq > la)
          in if include
             then (case wf_de fmt payload of
                 None \<Rightarrow> Err (WalCorrupt offset BadJson)
               | Some r \<Rightarrow> bind_outcome
                   (wal_read_from fmt after_sequence limit (Suc n) offset rest)
                   (\<lambda>rs. Ok ((seq, r) # rs)))
             else wal_read_from fmt after_sequence limit n offset rest
      | Err e \<Rightarrow> Err e | Panic \<Rightarrow> Panic | Deadlock \<Rightarrow> Deadlock)"
  by pat_completeness auto
termination
  by (relation "measure (\<lambda>(_, _, _, _, _, data). length data)") (auto dest: wal_read_frame_shorter)

declare wal_read_from.simps [simp del]

definition wal_read_for_replication ::
  "wal_format \<Rightarrow> wal \<Rightarrow> u64 option \<Rightarrow> nat \<Rightarrow> ((u64 \<times> wal_record) list, wal_error) outcome" where
  "wal_read_for_replication fmt w after_sequence limit =
     wal_read_from fmt after_sequence limit 0 0 (w_file w)"

subsection \<open>Frames\<close>

text \<open>What the serializer has to do for a record: its payload is short enough and parses back.\<close>

definition wal_storable :: "wal_format \<Rightarrow> wal_record \<Rightarrow> bool" where
  "wal_storable fmt r \<longleftrightarrow> (case wf_ser fmt r of None \<Rightarrow> False
     | Some p \<Rightarrow> wf_de fmt p = Some r \<and> length p < 2 ^ 32)"

fun wal_frames :: "wal_format \<Rightarrow> u64 \<Rightarrow> wal_record list \<Rightarrow> bytes" where
  "wal_frames fmt seq [] = []"
| "wal_frames fmt seq (r # rs) = wal_frame fmt seq (the (wf_ser fmt r)) @ wal_frames fmt (seq + 1) rs"

lemma wal_frames_append:
  "wal_frames fmt seq (rs @ ss) = wal_frames fmt seq rs @ wal_frames fmt (seq + of_nat (length rs)) ss"
  by (induction rs arbitrary: seq) (simp_all add: algebra_simps)

lemma length_wal_frame: "length (wal_frame fmt seq p) = 22 + length p"
  by (simp add: wal_frame_def)

lemma wal_read_frame_frame:
  assumes "length p < 2 ^ 32"
  shows "wal_read_frame fmt offset (wal_frame fmt seq p @ rest) = Ok (Some (seq, p, rest))"
  using assms by (simp add: wal_read_frame_def wal_frame_def Let_def unat_of_nat_u32)

lemma wal_read_frame_Nil [simp]: "length data < 4 \<Longrightarrow> wal_read_frame fmt offset data = Ok None"
  by (simp add: wal_read_frame_def)

text \<open>Reading over stored frames: what follows them decides how the replay ends.\<close>

lemma wal_replay_frames:
  assumes "\<forall>r \<in> set rs. wal_storable fmt r"
  shows "\<exists>off'. wal_replay_from fmt sequence offset (wal_frames fmt seq rs @ rest)
    = bind_outcome (wal_replay_from fmt (if rs = [] then sequence else seq + of_nat (length rs)) off' rest)
        (\<lambda>(ss, s). Ok (rs @ ss, s))"
  using assms
proof (induction rs arbitrary: sequence offset seq)
  case Nil
  have "bind_outcome m (\<lambda>(ss, s). Ok ([] @ ss, s)) = m" for m :: "(wal_record list \<times> u64, wal_error) outcome"
    by (cases m) auto
  then show ?case by (intro exI [of _ offset]) simp
next
  case (Cons r rs)
  obtain p where p: "wf_ser fmt r = Some p" "wf_de fmt p = Some r" "length p < 2 ^ 32"
    using Cons.prems by (auto simp: wal_storable_def split: option.splits)
  obtain off' where ih: "wal_replay_from fmt (seq + 1) (offset + 22 + of_nat (length p))
      (wal_frames fmt (seq + 1) rs @ rest)
    = bind_outcome (wal_replay_from fmt (if rs = [] then seq + 1 else seq + 1 + of_nat (length rs)) off' rest)
        (\<lambda>(ss, s). Ok (rs @ ss, s))"
    using Cons.IH [of "seq + 1" "offset + 22 + of_nat (length p)" "seq + 1"] Cons.prems by auto
  have "wal_replay_from fmt sequence offset (wal_frames fmt seq (r # rs) @ rest)
    = bind_outcome (wal_replay_from fmt (seq + 1) (offset + 22 + of_nat (length p))
        (wal_frames fmt (seq + 1) rs @ rest)) (\<lambda>(ss, s). Ok (r # ss, s))"
    using p by (subst wal_replay_from.simps) (simp add: wal_read_frame_frame)
  also have "\<dots> = bind_outcome (wal_replay_from fmt (seq + of_nat (length (r # rs))) off' rest)
        (\<lambda>(ss, s). Ok ((r # rs) @ ss, s))"
    unfolding ih bind_outcome_assoc by (auto simp: algebra_simps intro!: arg_cong2 [of _ _ _ _ bind_outcome])
  finally show ?case by auto
qed

lemma wal_open_frames:
  assumes "\<forall>r \<in> set rs. wal_storable fmt r"
  shows "wal_open fmt (wal_frames fmt seq rs) = Ok \<lparr>w_file = wal_frames fmt seq rs,
    w_offset = of_nat (length (wal_frames fmt seq rs)),
    w_sequence = (if rs = [] then 0 else seq + of_nat (length rs)), w_replayed = rs\<rparr>"
proof -
  have "wal_replay_from fmt s off [] = Ok ([], s)" for s off
    by (subst wal_replay_from.simps) simp
  then show ?thesis
    using wal_replay_frames [OF assms, of 0 0 seq "[]"]
    by (auto simp: wal_open_def wal_replay_def Let_def)
qed

subsection \<open>The journal contract\<close>

text \<open>
  What the engine relies on: a record that was appended is recovered after a restart, after
  everything appended before it and nothing else.
\<close>

fun append_all :: "('w \<Rightarrow> 'r \<Rightarrow> 'w) \<Rightarrow> 'w \<Rightarrow> 'r list \<Rightarrow> 'w" where
  "append_all app w [] = w"
| "append_all app w (r # rs) = append_all app (app w r) rs"

locale journal =
  fixes rep :: "'w \<Rightarrow> 'r list \<Rightarrow> bool"
    and storable :: "'r \<Rightarrow> bool"
    and app :: "'w \<Rightarrow> 'r \<Rightarrow> 'w"
    and recover :: "'w \<Rightarrow> 'r list option"
  assumes app_rep: "rep w rs \<Longrightarrow> storable r \<Longrightarrow> rep (app w r) (rs @ [r])"
    and recover_rep: "rep w rs \<Longrightarrow> recover w = Some rs"
begin

lemma append_all_rep:
  "rep w rs \<Longrightarrow> \<forall>r \<in> set ss. storable r \<Longrightarrow> rep (append_all app w ss) (rs @ ss)"
  by (induction ss arbitrary: w rs) (use app_rep in fastforce)+

lemma recover_append_all:
  "rep w rs \<Longrightarrow> \<forall>r \<in> set ss. storable r \<Longrightarrow> recover (append_all app w ss) = Some (rs @ ss)"
  using append_all_rep recover_rep by blast

end

text \<open>The log holds \<open>rs\<close> in frames with consecutive numbers, and the next number follows.\<close>

definition wal_rep :: "wal_format \<Rightarrow> wal \<Rightarrow> wal_record list \<Rightarrow> bool" where
  "wal_rep fmt w rs \<longleftrightarrow> (\<forall>r \<in> set rs. wal_storable fmt r) \<and>
     (\<exists>seq. w_file w = wal_frames fmt seq rs \<and> w_sequence w = seq + of_nat (length rs))"

definition wal_recover :: "wal_format \<Rightarrow> wal \<Rightarrow> wal_record list option" where
  "wal_recover fmt w = (case wal_open fmt (w_file w) of Ok w' \<Rightarrow> Some (w_replayed w') | _ \<Rightarrow> None)"

lemma wal_append_storable:
  "wal_storable fmt r \<Longrightarrow> wal_append fmt w r = (Ok (w_sequence w + 1),
     w\<lparr>w_file := w_file w @ wal_frame fmt (w_sequence w) (the (wf_ser fmt r)),
       w_offset := w_offset w + of_nat (22 + length (the (wf_ser fmt r))), w_sequence := w_sequence w + 1\<rparr>)"
  by (auto simp: wal_append_def wal_storable_def Let_def algebra_simps split: option.splits)

lemma wal_append_rep:
  assumes "wal_rep fmt w rs" "wal_storable fmt r"
  shows "wal_rep fmt (snd (wal_append fmt w r)) (rs @ [r])"
proof -
  obtain seq where "w_file w = wal_frames fmt seq rs" "w_sequence w = seq + of_nat (length rs)"
    using assms(1) by (auto simp: wal_rep_def)
  then show ?thesis
    using assms by (auto simp: wal_rep_def wal_append_storable wal_frames_append intro!: exI [of _ seq])
qed

lemma wal_recover_rep: "wal_rep fmt w rs \<Longrightarrow> wal_recover fmt w = Some rs"
  using wal_open_frames by (fastforce simp: wal_rep_def wal_recover_def)

interpretation wal: journal "wal_rep fmt" "wal_storable fmt" "\<lambda>w r. snd (wal_append fmt w r)" "wal_recover fmt"
  for fmt
  by unfold_locales (rule wal_append_rep wal_recover_rep; assumption)+

lemma wal_append_batch_all:
  "\<forall>r \<in> set rs. wal_storable fmt r \<Longrightarrow> wal_append_batch fmt w rs =
    (Ok (w_sequence w + of_nat (length rs)), append_all (\<lambda>w r. snd (wal_append fmt w r)) w rs)"
proof (induction rs arbitrary: w)
  case (Cons r rs)
  obtain p where p: "wf_ser fmt r = Some p"
    using Cons.prems by (auto simp: wal_storable_def split: option.splits)
  have "wal_append_batch fmt w (r # rs) = wal_append_batch fmt (snd (wal_append fmt w r)) rs"
    by (simp add: p wal_append_def Let_def)
  then show ?case using Cons by (simp add: p wal_append_def Let_def)
qed simp

lemma append_all_file:
  "\<forall>r \<in> set rs. wal_storable fmt r \<Longrightarrow> w_file (append_all (\<lambda>w r. snd (wal_append fmt w r)) w rs)
    = w_file w @ wal_frames fmt (w_sequence w) rs"
  by (induction rs arbitrary: w) (auto simp: wal_append_storable)

subsection \<open>The replication feed\<close>

fun wal_entries :: "u64 \<Rightarrow> wal_record list \<Rightarrow> (u64 \<times> wal_record) list" where
  "wal_entries seq [] = []"
| "wal_entries seq (r # rs) = (seq, r) # wal_entries (seq + 1) rs"

definition feed_includes :: "u64 option \<Rightarrow> u64 \<times> wal_record \<Rightarrow> bool" where
  "feed_includes after_sequence e = (case after_sequence of None \<Rightarrow> True | Some l \<Rightarrow> fst e > l)"

lemma wal_read_from_frames:
  assumes "\<forall>r \<in> set rs. wal_storable fmt r"
  shows "wal_read_from fmt after_sequence limit n offset (wal_frames fmt seq rs)
    = Ok (take (limit - n) (filter (feed_includes after_sequence) (wal_entries seq rs)))"
  using assms
proof (induction rs arbitrary: n offset seq)
  case Nil
  then show ?case by (subst wal_read_from.simps) simp
next
  case (Cons r rs)
  obtain p where p: "wf_ser fmt r = Some p" "wf_de fmt p = Some r" "length p < 2 ^ 32"
    using Cons.prems by (auto simp: wal_storable_def split: option.splits)
  have ih: "wal_read_from fmt after_sequence limit m off (wal_frames fmt (seq + 1) rs)
      = Ok (take (limit - m) (filter (feed_includes after_sequence) (wal_entries (seq + 1) rs)))" for m off
    using Cons by simp
  show ?case
  proof (cases "limit \<le> n")
    case False
    then have "limit - n = Suc (limit - Suc n)" by simp
    then show ?thesis
      using p False by (subst wal_read_from.simps)
        (simp add: wal_read_frame_frame ih feed_includes_def Let_def split: option.split)
  qed (subst wal_read_from.simps, simp)
qed

subsection \<open>An instance of the parameters\<close>

definition example_fmt :: wal_format where
  "example_fmt = \<lparr>wf_ser = (\<lambda>r. case r of
       WInsert t \<Rightarrow> Some (be_bytes 2 (t_symbol_id t) @ be_bytes 8 (t_timestamp t) @ be_bytes 8 (t_open t) @
         be_bytes 8 (t_high t) @ be_bytes 8 (t_low t) @ be_bytes 8 (t_close t) @ be_bytes 8 (t_volume t))
     | WDelete k \<Rightarrow> Some (key_encode k)
     | WCheckpoint n \<Rightarrow> Some (be_bytes 8 n)),
   wf_de = (\<lambda>b. if length b = 50 then Some (WInsert \<lparr>t_symbol_id = from_be (take 2 b),
         t_timestamp = from_be (take 8 (drop 2 b)), t_open = from_be (take 8 (drop 10 b)),
         t_high = from_be (take 8 (drop 18 b)), t_low = from_be (take 8 (drop 26 b)),
         t_close = from_be (take 8 (drop 34 b)), t_volume = from_be (drop 42 b)\<rparr>)
     else if length b = 10 then map_option WDelete (key_decode b)
     else if length b = 8 then Some (WCheckpoint (from_be b)) else None),
   wf_crc = (\<lambda>b. foldl (\<lambda>h x. h * 31 + ucast x) 7 b)\<rparr>"

lemma example_fmt_storable [simp]: "wal_storable example_fmt r"
  using key_decode_encode [of _ "[]"]
  by (cases r) (auto simp: wal_storable_def example_fmt_def)

subsection \<open>Properties\<close>

text \<open>
  C39. Recovery of a log that was written completely: whatever storable records, at least one, a
  batch appends to a fresh log, reopening its file replays exactly them, in order, and continues
  with the next sequence number.  An incomplete frame at the end is the subject of
  \<open>wal_torn_tail\<close>.
\<close>

theorem wal_recovers_appended:
  assumes "\<forall>r \<in> set rs. wal_storable fmt r" and "rs \<noteq> []"
    and "wal_open fmt [] = Ok w" and "wal_append_batch fmt w rs = (res, w')"
  shows "res = Ok (of_nat (length rs)) \<and> (\<exists>w''. wal_open fmt (w_file w') = Ok w'' \<and> w_replayed w'' = rs \<and>
    w_sequence w'' = of_nat (length rs) \<and> w_file w'' = w_file w')"
proof -
  have w: "w = \<lparr>w_file = [], w_offset = 0, w_sequence = 0, w_replayed = []\<rparr>"
    using wal_open_frames [of "[]" fmt 0] assms(3) by simp
  have "w_file w' = wal_frames fmt 0 rs" "res = Ok (of_nat (length rs))"
    using assms(1,4) append_all_file [of rs fmt w] wal_append_batch_all [OF assms(1), of w] by (auto simp: w)
  then show ?thesis using wal_open_frames [OF assms(1), of 0] assms(2) by simp
qed

theorem wal_recovers_appended_witness:
  "\<exists>w'. wal_append_batch example_fmt \<lparr>w_file = [], w_offset = 0, w_sequence = 0, w_replayed = []\<rparr>
      [WCheckpoint 7, WDelete (Key 1 5)] = (Ok 2, w') \<and>
    (\<exists>w''. wal_open example_fmt (w_file w') = Ok w'' \<and> w_replayed w'' = [WCheckpoint 7, WDelete (Key 1 5)])"
proof -
  let ?w = "\<lparr>w_file = [], w_offset = 0, w_sequence = 0, w_replayed = []\<rparr>"
  have "wal_open example_fmt [] = Ok ?w" using wal_open_frames [of "[]" example_fmt 0] by simp
  moreover obtain res w' where "wal_append_batch example_fmt ?w [WCheckpoint 7, WDelete (Key 1 5)] = (res, w')"
    by fastforce
  ultimately show ?thesis
    using wal_recovers_appended [of "[WCheckpoint 7, WDelete (Key 1 5)]" example_fmt ?w res w'] by auto
qed

text \<open>The loop of \<open>append\<close> calls a batch stands for: stop at the first error.\<close>

fun append_each :: "wal_format \<Rightarrow> wal \<Rightarrow> wal_record list \<Rightarrow> (u64, wal_error) outcome \<times> wal" where
  "append_each fmt w [] = (Ok (w_sequence w), w)"
| "append_each fmt w (r # rs) = (case wal_append fmt w r of
      (Ok _, w') \<Rightarrow> append_each fmt w' rs | (e, w') \<Rightarrow> (e, w'))"

text \<open>
  A batch is the same as appending its records one by one: same file, same sequence
  numbers, same result, and the same records kept when one of them cannot be serialized.
\<close>

theorem wal_batch_equiv: "wal_append_batch fmt w rs = append_each fmt w rs"
  by (induction rs arbitrary: w) (auto simp: wal_append_def Let_def split: option.split)

lemma take_frame: "k \<le> 4 \<Longrightarrow> take k (wal_frame fmt seq p) = take k (be_bytes 4 WAL_MAGIC)"
  by (simp add: wal_frame_def)

lemma wal_read_torn:
  assumes "length p < 2 ^ 32" "4 \<le> k" "k < length (wal_frame fmt seq p)"
  shows "wal_read_frame fmt offset (take k (wal_frame fmt seq p)) = Err WalIo"
proof -
  obtain d where d: "k = 4 + d" using assms(2) le_Suc_ex by blast
  define body where "body = be_bytes 4 (wf_crc fmt p) @ be_bytes 4 (of_nat (length p) :: u32) @ be_bytes 8 seq @ p"
  have t: "take k (wal_frame fmt seq p) = be_bytes 4 WAL_MAGIC @ take d (be_bytes 2 WAL_VERSION @ body)"
    by (simp add: wal_frame_def d body_def)
  have len: "length body = 16 + length p" by (simp add: body_def)
  consider "d < 2" | e where "d = 2 + e" "e < 16" | e where "d = 18 + e" "e < length p"
  proof -
    have "d < 18 + length p" using assms(3) d by (simp add: length_wal_frame)
    then show ?thesis using that(1) that(2) [of "d - 2"] that(3) [of "d - 18"] by linarith
  qed
  then show ?thesis
  proof cases
    case 1
    then show ?thesis unfolding t by (simp add: wal_read_frame_def Let_def len)
  next
    case (2 e)
    then show ?thesis unfolding t by (simp add: wal_read_frame_def Let_def len)
  next
    case (3 e)
    then have "take (2 + (16 + e)) (be_bytes 2 WAL_VERSION @ body) = be_bytes 2 WAL_VERSION @
        be_bytes 4 (wf_crc fmt p) @ be_bytes 4 (of_nat (length p) :: u32) @ be_bytes 8 seq @ take e p"
      by (simp add: body_def)
    then show ?thesis unfolding t using 3 assms(1)
      by (simp add: wal_read_frame_def Let_def unat_of_nat_u32)
  qed
qed

text \<open>
  A crash in the middle of an append: if fewer than four bytes of the last frame reached
  the disk, reopening silently drops them and replays everything before; if four or more did,
  reopening fails with an I/O error although all earlier records are intact, so a torn record
  makes the database unopenable.
\<close>

theorem wal_torn_tail:
  assumes "\<forall>r \<in> set rs. wal_storable fmt r" and "length p < 2 ^ 32"
    and "k < length (wal_frame fmt (of_nat (length rs)) p)"
  shows "wal_open fmt (wal_frames fmt 0 rs @ take k (wal_frame fmt (of_nat (length rs)) p)) =
    (if k < 4 then Ok \<lparr>w_file = wal_frames fmt 0 rs @ take k (wal_frame fmt (of_nat (length rs)) p),
         w_offset = of_nat (length (wal_frames fmt 0 rs @ take k (wal_frame fmt (of_nat (length rs)) p))),
         w_sequence = of_nat (length rs), w_replayed = rs\<rparr>
     else Err WalIo)"
proof -
  let ?t = "take k (wal_frame fmt (of_nat (length rs)) p)"
  obtain off' where r: "wal_replay_from fmt 0 0 (wal_frames fmt 0 rs @ ?t)
    = bind_outcome (wal_replay_from fmt (if rs = [] then 0 else 0 + of_nat (length rs)) off' ?t)
        (\<lambda>(ss, s). Ok (rs @ ss, s))"
    using wal_replay_frames [OF assms(1), of 0 0 0 ?t] by blast
  show ?thesis
  proof (cases "k < 4")
    case True
    then have "wal_replay_from fmt s off' ?t = Ok ([], s)" for s
      by (subst wal_replay_from.simps) (simp add: length_wal_frame)
    then show ?thesis using True by (simp add: wal_open_def wal_replay_def Let_def r)
  next
    case False
    then have "wal_replay_from fmt s off' ?t = Err WalIo" for s
      using wal_read_torn [OF assms(2) _ assms(3)] by (subst wal_replay_from.simps) simp
    then show ?thesis using False by (simp add: wal_open_def wal_replay_def Let_def r)
  qed
qed

theorem wal_torn_tail_witness:
  "wal_open example_fmt (wal_frames example_fmt 0 [WCheckpoint 7] @ take 9 (wal_frame example_fmt 1 [1, 2]))
    = Err WalIo"
  using wal_torn_tail [of "[WCheckpoint 7]" example_fmt "[1, 2]" 9] by (simp add: length_wal_frame)

lemma torn_magic:
  "from_be [0x47, 0x47, 0x52, 0x41] \<noteq> WAL_MAGIC" "from_be [0x47, 0x52, 0x47, 0x52] \<noteq> WAL_MAGIC"
  "from_be [0x47, 0x52, 0x41, 0x47] \<noteq> WAL_MAGIC"
  by code_simp+

lemma wal_read_bad_magic:
  "from_be [a, b, c, d] \<noteq> WAL_MAGIC \<Longrightarrow>
    wal_read_frame fmt off (a # b # c # d # rest) = Err (WalCorrupt off (BadMagic (from_be [a, b, c, d])))"
  by (simp add: wal_read_frame_def Let_def)

text \<open>
  A torn tail of one to three bytes is not cut off when the log is reopened, so the next
  append lands behind it and makes the log, and with it the record just acknowledged, unreadable:
  every later reopening fails with a bad magic number.
\<close>

theorem wal_append_after_torn_tail:
  assumes "\<forall>r \<in> set rs. wal_storable fmt r" and "wal_storable fmt r" and "0 < k" "k < 4"
    and "wal_open fmt (wal_frames fmt 0 rs @ take k (be_bytes 4 WAL_MAGIC)) = Ok w"
  shows "fst (wal_append fmt w r) = Ok (of_nat (length rs) + 1) \<and>
    (\<exists>off m. wal_open fmt (w_file (snd (wal_append fmt w r))) = Err (WalCorrupt off (BadMagic m)))"
proof -
  let ?t = "take k (be_bytes 4 WAL_MAGIC)"
  obtain off0 where "wal_replay_from fmt 0 0 (wal_frames fmt 0 rs @ ?t)
    = bind_outcome (wal_replay_from fmt (if rs = [] then 0 else 0 + of_nat (length rs)) off0 ?t)
        (\<lambda>(ss, s). Ok (rs @ ss, s))"
    using wal_replay_frames [OF assms(1), of 0 0 0 ?t] by blast
  moreover have "wal_replay_from fmt s off0 ?t = Ok ([], s)" for s
    using assms(4) by (subst wal_replay_from.simps) simp
  ultimately have w: "w_file w = wal_frames fmt 0 rs @ ?t" "w_sequence w = of_nat (length rs)"
    using assms(5) by (auto simp: wal_open_def wal_replay_def Let_def)
  define p where "p = the (wf_ser fmt r)"
  define rest where "rest = wal_frame fmt (of_nat (length rs)) p"
  note app = wal_append_storable [OF assms(2), of w]
  have stored: "w_file (snd (wal_append fmt w r)) = wal_frames fmt 0 rs @ (?t @ rest)"
    by (simp add: app w p_def rest_def)
  have bad: "\<exists>m. wal_read_frame fmt off (?t @ rest) = Err (WalCorrupt off (BadMagic m))" for off
  proof -
    have magic: "be_bytes 4 WAL_MAGIC = [0x47, 0x52, 0x41, 0x54]" by code_simp
    obtain d where "rest = be_bytes 4 WAL_MAGIC @ d"
      by (rule that [of "drop 4 rest"]) (simp add: rest_def wal_frame_def)
    then have rest: "rest = 0x47 # 0x52 # 0x41 # 0x54 # d" unfolding magic by simp
    then have "?t @ rest = 0x47 # 0x47 # 0x52 # 0x41 # 0x54 # d \<or>
        ?t @ rest = 0x47 # 0x52 # 0x47 # 0x52 # 0x41 # 0x54 # d \<or>
        ?t @ rest = 0x47 # 0x52 # 0x41 # 0x47 # 0x52 # 0x41 # 0x54 # d"
    proof -
      have "k = 1 \<or> k = 2 \<or> k = 3" using assms(3,4) by linarith
      then show ?thesis unfolding magic rest by (elim disjE) simp_all
    qed
    then show ?thesis using torn_magic [THEN wal_read_bad_magic] by metis
  qed
  obtain off' where "wal_replay_from fmt 0 0 (wal_frames fmt 0 rs @ (?t @ rest))
    = bind_outcome (wal_replay_from fmt (if rs = [] then 0 else 0 + of_nat (length rs)) off' (?t @ rest))
        (\<lambda>(ss, s). Ok (rs @ ss, s))"
    using wal_replay_frames [OF assms(1), of 0 0 0 "?t @ rest"] by blast
  moreover obtain m where "wal_read_frame fmt off' (?t @ rest) = Err (WalCorrupt off' (BadMagic m))"
    using bad by blast
  then have "wal_replay_from fmt s off' (?t @ rest) = Err (WalCorrupt off' (BadMagic m))" for s
    by (subst wal_replay_from.simps) simp
  ultimately have "wal_open fmt (w_file (snd (wal_append fmt w r))) = Err (WalCorrupt off' (BadMagic m))"
    unfolding stored wal_open_def wal_replay_def Let_def by simp
  then show ?thesis using app w by simp
qed

theorem wal_append_after_torn_tail_witness:
  "\<exists>w. wal_open example_fmt (wal_frames example_fmt 0 [WCheckpoint 7] @ take 2 (be_bytes 4 WAL_MAGIC)) = Ok w \<and>
    (\<exists>off m. wal_open example_fmt (w_file (snd (wal_append example_fmt w (WCheckpoint 8))))
      = Err (WalCorrupt off (BadMagic m)))"
proof -
  obtain off' where "wal_replay_from example_fmt 0 0 (wal_frames example_fmt 0 [WCheckpoint 7] @ take 2 (be_bytes 4 WAL_MAGIC))
    = bind_outcome (wal_replay_from example_fmt (if [WCheckpoint 7] = [] then 0 else 0 + of_nat (length [WCheckpoint 7]))
        off' (take 2 (be_bytes 4 WAL_MAGIC))) (\<lambda>(ss, s). Ok ([WCheckpoint 7] @ ss, s))"
    using wal_replay_frames [of "[WCheckpoint 7]" example_fmt 0 0 0] by auto
  moreover have "wal_replay_from example_fmt s off' (take 2 (be_bytes 4 WAL_MAGIC)) = Ok ([], s)" for s
    by (subst wal_replay_from.simps) simp
  ultimately obtain w where
    w: "wal_open example_fmt (wal_frames example_fmt 0 [WCheckpoint 7] @ take 2 (be_bytes 4 WAL_MAGIC)) = Ok w"
    by (auto simp: wal_open_def wal_replay_def Let_def)
  then show ?thesis
    using wal_append_after_torn_tail [OF _ _ _ _ w, of "WCheckpoint 8"] by auto
qed

text \<open>
  The replication feed: a read returns, in log order and with their sequence numbers,
  the first \<open>limit\<close> entries whose number is above the given one.
\<close>

theorem wal_feed_complete:
  assumes "\<forall>r \<in> set rs. wal_storable fmt r" and "w_file w = wal_frames fmt seq rs"
  shows "wal_read_for_replication fmt w after_sequence limit
    = Ok (take limit (filter (feed_includes after_sequence) (wal_entries seq rs)))"
  using wal_read_from_frames [OF assms(1), of after_sequence limit 0 0 seq] assms(2)
  by (simp add: wal_read_for_replication_def)

theorem wal_feed_complete_witness:
  "wal_read_for_replication example_fmt \<lparr>w_file = wal_frames example_fmt 0 [WCheckpoint 7, WCheckpoint 8, WCheckpoint 9],
     w_offset = 0, w_sequence = 3, w_replayed = []\<rparr> (Some 0) 1 = Ok [(1, WCheckpoint 8)]"
  using wal_feed_complete [of "[WCheckpoint 7, WCheckpoint 8, WCheckpoint 9]" example_fmt
      "\<lparr>w_file = wal_frames example_fmt 0 [WCheckpoint 7, WCheckpoint 8, WCheckpoint 9],
        w_offset = 0, w_sequence = 3, w_replayed = []\<rparr>" 0 "Some 0" 1]
  by (simp add: feed_includes_def)

text \<open>A replica that has applied as many entries as the log has is sent none.\<close>

lemma feed_beyond:
  assumes "length rs \<le> unat l + 1"
  shows "filter (feed_includes (Some l)) (wal_entries 0 rs) = []"
proof -
  have low: "e \<in> set (wal_entries (of_nat s) rs) \<Longrightarrow> s + length rs \<le> unat l + 1 \<Longrightarrow> \<not> fst e > l" for e s rs
  proof (induction rs arbitrary: s)
    case (Cons r rs)
    have "unat l < 2 ^ 64" using unsigned_less [of l, where ?'a = nat] by simp
    then have "s \<le> unat l \<Longrightarrow> unat (of_nat s :: u64) = s" by (intro unat_of_nat_u64) simp
    then have "\<not> (of_nat s > l)" using Cons.prems(2) by (simp add: word_less_nat_alt)
    moreover have "e \<in> set (wal_entries (of_nat (Suc s)) rs) \<Longrightarrow> \<not> fst e > l"
      using Cons.IH [of "Suc s"] Cons.prems(2) by simp
    ultimately show ?case using Cons.prems(1) by (auto simp: add.commute)
  qed simp
  show ?thesis using low [of _ 0 rs] assms by (auto simp: filter_empty_conv feed_includes_def)
qed

lemma length_wal_entries: "length (wal_entries seq rs) = length rs"
  by (induction rs arbitrary: seq) auto

lemma last_wal_entries: "rs \<noteq> [] \<Longrightarrow> fst (last (wal_entries seq rs)) = seq + of_nat (length rs - 1)"
proof (induction rs arbitrary: seq)
  case (Cons r rs)
  show ?case
  proof (cases "rs = []")
    case False
    then have "wal_entries (seq + 1) rs \<noteq> []" using length_wal_entries [of "seq + 1" rs] by (metis length_0_conv)
    moreover have "(of_nat (length rs) :: u64) = 1 + of_nat (length rs - 1)" using False by (cases rs) simp_all
    ultimately show ?thesis using Cons.IH [OF False, of "seq + 1"] by (simp add: add.assoc)
  qed simp
qed simp

text \<open>
  Sequence numbers are not monotone over a restart: after the log has been truncated and
  reopened, numbering starts again at 0, so a replica that has applied up to \<open>l\<close> is sent none
  of the next \<open>l + 1\<close> records.
\<close>

theorem wal_restart_hides_records:
  assumes "wal_open fmt (w_file (wal_truncate w)) = Ok w'"
    and "\<forall>r \<in> set rs. wal_storable fmt r" and "length rs \<le> unat l + 1"
    and "wal_append_batch fmt w' rs = (res, w'')"
  shows "wal_read_for_replication fmt w'' (Some l) limit = Ok []"
proof -
  have w': "w' = \<lparr>w_file = [], w_offset = 0, w_sequence = 0, w_replayed = []\<rparr>"
    using wal_open_frames [of "[]" fmt 0] assms(1) by (simp add: wal_truncate_def)
  have file0: "w_file w'' = wal_frames fmt 0 rs"
    using assms(2,4) append_all_file [of rs fmt w'] wal_append_batch_all [OF assms(2), of w'] by (simp add: w')
  have "filter (feed_includes (Some l)) (wal_entries 0 rs) = []" by (rule feed_beyond [OF assms(3)])
  then show ?thesis
    using wal_read_from_frames [OF assms(2), of "Some l" limit 0 0 0] file0
    by (simp add: wal_read_for_replication_def)
qed

theorem wal_restart_hides_records_witness:
  "\<exists>w' w''. wal_append_batch example_fmt w' [WCheckpoint 7, WCheckpoint 8] = (Ok 2, w'') \<and>
    wal_read_for_replication example_fmt w'' (Some 5) 10 = Ok []"
proof -
  let ?w = "\<lparr>w_file = [], w_offset = 0, w_sequence = 0, w_replayed = []\<rparr>"
  have w: "wal_open example_fmt (w_file (wal_truncate ?w)) = Ok ?w"
    using wal_open_frames [of "[]" example_fmt 0] by (simp add: wal_truncate_def)
  have b: "wal_append_batch example_fmt ?w [WCheckpoint 7, WCheckpoint 8] = (Ok 2,
      append_all (\<lambda>w r. snd (wal_append example_fmt w r)) ?w [WCheckpoint 7, WCheckpoint 8])"
    using wal_append_batch_all [of "[WCheckpoint 7, WCheckpoint 8]" example_fmt ?w] by simp
  then show ?thesis using wal_restart_hides_records [OF w _ _ b, of 5 10] by auto
qed

end
