(* ===== verification/Replication.thy ===== *)
theory Replication
  imports Wal
begin

text \<open>
  \<^verbatim>\<open>graphite-core/src/replication.rs\<close>: node roles, the entries of the replication feed, and the
  tracker of the last primary sequence number applied, which is kept in a JSON file.  The JSON
  text of the state is a crate's: \<open>rep_format\<close> holds the two functions the code calls.  Reading
  and writing the file itself succeed.
\<close>

datatype node_role = Primary | Replica

record replication_entry =
  re_sequence :: u64
  re_record :: wal_record
  re_symbol :: "string option"

record replication_status =
  rs_role :: node_role
  rs_wal_sequence :: u64
  rs_last_primary_sequence :: u64
  rs_lag_entries :: u64

datatype replication_error = RepIo | RepSerde | NotPrimary | NotReplica

text \<open>The state is one field, \<open>last_primary_sequence\<close>.\<close>

record rep_format =
  rf_ser :: "u64 option \<Rightarrow> bytes option"
  rf_de :: "bytes \<Rightarrow> u64 option option"

text \<open>The tracker with the contents of its file, which may not exist.\<close>

record replication_tracker =
  rt_file :: "bytes option"
  rt_state :: "u64 option"

definition tracker_open ::
  "rep_format \<Rightarrow> bytes option \<Rightarrow> (replication_tracker, replication_error) outcome" where
  "tracker_open rf file = (case file of
      None \<Rightarrow> Ok \<lparr>rt_file = None, rt_state = None\<rparr>
    | Some b \<Rightarrow> (case rf_de rf b of
        None \<Rightarrow> Err RepSerde
      | Some st \<Rightarrow> Ok \<lparr>rt_file = Some b, rt_state = st\<rparr>))"

definition last_primary_sequence :: "replication_tracker \<Rightarrow> u64" where
  "last_primary_sequence t = (case rt_state t of None \<Rightarrow> 0 | Some n \<Rightarrow> n)"

definition last_applied :: "replication_tracker \<Rightarrow> u64 option" where
  "last_applied t = rt_state t"

text \<open>The state moves before it is serialized, so it stays moved when that fails.\<close>

definition tracker_advance ::
  "rep_format \<Rightarrow> u64 \<Rightarrow> replication_tracker \<Rightarrow> (unit, replication_error) outcome \<times> replication_tracker" where
  "tracker_advance rf sequence t =
     (if sequence \<ge> last_primary_sequence t
      then let t' = t\<lparr>rt_state := Some sequence\<rparr> in
        (case rf_ser rf (rt_state t') of
           None \<Rightarrow> (Err RepSerde, t')
         | Some b \<Rightarrow> (Ok (), t'\<lparr>rt_file := Some b\<rparr>))
      else (Ok (), t))"

definition saturating_sub :: "u64 \<Rightarrow> u64 \<Rightarrow> u64" where
  "saturating_sub a b = (if b \<le> a then a - b else 0)"

definition tracker_lag :: "replication_tracker \<Rightarrow> u64 \<Rightarrow> u64" where
  "tracker_lag t primary_wal_sequence = saturating_sub primary_wal_sequence (last_primary_sequence t)"

subsection \<open>The tracker over a sequence of batches\<close>

fun advance_all :: "rep_format \<Rightarrow> replication_tracker \<Rightarrow> u64 list \<Rightarrow> replication_tracker" where
  "advance_all rf t [] = t"
| "advance_all rf t (n # ns) = advance_all rf (snd (tracker_advance rf n t)) ns"

definition rep_lossless :: "rep_format \<Rightarrow> bool" where
  "rep_lossless rf \<longleftrightarrow> (\<forall>st. case rf_ser rf st of None \<Rightarrow> False | Some b \<Rightarrow> rf_de rf b = Some st)"

definition tracker_ok :: "rep_format \<Rightarrow> replication_tracker \<Rightarrow> bool" where
  "tracker_ok rf t \<longleftrightarrow> (case rt_file t of None \<Rightarrow> rt_state t = None | Some b \<Rightarrow> rf_de rf b = Some (rt_state t))"

lemma tracker_advance_ok:
  assumes "rep_lossless rf" "tracker_ok rf t"
  shows "tracker_ok rf (snd (tracker_advance rf n t))"
    "last_primary_sequence (snd (tracker_advance rf n t)) = max n (last_primary_sequence t)"
    "fst (tracker_advance rf n t) = Ok ()"
proof -
  obtain b where b: "rf_ser rf (Some n) = Some b" "rf_de rf b = Some (Some n)"
    using assms(1) by (auto simp: rep_lossless_def split: option.splits)
  show "tracker_ok rf (snd (tracker_advance rf n t))"
    "last_primary_sequence (snd (tracker_advance rf n t)) = max n (last_primary_sequence t)"
    "fst (tracker_advance rf n t) = Ok ()"
    using b assms(2) by (auto simp: tracker_advance_def tracker_ok_def last_primary_sequence_def Let_def max_def
        split: option.splits)
qed

lemma advance_all_ok:
  assumes "rep_lossless rf" "tracker_ok rf t"
  shows "tracker_ok rf (advance_all rf t ns)"
    "last_primary_sequence (advance_all rf t ns) = fold max ns (last_primary_sequence t)"
  using assms(2) by (induction ns arbitrary: t) (simp_all add: tracker_advance_ok [OF assms(1)])

lemma tracker_reopen: "tracker_ok rf t \<Longrightarrow> tracker_open rf (rt_file t) = Ok t"
  by (auto simp: tracker_ok_def tracker_open_def split: option.splits)

definition example_rf :: rep_format where
  "example_rf = \<lparr>rf_ser = (\<lambda>st. case st of None \<Rightarrow> Some [] | Some n \<Rightarrow> Some (be_bytes 8 n)),
     rf_de = (\<lambda>b. Some (if b = [] then None else Some (from_be b)))\<rparr>"

lemma example_rf_lossless [simp]: "rep_lossless example_rf"
  by (auto simp: rep_lossless_def example_rf_def split: option.split)

subsection \<open>Properties\<close>

text \<open>
  C17. The position of a replica never moves back and survives a restart: when its serializer is
  lossless, after batches with any last sequence numbers, in any order, it is the largest of them
  and of the position it was opened with, and reopening the file restores it.
\<close>

theorem tracker_monotone_durable:
  assumes "rep_lossless rf" and "tracker_open rf file = Ok t"
  shows "last_primary_sequence (advance_all rf t ns) = fold max ns (last_primary_sequence t) \<and>
    tracker_open rf (rt_file (advance_all rf t ns)) = Ok (advance_all rf t ns)"
proof -
  have "tracker_ok rf t"
    using assms(2) by (auto simp: tracker_open_def tracker_ok_def split: option.splits)
  then show ?thesis using advance_all_ok [OF assms(1)] tracker_reopen by blast
qed

theorem tracker_monotone_durable_witness:
  "last_primary_sequence (advance_all example_rf \<lparr>rt_file = None, rt_state = None\<rparr> [4, 9, 7]) = 9"
  using tracker_monotone_durable [of example_rf None "\<lparr>rt_file = None, rt_state = None\<rparr>" "[4, 9, 7]"]
  by (simp add: tracker_open_def last_primary_sequence_def max_def)

end
