(* ===== verification/World.thy ===== *)
theory World
  imports SsTable Replication
begin

text \<open>
  What the engine shares: the crates and services outside the repository as one record of
  parameters (\<open>env\<close>), the directory of table files, the process-wide table counter and the clock
  (\<open>world\<close>), and operations that run on a state and end in an outcome.  The state after an error
  or a panic is the state reached so far.

  The merging of tick lists that compaction and scans share, a stable sort by key and the
  removal of adjacent duplicates, is at the end.
\<close>

text \<open>
  The object store of the cold tier (the crate \<^verbatim>\<open>object_store\<close>): what it answers is a function of
  the uploads attempted so far, \<open>os_child\<close> and \<open>os_from\<close> are \<^verbatim>\<open>Path::join\<close> and \<^verbatim>\<open>Path::from\<close>
  on the text of a path.  \<open>os_ser\<close> and \<open>os_de\<close> are the JSON text of the manifest.
\<close>

record cold_entry =
  ce_object_path :: string
  ce_synced_at :: u64

type_synonym puts = "(string \<times> bytes) list"

record object_store =
  os_url_ok :: "string \<Rightarrow> bool"
  os_parse :: "string \<Rightarrow> string option"
  os_put :: "puts \<Rightarrow> string \<Rightarrow> bytes \<Rightarrow> bool"
  os_get :: "puts \<Rightarrow> string \<Rightarrow> bytes option"
  os_child :: "string \<Rightarrow> string \<Rightarrow> string"
  os_from :: "string \<Rightarrow> string"
  os_ser :: "(string \<times> cold_entry) list \<Rightarrow> bytes option"
  os_de :: "bytes \<Rightarrow> (string \<times> cold_entry) list option"

record env =
  ev_ln :: "f64 \<Rightarrow> f64"
  ev_cz :: compressors
  ev_fmt :: wal_format
  ev_rep :: rep_format
  ev_store :: object_store
  ev_lossy :: "string \<Rightarrow> string"
  ev_rng :: "nat \<Rightarrow> f64"
  ev_now :: "nat \<Rightarrow> nat"

text \<open>
  Files are listed in directory order; \<open>wd_reads\<close> counts the readings of the clock, the
  \<open>k\<close>-th of which is \<open>ev_now k\<close> nanoseconds; \<open>wd_puts\<close> are the uploads attempted so far.
\<close>

record world =
  wd_fs :: "(string \<times> bytes) list"
  wd_next_id :: u64
  wd_reads :: nat
  wd_puts :: puts

subsection \<open>Operations on a state\<close>

type_synonym ('s, 'a, 'e) eff = "'s \<Rightarrow> ('a, 'e) outcome \<times> 's"

definition ret :: "'a \<Rightarrow> ('s, 'a, 'e) eff" where
  "ret x s = (Ok x, s)"

definition fail_with :: "'e \<Rightarrow> ('s, 'a, 'e) eff" where
  "fail_with e s = (Err e, s)"

definition bind_eff :: "('s, 'a, 'e) eff \<Rightarrow> ('a \<Rightarrow> ('s, 'b, 'e) eff) \<Rightarrow> ('s, 'b, 'e) eff" where
  "bind_eff m f s = (case m s of
      (Ok x, s') \<Rightarrow> f x s' | (Err e, s') \<Rightarrow> (Err e, s') | (Panic, s') \<Rightarrow> (Panic, s')
    | (Deadlock, s') \<Rightarrow> (Deadlock, s'))"

definition lift_outcome :: "('a, 'e) outcome \<Rightarrow> ('s, 'a, 'e) eff" where
  "lift_outcome x s = (x, s)"

definition get_eff :: "('s \<Rightarrow> 'a) \<Rightarrow> ('s, 'a, 'e) eff" where
  "get_eff f s = (Ok (f s), s)"

definition upd_eff :: "('s \<Rightarrow> 's) \<Rightarrow> ('s, unit, 'e) eff" where
  "upd_eff f s = (Ok (), f s)"

text \<open>\<open>for x in xs { ... }\<close>: the body runs until it fails.\<close>

fun for_eff :: "'x list \<Rightarrow> ('x \<Rightarrow> ('s, unit, 'e) eff) \<Rightarrow> ('s, unit, 'e) eff" where
  "for_eff [] f = ret ()"
| "for_eff (x # xs) f = bind_eff (f x) (\<lambda>_. for_eff xs f)"

lemma map_err_Ok_iff [simp, outcome_simps]: "map_err g m = Ok x \<longleftrightarrow> m = Ok x"
  by (cases m) auto

named_theorems eff_simps "running the operations on a state"

lemmas [eff_simps] = ret_def fail_with_def lift_outcome_def get_eff_def upd_eff_def

lemma bind_eff_simps [simp, eff_simps]:
  "m s = (Ok x, s') \<Longrightarrow> bind_eff m f s = f x s'"
  "m s = (Err e, s') \<Longrightarrow> bind_eff m f s = (Err e, s')"
  "m s = (Panic, s') \<Longrightarrow> bind_eff m f s = (Panic, s')"
  "m s = (Deadlock, s') \<Longrightarrow> bind_eff m f s = (Deadlock, s')"
  by (simp_all add: bind_eff_def)

lemma bind_eff_base [simp, eff_simps]:
  "bind_eff (ret x) f s = f x s" "bind_eff (fail_with e) f s = (Err e, s)"
  "bind_eff (get_eff g) f2 s = f2 (g s) s" "bind_eff (upd_eff h) f3 s = f3 () (h s)"
  "bind_eff (lift_outcome (Ok y)) f4 s = f4 y s"
  by (simp_all add: bind_eff_def eff_simps)

lemma bind_eff_assoc: "bind_eff (bind_eff m f) g s = bind_eff m (\<lambda>x. bind_eff (f x) g) s"
  by (auto simp: bind_eff_def split: outcome.splits prod.splits)

subsection \<open>Files\<close>

definition fs_write :: "string \<Rightarrow> bytes \<Rightarrow> (string \<times> bytes) list \<Rightarrow> (string \<times> bytes) list" where
  "fs_write p b fs = (if map_of fs p = None then fs @ [(p, b)]
     else map (\<lambda>(q, c). if q = p then (q, b) else (q, c)) fs)"

definition fs_remove :: "string \<Rightarrow> (string \<times> bytes) list \<Rightarrow> (string \<times> bytes) list" where
  "fs_remove p fs = filter (\<lambda>f. fst f \<noteq> p) fs"

lemma fs_write_lookup [simp]: "map_of (fs_write p b fs) q = (if q = p then Some b else map_of fs q)"
proof (cases "map_of fs p")
  case None
  then show ?thesis by (auto simp: fs_write_def map_add_def split: option.split)
next
  case (Some c)
  have "map_of (map (\<lambda>(q, c). if q = p then (q, b) else (q, c)) fs) q
      = (if q = p \<and> map_of fs p \<noteq> None then Some b else map_of fs q)"
    by (induction fs) auto
  then show ?thesis using Some by (auto simp: fs_write_def)
qed

lemma fs_remove_lookup [simp]: "map_of (fs_remove p fs) q = (if q = p then None else map_of fs q)"
  by (induction fs) (auto simp: fs_remove_def)

text \<open>\<open>path.extension() == Some("sst")\<close>: a name before the last dot, and \<open>sst\<close> after it.\<close>

definition has_sst_extension :: "string \<Rightarrow> bool" where
  "has_sst_extension p \<longleftrightarrow> 4 < length p \<and> drop (length p - 4) p = ''.sst'' \<and>
     p ! (length p - 5) \<noteq> CHR ''/''"

text \<open>Decimal formatting, and the names \<open>L{}_{:06}.sst\<close> under the data directory.\<close>

function decimal :: "nat \<Rightarrow> string" where
  "decimal n = (if n < 10 then [char_of (48 + n)] else decimal (n div 10) @ [char_of (48 + n mod 10)])"
  by pat_completeness auto
termination by (relation "measure id") auto

declare decimal.simps [simp del]

definition pad_left :: "nat \<Rightarrow> string \<Rightarrow> string" where
  "pad_left n s = replicate (n - length s) CHR ''0'' @ s"

definition sst_path :: "string \<Rightarrow> nat \<Rightarrow> nat \<Rightarrow> string" where
  "sst_path dir lvl nanos =
     dir @ ''/L'' @ decimal lvl @ ''_'' @ pad_left 6 (decimal nanos) @ ''.sst''"

text \<open>\<open>SsTable::open\<close> and \<open>SsTable::write\<close> on the world; the counter advances either way.\<close>

definition world_open :: "env \<Rightarrow> string \<Rightarrow> (world, sstable, sst_error) eff" where
  "world_open ev path w =
     (let tid = wd_next_id w; w' = w\<lparr>wd_next_id := tid + 1\<rparr> in
      (case map_of (wd_fs w) path of
         None \<Rightarrow> Err SstIo
       | Some b \<Rightarrow> sst_open (ev_lossy ev) tid path b, w'))"

definition world_write ::
  "env \<Rightarrow> string \<Rightarrow> tick list \<Rightarrow> u32 \<Rightarrow> symbol_dictionary \<Rightarrow> (world, sstable, sst_error) eff" where
  "world_write ev path ticks level dict w =
     (let tid = wd_next_id w; w' = w\<lparr>wd_next_id := tid + 1\<rparr> in
      case sst_write (ev_ln ev) (ev_cz ev) tid path ticks level dict of
        Ok t \<Rightarrow> (Ok t, w'\<lparr>wd_fs := fs_write path (st_file t) (wd_fs w)\<rparr>)
      | r \<Rightarrow> (r, w'))"

definition world_now :: "env \<Rightarrow> world \<Rightarrow> nat \<times> world" where
  "world_now ev w = (ev_now ev (wd_reads w), w\<lparr>wd_reads := Suc (wd_reads w)\<rparr>)"

subsection \<open>Merging ticks\<close>

text \<open>\<open>dedup_by\<close> keeps the first of a run of equal keys.\<close>

fun dedup_ticks :: "tick list \<Rightarrow> tick list" where
  "dedup_ticks (x # y # zs) =
     (if tick_key y = tick_key x then dedup_ticks (x # zs) else x # dedup_ticks (y # zs))"
| "dedup_ticks xs = xs"

definition merge_ticks :: "tick list \<Rightarrow> tick list" where
  "merge_ticks ts = dedup_ticks (sort_key tick_key ts)"

lemma tick_lookup_dedup: "tick_lookup (dedup_ticks ts) k = tick_lookup ts k"
  by (induction ts rule: dedup_ticks.induct) auto

lemma set_dedup_ticks: "set (dedup_ticks ts) \<subseteq> set ts"
  by (induction ts rule: dedup_ticks.induct) auto

lemma dedup_ticks_hd: "dedup_ticks (x # xs) = x # tl (dedup_ticks (x # xs))"
  by (induction "x # xs" arbitrary: xs rule: dedup_ticks.induct) auto

lemma tick_sorted_dedup: "sorted (map tick_key ts) \<Longrightarrow> tick_sorted (dedup_ticks ts)"
proof (induction ts rule: dedup_ticks.induct)
  case (1 x y zs)
  show ?case
  proof (cases "tick_key y = tick_key x")
    case True
    then show ?thesis using 1 by simp
  next
    case False
    then have lt: "tick_key x < tick_key u" if "u \<in> set (y # zs)" for u
      using that "1.prems" by (auto simp: order.order_iff_strict intro: order.strict_trans2)
    have "tick_sorted (dedup_ticks (y # zs))" using 1 False by simp
    moreover have "\<forall>u \<in> set (dedup_ticks (y # zs)). tick_key x < tick_key u"
      using lt set_dedup_ticks by blast
    ultimately show ?thesis using False by simp
  qed
qed auto

text \<open>The sort is stable, so the first tick of a key stays the first.\<close>

lemma tick_lookup_filter: "tick_lookup ts k = tick_lookup (filter (\<lambda>t. tick_key t = k) ts) k"
  by (induction ts) auto

lemma tick_lookup_sort: "tick_lookup (sort_key tick_key ts) k = tick_lookup ts k"
  by (metis (mono_tags, lifting) filter_cong sort_key_stable tick_lookup_filter)

lemma merge_ticks_spec:
  "tick_sorted (merge_ticks ts)" "tick_lookup (merge_ticks ts) k = tick_lookup ts k"
  by (simp_all add: merge_ticks_def tick_lookup_dedup tick_lookup_sort tick_sorted_dedup)

lemma tick_sorted_eqI:
  assumes "tick_sorted xs" "tick_sorted ys" "\<And>k. tick_lookup xs k = tick_lookup ys k"
  shows "xs = ys"
proof -
  have "set xs = set ys" using assms tick_lookup_Some by (metis subsetI subset_antisym)
  moreover have "sorted_wrt (\<lambda>a b. tick_key a < tick_key b) xs" "sorted_wrt (\<lambda>a b. tick_key a < tick_key b) ys"
    using assms(1,2) by (simp_all add: tick_sorted_def sorted_wrt_map)
  ultimately show ?thesis
  proof (induction xs arbitrary: ys)
    case (Cons x xs)
    then obtain y ys' where ys: "ys = y # ys'" by (cases ys) auto
    have lt: "\<And>u. u \<in> set xs \<Longrightarrow> tick_key x < tick_key u" "\<And>u. u \<in> set ys' \<Longrightarrow> tick_key y < tick_key u"
      using Cons.prems(2,3) ys by simp_all
    have "x \<in> set (y # ys')" "y \<in> set (x # xs)" using Cons.prems(1) unfolding ys by (metis list.set_intros(1))+
    then have xy: "x = y" using lt by (metis order_less_asym set_ConsD)
    have "x \<notin> set xs" "x \<notin> set ys'" using lt xy by (metis order_less_irrefl)+
    moreover have "insert x (set xs) = insert x (set ys')" using Cons.prems(1) unfolding ys xy by simp
    ultimately have "set xs = set ys'" by (metis insert_ident)
    then show ?case using Cons.IH [of ys'] Cons.prems(2,3) ys xy by simp
  qed auto
qed

subsection \<open>Invariants of operations\<close>

text \<open>\<open>I\<close> survives the operation, however it ends, and \<open>R\<close> holds of what it returns.\<close>

definition eff_inv :: "('s \<Rightarrow> bool) \<Rightarrow> ('s, 'a, 'e) eff \<Rightarrow> ('a \<Rightarrow> bool) \<Rightarrow> bool" where
  "eff_inv I m R \<longleftrightarrow> (\<forall>s. I s \<longrightarrow> I (snd (m s)) \<and> (\<forall>x. fst (m s) = Ok x \<longrightarrow> R x))"

lemma eff_inv_bind:
  "eff_inv I m R \<Longrightarrow> (\<And>x. R x \<Longrightarrow> eff_inv I (f x) R') \<Longrightarrow> eff_inv I (bind_eff m f) R'"
  unfolding eff_inv_def bind_eff_def
  by (fastforce split: outcome.splits prod.splits)

lemma eff_inv_basic:
  "R x \<Longrightarrow> eff_inv I (ret x) R" "eff_inv I (fail_with e) R"
  "(\<And>s. I s \<Longrightarrow> R (g s)) \<Longrightarrow> eff_inv I (get_eff g) R" "(\<And>s. I s \<Longrightarrow> I (h s)) \<Longrightarrow> eff_inv I (upd_eff h) (\<lambda>_. True)"
  by (simp_all add: eff_inv_def eff_simps)

lemma eff_inv_for: "(\<And>x. x \<in> set xs \<Longrightarrow> eff_inv I (f x) (\<lambda>_. True)) \<Longrightarrow> eff_inv I (for_eff xs f) (\<lambda>_. True)"
proof (induction xs)
  case (Cons x xs)
  then show ?case unfolding for_eff.simps by (intro eff_inv_bind [where R = "\<lambda>_. True"]) auto
qed (simp add: eff_inv_basic)

text \<open>A table that was opened reports a file size of zero: the reader does not fill the field in.\<close>

lemma sst_open_file_size: "sst_open lossy tid path b = Ok t \<Longrightarrow> m_file_size (st_meta t) = 0"
  by (auto simp: sst_open_def read_metadata_def Let_def bind_outcome_Ok_iff split: if_splits)


text \<open>The parameters the witnesses use: a store that keeps the last upload of a path.\<close>

definition example_store :: object_store where
  "example_store = \<lparr>os_url_ok = (\<lambda>u. True), os_parse = (\<lambda>u. Some ''p''), os_put = (\<lambda>h p b. True),
     os_get = (\<lambda>h p. map_of (rev h) p), os_child = (\<lambda>p n. p @ CHR ''/'' # n), os_from = (\<lambda>p. p),
     os_ser = (\<lambda>m. Some []), os_de = (\<lambda>b. Some [])\<rparr>"

definition example_env :: env where
  "example_env = \<lparr>ev_ln = (\<lambda>x. 0x3FF0000000000000), ev_cz = example_cz, ev_fmt = example_fmt,
     ev_rep = example_rf, ev_store = example_store, ev_lossy = (\<lambda>s. s), ev_rng = (\<lambda>_. 0), ev_now = (\<lambda>k. k)\<rparr>"

definition example_world :: world where
  "example_world = \<lparr>wd_fs = [], wd_next_id = 1, wd_reads = 0, wd_puts = []\<rparr>"

end
