(* ===== verification/ColdTier.thy ===== *)
theory ColdTier
  imports World
begin

text \<open>
  \<^verbatim>\<open>graphite-core/src/cold_tier.rs\<close>: archiving tables in an object store.  The operations run on
  the tier, whose manifest maps file names to what was uploaded, and on the world with the local
  files and the uploads.  The manifest's mutex is taken and released inside each operation.
\<close>

datatype cold_error = ColdStore | ColdIo | ColdConfig | ColdSerde | ColdNotFound string

record cold_tier =
  ct_data_dir :: string
  ct_prefix :: string
  ct_min_level :: u32
  ct_manifest :: "(string \<times> cold_entry) list"

type_synonym ('a, 'e) cold_eff = "(cold_tier \<times> world, 'a, 'e) eff"

text \<open>\<open>path.file_name()\<close> as a string, empty where there is none.\<close>

definition base_name :: "string \<Rightarrow> string" where
  "base_name p = (let n = rev (takeWhile (\<lambda>c. c \<noteq> CHR ''/'') (dropWhile (\<lambda>c. c = CHR ''/'') (rev p)))
     in if n = ''..'' then [] else n)"

definition manifest_path :: "string \<Rightarrow> string" where
  "manifest_path data_dir = data_dir @ ''/cold_manifest.json''"

definition load_manifest ::
  "object_store \<Rightarrow> string \<Rightarrow> (string \<times> bytes) list \<Rightarrow> ((string \<times> cold_entry) list, cold_error) outcome" where
  "load_manifest os data_dir fs = (case map_of fs (manifest_path data_dir) of
      None \<Rightarrow> Ok []
    | Some text \<Rightarrow> (case os_de os text of None \<Rightarrow> Err ColdSerde | Some m \<Rightarrow> Ok m))"

definition save_manifest :: "object_store \<Rightarrow> (unit, cold_error) cold_eff" where
  "save_manifest os = (\<lambda>(c, w). case os_ser os (ct_manifest c) of
      None \<Rightarrow> (Err ColdSerde, (c, w))
    | Some b \<Rightarrow> (Ok (), (c, w\<lparr>wd_fs := fs_write (manifest_path (ct_data_dir c)) b (wd_fs w)\<rparr>)))"

definition cold_open ::
  "object_store \<Rightarrow> string \<Rightarrow> string \<Rightarrow> u32 \<Rightarrow> (string \<times> bytes) list \<Rightarrow> (cold_tier, cold_error) outcome" where
  "cold_open os data_dir uri min_level fs =
     (if \<not> os_url_ok os uri then Err ColdConfig
      else case os_parse os uri of
        None \<Rightarrow> Err ColdStore
      | Some prefix \<Rightarrow> bind_outcome (load_manifest os data_dir fs) (\<lambda>m.
          Ok \<lparr>ct_data_dir = data_dir, ct_prefix = prefix, ct_min_level = min_level, ct_manifest = m\<rparr>))"

definition synced_count :: "cold_tier \<Rightarrow> nat" where
  "synced_count c = length (ct_manifest c)"

definition is_synced :: "cold_tier \<Rightarrow> string \<Rightarrow> bool" where
  "is_synced c name \<longleftrightarrow> map_of (ct_manifest c) name \<noteq> None"

text \<open>\<open>unix_now\<close>: seconds.\<close>

definition unix_now :: "env \<Rightarrow> world \<Rightarrow> u64 \<times> world" where
  "unix_now ev w = (case world_now ev w of (n, w') \<Rightarrow> (of_nat (n div 1000000000), w'))"

text \<open>One turn of the loop of \<open>sync_tables\<close>: whether the table was uploaded.\<close>

definition sync_table :: "env \<Rightarrow> sstable \<Rightarrow> (bool, cold_error) cold_eff" where
  "sync_table ev t = (\<lambda>(c, w).
     let basename = base_name (st_path t) in
     if m_level (st_meta t) < ct_min_level c \<or> basename = [] \<or> is_synced c basename
     then (Ok False, (c, w))
     else case map_of (wd_fs w) (st_path t) of
       None \<Rightarrow> (Ok False, (c, w))
     | Some b \<Rightarrow>
         let object_path = os_child (ev_store ev) (ct_prefix c) basename;
             w1 = w\<lparr>wd_puts := wd_puts w @ [(object_path, b)]\<rparr>
         in if \<not> os_put (ev_store ev) (wd_puts w) object_path b then (Err ColdStore, (c, w1))
            else case unix_now ev w1 of (now, w2) \<Rightarrow>
              (Ok True, (c\<lparr>ct_manifest := ct_manifest c @
                 [(basename, \<lparr>ce_object_path = object_path, ce_synced_at = now\<rparr>)]\<rparr>, w2)))"

fun sync_loop :: "env \<Rightarrow> sstable list \<Rightarrow> nat \<Rightarrow> (nat, cold_error) cold_eff" where
  "sync_loop ev [] synced = ret synced"
| "sync_loop ev (t # ts) synced =
     bind_eff (sync_table ev t) (\<lambda>up. sync_loop ev ts (if up then Suc synced else synced))"

definition sync_tables :: "env \<Rightarrow> sstable list \<Rightarrow> (nat, cold_error) cold_eff" where
  "sync_tables ev tables = bind_eff (sync_loop ev tables 0) (\<lambda>synced.
     if 0 < synced then bind_eff (save_manifest (ev_store ev)) (\<lambda>_. ret synced) else ret synced)"

definition ensure_local :: "env \<Rightarrow> string \<Rightarrow> (string, cold_error) cold_eff" where
  "ensure_local ev path = (\<lambda>(c, w).
     if map_of (wd_fs w) path \<noteq> None then (Ok path, (c, w))
     else case map_of (ct_manifest c) (base_name path) of
       None \<Rightarrow> (Err (ColdNotFound (base_name path)), (c, w))
     | Some e \<Rightarrow> (case os_get (ev_store ev) (wd_puts w) (os_from (ev_store ev) (ce_object_path e)) of
         None \<Rightarrow> (Err ColdStore, (c, w))
       | Some b \<Rightarrow> (Ok path, (c, w\<lparr>wd_fs := fs_write path b (wd_fs w)\<rparr>))))"

subsection \<open>Without the feature\<close>

text \<open>
  The same functions in a build without the Cargo feature \<open>cold-tier\<close>: there is no store, and a
  file that is not on the disk is not found.
\<close>

definition cold_open_off :: "string \<Rightarrow> string \<Rightarrow> u32 \<Rightarrow> (cold_tier, cold_error) outcome" where
  "cold_open_off data_dir uri min_level = Err ColdConfig"

definition sync_tables_off :: "sstable list \<Rightarrow> (nat, cold_error) cold_eff" where
  "sync_tables_off tables = fail_with ColdConfig"

definition ensure_local_off :: "string \<Rightarrow> (string, cold_error) cold_eff" where
  "ensure_local_off path = (\<lambda>(c, w).
     if map_of (wd_fs w) path \<noteq> None then (Ok path, (c, w)) else (Err (ColdNotFound (base_name path)), (c, w)))"

text \<open>They agree where nothing has been archived.\<close>

lemma ensure_local_off_equiv: "ct_manifest c = [] \<Longrightarrow> ensure_local ev path (c, w) = ensure_local_off path (c, w)"
  by (simp add: ensure_local_def ensure_local_off_def)

subsection \<open>Archived files\<close>

text \<open>What the code relies on in the store: the last accepted upload of a path is what is read.\<close>

definition store_keeps :: "object_store \<Rightarrow> bool" where
  "store_keeps os \<longleftrightarrow> (\<forall>h p b later. os_put os h p b \<longrightarrow> p \<notin> fst ` set later \<longrightarrow>
     os_get os (h @ (p, b) # later) p = Some b)"

definition last_upload :: "object_store \<Rightarrow> puts \<Rightarrow> string \<Rightarrow> bytes \<Rightarrow> bool" where
  "last_upload os h p b \<longleftrightarrow> (\<exists>h1 later. h = h1 @ (p, b) # later \<and> os_put os h1 p b \<and> p \<notin> fst ` set later)"

lemma last_upload_get: "store_keeps os \<Longrightarrow> last_upload os h p b \<Longrightarrow> os_get os h p = Some b"
  by (auto simp: store_keeps_def last_upload_def)

lemma last_upload_append: "last_upload os h p b \<Longrightarrow> q \<noteq> p \<Longrightarrow> last_upload os (h @ [(q, b')]) p b"
  unfolding last_upload_def by fastforce

lemma last_upload_new: "os_put os h p b \<Longrightarrow> last_upload os (h @ [(p, b)]) p b"
  unfolding last_upload_def by fastforce

text \<open>The manifest points at the last upload, which is the file.\<close>

definition archived :: "env \<Rightarrow> string \<Rightarrow> bytes \<Rightarrow> cold_tier \<times> world \<Rightarrow> bool" where
  "archived ev name b = (\<lambda>(c, w). \<exists>e. map_of (ct_manifest c) name = Some e \<and>
     ce_object_path e = os_child (ev_store ev) (ct_prefix c) name \<and>
     last_upload (ev_store ev) (wd_puts w) (ce_object_path e) b)"

lemma sync_table_frame:
  "sync_table ev t (c, w) = (r, (c', w')) \<Longrightarrow>
    wd_fs w' = wd_fs w \<and> ct_prefix c' = ct_prefix c \<and> ct_min_level c' = ct_min_level c"
  by (auto simp: sync_table_def Let_def unix_now_def world_now_def split: if_splits option.splits)

lemma sync_table_synced:
  "sync_table ev t (c, w) = (r, (c', w')) \<Longrightarrow> name \<noteq> base_name (st_path t) \<Longrightarrow>
    is_synced c' name \<longleftrightarrow> is_synced c name"
  by (auto simp: sync_table_def is_synced_def Let_def unix_now_def world_now_def map_add_def
      split: if_splits option.splits)

lemma sync_table_keeps:
  assumes "sync_table ev t (c, w) = (r, (c', w'))" "archived ev name b (c, w)"
    and "name \<noteq> base_name (st_path t) \<Longrightarrow>
      os_child (ev_store ev) (ct_prefix c) name \<noteq> os_child (ev_store ev) (ct_prefix c) (base_name (st_path t))"
  shows "archived ev name b (c', w')"
proof (cases "name = base_name (st_path t)")
  case True
  then have "is_synced c (base_name (st_path t))" using assms(2) by (auto simp: archived_def is_synced_def)
  then show ?thesis using assms(1,2) by (auto simp: sync_table_def Let_def)
next
  case False
  then show ?thesis
    using assms by (auto simp: sync_table_def archived_def Let_def unix_now_def world_now_def map_add_def
      intro!: last_upload_append split: if_splits option.splits)
qed

lemma sync_table_uploads:
  assumes "sync_table ev t (c, w) = (Ok up, (c', w'))" "ct_min_level c \<le> m_level (st_meta t)"
    and "base_name (st_path t) \<noteq> []" "\<not> is_synced c (base_name (st_path t))"
    and "map_of (wd_fs w) (st_path t) = Some b"
  shows "up \<and> archived ev (base_name (st_path t)) b (c', w')"
  using assms by (auto simp: sync_table_def archived_def is_synced_def Let_def unix_now_def world_now_def
      last_upload_new map_add_def split: if_splits)

definition distinct_objects :: "env \<Rightarrow> string \<Rightarrow> sstable list \<Rightarrow> bool" where
  "distinct_objects ev prefix ts \<longleftrightarrow> inj_on (os_child (ev_store ev) prefix) ((\<lambda>t. base_name (st_path t)) ` set ts) \<and>
     inj_on base_name (st_path ` set ts)"

lemma sync_loop_keeps:
  assumes "sync_loop ev ts k (c, w) = (Ok n, (c', w'))" "archived ev (base_name (st_path t)) b (c, w)"
    and "distinct_objects ev (ct_prefix c) (t # ts)"
  shows "archived ev (base_name (st_path t)) b (c', w') \<and> wd_fs w' = wd_fs w \<and> k \<le> n"
  using assms
proof (induction ts arbitrary: k c w)
  case (Cons u us)
  obtain up c1 w1 where u: "sync_table ev u (c, w) = (Ok up, (c1, w1))"
    "sync_loop ev us (if up then Suc k else k) (c1, w1) = (Ok n, (c', w'))"
    using Cons.prems(1) by (auto simp: bind_eff_def split: prod.splits outcome.splits)
  have "archived ev (base_name (st_path t)) b (c1, w1)"
    using sync_table_keeps [OF u(1) Cons.prems(2)] Cons.prems(3) by (auto simp: distinct_objects_def inj_on_def)
  moreover have "distinct_objects ev (ct_prefix c1) (t # us)"
    using sync_table_frame [OF u(1)] Cons.prems(3) by (auto simp: distinct_objects_def inj_on_def)
  ultimately show ?case
    using Cons.IH [OF u(2)] sync_table_frame [OF u(1)] by (auto split: if_splits)
qed (simp add: ret_def)

lemma sync_loop_prefix:
  "sync_loop ev ts k (c, w) = (r, (c', w')) \<Longrightarrow> ct_prefix c' = ct_prefix c"
proof (induction ts arbitrary: k c w)
  case (Cons u us)
  obtain up c1 w1 where u: "sync_table ev u (c, w) = (up, (c1, w1))" by (metis prod.exhaust)
  then show ?case
    using Cons sync_table_frame [OF u] by (cases up) (auto simp: bind_eff_def)
qed (simp add: ret_def)

lemma sync_loop_uploads:
  assumes "sync_loop ev ts k (c, w) = (Ok n, (c', w'))" "t \<in> set ts" "ct_min_level c \<le> m_level (st_meta t)"
    and "base_name (st_path t) \<noteq> []" "\<not> is_synced c (base_name (st_path t))"
    and "map_of (wd_fs w) (st_path t) = Some b" "distinct_objects ev (ct_prefix c) ts"
    and "\<forall>u \<in> set ts. st_path u = st_path t \<longrightarrow> u = t"
  shows "archived ev (base_name (st_path t)) b (c', w') \<and> wd_fs w' = wd_fs w \<and> k < n"
  using assms
proof (induction ts arbitrary: k c w)
  case (Cons u us)
  obtain up c1 w1 where u: "sync_table ev u (c, w) = (Ok up, (c1, w1))"
    "sync_loop ev us (if up then Suc k else k) (c1, w1) = (Ok n, (c', w'))"
    using Cons.prems(1) by (auto simp: bind_eff_def split: prod.splits outcome.splits)
  note fr = sync_table_frame [OF u(1)]
  have d: "distinct_objects ev (ct_prefix c1) us" "distinct_objects ev (ct_prefix c1) (t # us)"
    using fr Cons.prems(2,7) by (auto simp: distinct_objects_def inj_on_def)
  show ?case
  proof (cases "u = t")
    case True
    have up: "up \<and> archived ev (base_name (st_path t)) b (c1, w1)"
      using sync_table_uploads [OF u(1)] Cons.prems True by simp
    show ?thesis using sync_loop_keeps [OF u(2) conjunct2 [OF up] d(2)] fr up by auto
  next
    case False
    then have "base_name (st_path u) \<noteq> base_name (st_path t)"
      using Cons.prems(2,7,8) by (auto simp: distinct_objects_def inj_on_def)
    then have "\<not> is_synced c1 (base_name (st_path t))"
      using sync_table_synced [OF u(1)] Cons.prems(5) by metis
    then have "archived ev (base_name (st_path t)) b (c', w') \<and> wd_fs w' = wd_fs w1 \<and> (if up then Suc k else k) < n"
      using False Cons.prems fr d(1) by (intro Cons.IH [OF u(2)]) auto
    then show ?thesis using fr by (auto split: if_splits)
  qed
qed simp


lemma ensure_local_archived:
  assumes "store_keeps (ev_store ev)" "archived ev (base_name p) b (c, w)"
    and "os_from (ev_store ev) (os_child (ev_store ev) (ct_prefix c) (base_name p))
      = os_child (ev_store ev) (ct_prefix c) (base_name p)"
    and "map_of (wd_fs w) p = None"
  shows "ensure_local ev p (c, w) = (Ok p, (c, w\<lparr>wd_fs := fs_write p b (wd_fs w)\<rparr>))"
  using assms last_upload_get by (fastforce simp: ensure_local_def archived_def)

subsection \<open>Properties\<close>

text \<open>
  C31. Archiving is lossless: after a successful sync every local table at or above the minimum
  level that was not archived before can lose its local file, and \<open>ensure_local\<close> brings back
  exactly the bytes it had; it rests on the store returning the last accepted upload of a path
  and on tables with different paths having different names in the store.
\<close>

theorem cold_tier_restores:
  assumes "store_keeps (ev_store ev)" and "distinct_objects ev (ct_prefix c) ts"
    and "\<forall>u \<in> set ts. os_from (ev_store ev) (os_child (ev_store ev) (ct_prefix c) (base_name (st_path u)))
      = os_child (ev_store ev) (ct_prefix c) (base_name (st_path u))"
    and "sync_tables ev ts (c, w) = (Ok n, (c', w'))"
    and "t \<in> set ts" "\<forall>u \<in> set ts. st_path u = st_path t \<longrightarrow> u = t"
    and "ct_min_level c \<le> m_level (st_meta t)" "base_name (st_path t) \<noteq> []" "\<not> is_synced c (base_name (st_path t))"
    and "map_of (wd_fs w) (st_path t) = Some b"
  shows "0 < n \<and> (\<exists>w''. ensure_local ev (st_path t) (c', w'\<lparr>wd_fs := fs_remove (st_path t) (wd_fs w')\<rparr>)
    = (Ok (st_path t), (c', w'')) \<and> map_of (wd_fs w'') (st_path t) = Some b)"
proof -
  obtain c1 w1 m where l: "sync_loop ev ts 0 (c, w) = (Ok m, (c1, w1))"
    using assms(4) by (auto simp: sync_tables_def bind_eff_def split: prod.splits outcome.splits)
  note up = sync_loop_uploads [OF l assms(5,7-10,2,6)]
  have pre: "ct_prefix c1 = ct_prefix c"
    using l by (rule sync_loop_prefix)
  have "n = m" "c' = c1" "wd_puts w' = wd_puts w1"
    using assms(4) l up by (auto simp: sync_tables_def bind_eff_def save_manifest_def ret_def split: outcome.splits option.splits)
  then have "archived ev (base_name (st_path t)) b (c', w'\<lparr>wd_fs := fs_remove (st_path t) (wd_fs w')\<rparr>)" "0 < n"
    using up by (simp_all add: archived_def)
  moreover have "os_from (ev_store ev) (os_child (ev_store ev) (ct_prefix c') (base_name (st_path t)))
      = os_child (ev_store ev) (ct_prefix c') (base_name (st_path t))"
    using assms(3,5) pre \<open>c' = c1\<close> by simp
  ultimately show ?thesis using ensure_local_archived [OF assms(1)] by simp
qed

theorem cold_tier_restores_witness:
  "\<exists>t c w c' w'. m_level (st_meta t) = 2 \<and> map_of (wd_fs w) (st_path t) = Some [7, 8] \<and>
    sync_tables example_env [t] (c, w) = (Ok 1, (c', w')) \<and>
    (\<exists>w''. ensure_local example_env (st_path t) (c', w'\<lparr>wd_fs := fs_remove (st_path t) (wd_fs w')\<rparr>)
      = (Ok (st_path t), (c', w'')) \<and> map_of (wd_fs w'') (st_path t) = Some [7, 8])"
proof -
  let ?c = "\<lparr>ct_data_dir = ''d'', ct_prefix = ''p'', ct_min_level = 2, ct_manifest = []\<rparr>"
  let ?w = "example_world\<lparr>wd_fs := [(''d/L2_7.sst'', [7, 8])]\<rparr>"
  obtain t where t: "sst_write (\<lambda>x. 0) example_cz 1 ''d/L2_7.sst'' [] 2 dict_new = Ok t"
    using sst_write_total by blast
  have f: "st_path t = ''d/L2_7.sst''" "m_level (st_meta t) = 2"
    using sst_write_fields [OF t] by (simp_all add: write_meta_def)
  have n: "base_name ''d/L2_7.sst'' = ''L2_7.sst''" by code_simp
  have k: "store_keeps (ev_store example_env)"
  proof -
    have "map_of (rev later) p = None" if "p \<notin> fst ` set later" for p and later :: puts
      using that by (simp add: map_of_eq_None_iff)
    then show ?thesis by (simp add: store_keeps_def example_env_def example_store_def map_add_def)
  qed
  obtain c1 w1 where u: "sync_table example_env t (?c, ?w) = (Ok True, (c1, w1))"
    by (simp add: sync_table_def f n is_synced_def example_env_def example_store_def unix_now_def world_now_def Let_def)
  obtain w2 where "save_manifest (ev_store example_env) (c1, w1) = (Ok (), (c1, w2))"
    by (simp add: save_manifest_def example_env_def example_store_def)
  then have s: "sync_tables example_env [t] (?c, ?w) = (Ok 1, (c1, w2))"
    using u by (simp add: sync_tables_def eff_simps)
  have "\<exists>w''. ensure_local example_env (st_path t) (c1, w2\<lparr>wd_fs := fs_remove (st_path t) (wd_fs w2)\<rparr>)
      = (Ok (st_path t), (c1, w'')) \<and> map_of (wd_fs w'') (st_path t) = Some [7, 8]"
    by (rule conjunct2 [OF cold_tier_restores [OF k _ _ s]])
      (simp_all add: f n is_synced_def distinct_objects_def example_env_def example_store_def)
  then show ?thesis using s f by (intro exI [of _ t] exI [of _ ?c] exI [of _ ?w] exI [of _ c1] exI [of _ w2]) simp
qed

end
