(* ===== verification/Compaction.thy ===== *)
theory Compaction
  imports ColdTier
begin

text \<open>
  \<^verbatim>\<open>graphite-core/src/compaction.rs\<close>: the levels and the leveled compaction.  Its operations
  run on the part of the engine they touch: the manager, the files and the block cache.
\<close>

datatype compaction_error = CompSst sst_error | CompIo

record level =
  lv_num :: u32
  lv_tables :: "sstable list"

definition level_new :: "u32 \<Rightarrow> level" where
  "level_new n = \<lparr>lv_num = n, lv_tables = []\<rparr>"

definition total_size :: "level \<Rightarrow> u64" where
  "total_size l = sum_list (map (\<lambda>t. m_file_size (st_meta t)) (lv_tables l))"

definition add_table :: "sstable \<Rightarrow> level \<Rightarrow> level" where
  "add_table t l = l\<lparr>lv_tables := lv_tables l @ [t]\<rparr>"

record compaction_manager =
  cm_levels :: "level list"
  cm_data_dir :: string
  cm_symbol_dict :: symbol_dictionary
  cm_bytes_written :: u64
  cm_bytes_read :: u64

record engine =
  en_cm :: compaction_manager
  en_world :: world
  en_cache :: block_cache
  en_cold :: "cold_tier option"

definition cm_new :: "string \<Rightarrow> symbol_dictionary \<Rightarrow> compaction_manager" where
  "cm_new data_dir dict = \<lparr>cm_levels = [level_new 0], cm_data_dir = data_dir, cm_symbol_dict = dict,
     cm_bytes_written = 0, cm_bytes_read = 0\<rparr>"

definition block_size_target :: u64 where
  "block_size_target = 4 * 1024 * 1024"

definition target_size :: "nat \<Rightarrow> u64" where
  "target_size i = LEVEL_SIZE_RATIO ^ i * block_size_target"

definition needs_compaction :: "compaction_manager \<Rightarrow> bool" where
  "needs_compaction cm =
     (if cm_levels cm = [] then False
      else if L0_MAX_TABLES \<le> length (lv_tables (cm_levels cm ! 0)) then True
      else list_ex (\<lambda>i. total_size (cm_levels cm ! i) > target_size i) [1 ..< length (cm_levels cm)])"

text \<open>\<open>while levels.len() <= next\<close>: push empty levels.\<close>

definition extend_levels :: "nat \<Rightarrow> level list \<Rightarrow> level list" where
  "extend_levels n ls = ls @ map (\<lambda>i. level_new (of_nat i)) [length ls ..< Suc n]"

fun chunks :: "nat \<Rightarrow> 'a list \<Rightarrow> 'a list list" where
  "chunks n [] = []"
| "chunks n (x # xs) = (if n = 0 then [x # xs] else take n (x # xs) # chunks n (drop n (x # xs)))"

definition upd_cm :: "(compaction_manager \<Rightarrow> compaction_manager) \<Rightarrow> ('z engine_scheme, unit, 'e) eff" where
  "upd_cm f = upd_eff (\<lambda>s. s\<lparr>en_cm := f (en_cm s)\<rparr>)"

definition in_world :: "(world, 'a, 'e) eff \<Rightarrow> ('z engine_scheme, 'a, 'e) eff" where
  "in_world m s = (case m (en_world s) of (r, w) \<Rightarrow> (r, s\<lparr>en_world := w\<rparr>))"

definition map_err_eff :: "('e \<Rightarrow> 'f) \<Rightarrow> ('s, 'a, 'e) eff \<Rightarrow> ('s, 'a, 'f) eff" where
  "map_err_eff g m s = (case m s of (r, s') \<Rightarrow> (map_err g r, s'))"

definition engine_open :: "env \<Rightarrow> string \<Rightarrow> ('z engine_scheme, sstable, sst_error) eff" where
  "engine_open ev path = in_world (world_open ev path)"

text \<open>\<open>cold.ensure_local(path)\<close> where a cold tier is configured and the file is missing.\<close>

definition engine_ensure :: "env \<Rightarrow> string \<Rightarrow> ('z engine_scheme, unit, cold_error) eff" where
  "engine_ensure ev path s = (case en_cold s of
      None \<Rightarrow> (Ok (), s)
    | Some c \<Rightarrow>
        if map_of (wd_fs (en_world s)) path \<noteq> None then (Ok (), s)
        else case ensure_local ev path (c, en_world s) of
          (r, (c', w')) \<Rightarrow> (bind_outcome r (\<lambda>_. Ok ()), s\<lparr>en_cold := Some c', en_world := w'\<rparr>))"

text \<open>A scan through the shared cache.\<close>

definition engine_scan ::
  "env \<Rightarrow> sstable \<Rightarrow> u16 option \<Rightarrow> i64 \<Rightarrow> i64 \<Rightarrow> ('z engine_scheme, tick list, 'e) eff" where
  "engine_scan ev t symbol_id t1 t2 s =
     (case sst_scan (ev_cz ev) t symbol_id t1 t2 (Some (en_cache s)) of
        None \<Rightarrow> (Panic, s)
      | Some (ts, c) \<Rightarrow> (Ok ts, s\<lparr>en_cache := (case c of Some c' \<Rightarrow> c' | None \<Rightarrow> en_cache s)\<rparr>))"

definition engine_write ::
  "env \<Rightarrow> string \<Rightarrow> tick list \<Rightarrow> u32 \<Rightarrow> symbol_dictionary \<Rightarrow> ('z engine_scheme, sstable, sst_error) eff" where
  "engine_write ev path ticks level dict = in_world (world_write ev path ticks level dict)"

text \<open>Reading one input table: it is opened twice, the first time for its size.\<close>

definition compact_input :: "env \<Rightarrow> string \<Rightarrow> ('z engine_scheme, tick list, compaction_error) eff" where
  "compact_input ev path =
     bind_eff (map_err_eff CompSst (engine_open ev path)) (\<lambda>table.
     bind_eff (upd_cm (\<lambda>cm. cm\<lparr>cm_bytes_read := cm_bytes_read cm + m_file_size (st_meta table)\<rparr>)) (\<lambda>_.
     bind_eff (map_err_eff CompSst (engine_open ev path)) (\<lambda>t.
     engine_scan ev t None i64_min i64_max)))"

fun compact_inputs :: "env \<Rightarrow> string list \<Rightarrow> ('z engine_scheme, tick list, compaction_error) eff" where
  "compact_inputs ev [] = ret []"
| "compact_inputs ev (p # ps) =
     bind_eff (compact_input ev p) (\<lambda>ts. bind_eff (compact_inputs ev ps) (\<lambda>us. ret (ts @ us)))"

definition compact_output :: "env \<Rightarrow> nat \<Rightarrow> tick list \<Rightarrow> ('z engine_scheme, unit, compaction_error) eff" where
  "compact_output ev next_level chunk =
     bind_eff (in_world (\<lambda>w. case world_now ev w of (n, w') \<Rightarrow> (Ok n, w'))) (\<lambda>nanos.
     bind_eff (get_eff (\<lambda>s. sst_path (cm_data_dir (en_cm s)) next_level nanos)) (\<lambda>path.
     bind_eff (get_eff (\<lambda>s. cm_symbol_dict (en_cm s))) (\<lambda>dict.
     bind_eff (map_err_eff CompSst (engine_write ev path chunk (of_nat next_level) dict)) (\<lambda>table.
     upd_cm (\<lambda>cm. cm\<lparr>cm_bytes_written := cm_bytes_written cm + m_file_size (st_meta table),
       cm_levels := (cm_levels cm)[next_level := add_table table (cm_levels cm ! next_level)]\<rparr>)))))"

definition compact_level :: "env \<Rightarrow> nat \<Rightarrow> ('z engine_scheme, unit, compaction_error) eff" where
  "compact_level ev level_idx =
     bind_eff (get_eff (\<lambda>s. map st_path (lv_tables (cm_levels (en_cm s) ! level_idx)))) (\<lambda>table_paths.
     if table_paths = [] then ret ()
     else bind_eff (compact_inputs ev table_paths) (\<lambda>all_ticks.
       bind_eff (upd_eff (\<lambda>s. s\<lparr>en_world := (en_world s)\<lparr>wd_fs := fold fs_remove table_paths (wd_fs (en_world s))\<rparr>\<rparr>)) (\<lambda>_.
       bind_eff (upd_cm (\<lambda>cm. cm\<lparr>cm_levels := (cm_levels cm)[level_idx := (cm_levels cm ! level_idx)\<lparr>lv_tables := []\<rparr>]\<rparr>)) (\<lambda>_.
       let merged = merge_ticks all_ticks; next_level = level_idx + 1 in
       bind_eff (upd_cm (\<lambda>cm. cm\<lparr>cm_levels := extend_levels next_level (cm_levels cm)\<rparr>)) (\<lambda>_.
       for_eff (chunks 10000 merged) (compact_output ev next_level))))))"

definition compact :: "env \<Rightarrow> ('z engine_scheme, unit, compaction_error) eff" where
  "compact ev =
     bind_eff (get_eff (\<lambda>s. needs_compaction (en_cm s))) (\<lambda>needed.
     if \<not> needed then ret ()
     else bind_eff (get_eff (\<lambda>s. L0_MAX_TABLES \<le> length (lv_tables (cm_levels (en_cm s) ! 0)))) (\<lambda>l0.
       bind_eff (if l0 then compact_level ev 0 else ret ()) (\<lambda>_.
       bind_eff (get_eff (\<lambda>s. length (cm_levels (en_cm s)))) (\<lambda>n.
       for_eff [1 ..< n] (\<lambda>i.
         bind_eff (get_eff (\<lambda>s. total_size (cm_levels (en_cm s) ! i) > target_size i)) (\<lambda>big.
         if big then compact_level ev i else ret ()))))))"

definition write_amplification_factor :: "compaction_manager \<Rightarrow> f64" where
  "write_amplification_factor cm = (if cm_bytes_read cm = 0 then 0x3FF0000000000000
     else f64_div (f64_of_u64 (cm_bytes_written cm)) (f64_of_u64 (cm_bytes_read cm)))"

definition level_sizes :: "compaction_manager \<Rightarrow> u64 list" where
  "level_sizes cm = map total_size (cm_levels cm)"

definition total_sstables :: "compaction_manager \<Rightarrow> u64" where
  "total_sstables cm = sum_list (map (\<lambda>l. of_nat (length (lv_tables l))) (cm_levels cm))"

subsection \<open>The bytes read\<close>

definition none_read :: "'z engine_scheme \<Rightarrow> bool" where
  "none_read s \<longleftrightarrow> cm_bytes_read (en_cm s) = 0"

lemma none_read_open: "eff_inv none_read (map_err_eff CompSst (engine_open ev path)) (\<lambda>t. m_file_size (st_meta t) = 0)"
  by (auto simp: eff_inv_def map_err_eff_def engine_open_def in_world_def world_open_def Let_def none_read_def
      sst_open_file_size split: option.splits prod.splits)

lemma none_read_scan: "eff_inv none_read (engine_scan ev t symbol_id t1 t2) (\<lambda>_. True)"
  by (auto simp: eff_inv_def engine_scan_def none_read_def split: option.splits prod.splits)

lemma none_read_inputs: "eff_inv none_read (compact_inputs ev ps) (\<lambda>_. True)"
proof (induction ps)
  case (Cons p ps)
  have "eff_inv none_read (compact_input ev p) (\<lambda>_. True)"
    unfolding compact_input_def
    by (intro eff_inv_bind [OF none_read_open] eff_inv_bind [where R = "\<lambda>_. True"] none_read_scan)
      (auto simp: upd_cm_def none_read_def intro!: eff_inv_basic)
  then show ?case unfolding compact_inputs.simps
    by (intro eff_inv_bind [where R = "\<lambda>_. True"] Cons.IH eff_inv_basic) auto
qed (simp add: eff_inv_basic)

lemma none_read_output: "eff_inv none_read (compact_output ev next_level chunk) (\<lambda>_. True)"
proof -
  have "eff_inv none_read (in_world (\<lambda>w. case world_now ev w of (n, w') \<Rightarrow> (Ok n, w'))) (\<lambda>_. True)"
    "eff_inv none_read (map_err_eff CompSst (engine_write ev path chunk lvl dict)) (\<lambda>_. True)" for path lvl dict
    by (auto simp: eff_inv_def in_world_def map_err_eff_def engine_write_def none_read_def split: prod.splits)
  then show ?thesis
    unfolding compact_output_def
    by (intro eff_inv_bind [where R = "\<lambda>_. True"]) (auto simp: upd_cm_def none_read_def intro!: eff_inv_basic)
qed

lemma none_read_level: "eff_inv none_read (compact_level ev i) (\<lambda>_. True)"
  unfolding compact_level_def Let_def
  by (intro eff_inv_bind [where R = "\<lambda>_. True"] none_read_inputs eff_inv_for none_read_output)
    (auto simp: upd_cm_def none_read_def none_read_inputs none_read_output
      intro!: eff_inv_basic eff_inv_for eff_inv_bind [where R = "\<lambda>_. True"])

lemma none_read_compact: "eff_inv none_read (compact ev) (\<lambda>_. True)"
  unfolding compact_def
  by (auto intro!: eff_inv_basic eff_inv_for none_read_level eff_inv_bind [where R = "\<lambda>_. True"])

subsection \<open>Input tables that cannot be read\<close>

lemma compact_input_panics:
  assumes "map_of (wd_fs (en_world s)) p = Some (st_file t)"
    and "sst_write ln_f64 cz tid path ticks lvl dict = Ok t"
    and "ticks \<noteq> []" "length ticks \<le> 1048560" "length (st_file t) < 2 ^ 63"
  shows "fst (compact_input ev p s) = Panic \<and> wd_fs (en_world (snd (compact_input ev p s))) = wd_fs (en_world s)"
proof -
  have "sst_open (ev_lossy ev) tid' p (st_file t) = Panic" for tid'
    by (rule open_written [OF assms(2-5)])
  then have "map_err_eff CompSst (engine_open ev p) s =
      (Panic, s\<lparr>en_world := (en_world s)\<lparr>wd_next_id := wd_next_id (en_world s) + 1\<rparr>\<rparr>)"
    using assms(1) by (simp add: map_err_eff_def engine_open_def in_world_def world_open_def Let_def)
  then show ?thesis by (simp add: compact_input_def)
qed

subsection \<open>Properties\<close>

lemma concat_chunks: "concat (chunks n xs) = xs"
  by (induction n xs rule: chunks.induct) (simp_all add: append_assoc [symmetric] del: append_assoc)

text \<open>
  C40. What compaction writes is one tick per key, in key order, holding a tick for every key
  of its inputs; cutting it into files of 10000 neither loses nor reorders ticks.
\<close>

theorem compaction_merge_correct:
  "tick_sorted (merge_ticks ts) \<and> tick_key ` set (merge_ticks ts) = tick_key ` set ts \<and>
    set (merge_ticks ts) \<subseteq> set ts \<and> concat (chunks 10000 (merge_ticks ts)) = merge_ticks ts"
proof -
  have "k \<in> tick_key ` set (merge_ticks ts) \<longleftrightarrow> k \<in> tick_key ` set ts" for k
    using merge_ticks_spec(2) [of ts k] tick_lookup_None by metis
  moreover have "set (merge_ticks ts) \<subseteq> set ts"
    using set_dedup_ticks [of "sort_key tick_key ts"] by (simp add: merge_ticks_def)
  ultimately show ?thesis using merge_ticks_spec(1) concat_chunks by blast
qed

text \<open>
  Of several ticks with the same key compaction keeps the one of the oldest table, since
  tables are read oldest first and the sort is stable: an update that reached a later table is
  lost as soon as the two tables are compacted, although lookups prefer the newest table.
\<close>

theorem compaction_keeps_oldest:
  assumes "tick_lookup old k = Some t"
  shows "tick_lookup (merge_ticks (old @ new)) k = Some t"
proof -
  have "tick_lookup (old @ new) k = Some t" using assms by (induction old) (auto split: if_splits)
  then show ?thesis by (simp add: merge_ticks_spec)
qed

theorem compaction_keeps_oldest_witness:
  "tick_lookup (merge_ticks ([example_tick 0 5] @ [(example_tick 0 5)\<lparr>t_volume := 200\<rparr>])) (Key 0 5)
    = Some (example_tick 0 5)"
  by (rule compaction_keeps_oldest) (simp add: example_tick_def tick_key_def)

text \<open>
  Compaction never gets past its first input: once level 0 is full of tables that were
  written by a flush, every attempt panics on opening the first of them, and no file is touched.
\<close>

theorem compaction_panics:
  assumes "cm_levels (en_cm s) \<noteq> []" and "lv_tables (cm_levels (en_cm s) ! 0) = u # us" "3 \<le> length us"
    and "map_of (wd_fs (en_world s)) (st_path u) = Some (st_file t)"
    and "sst_write ln_f64 cz tid path ticks lvl dict = Ok t"
    and "ticks \<noteq> []" "length ticks \<le> 1048560" "length (st_file t) < 2 ^ 63"
  shows "fst (compact ev s) = Panic \<and> wd_fs (en_world (snd (compact ev s))) = wd_fs (en_world s)"
proof -
  obtain s' where s': "compact_input ev (st_path u) s = (Panic, s')" "wd_fs (en_world s') = wd_fs (en_world s)"
    using compact_input_panics [OF assms(4-8), of ev] by (metis prod.collapse)
  then have "compact_inputs ev (st_path u # map st_path us) s = (Panic, s')" by simp
  then have "compact_level ev 0 s = (Panic, s')"
    unfolding compact_level_def by (simp add: assms(2) del: compact_inputs.simps)
  moreover have "needs_compaction (en_cm s)" "L0_MAX_TABLES \<le> length (lv_tables (cm_levels (en_cm s) ! 0))"
    using assms(1-3) by (simp_all add: needs_compaction_def L0_MAX_TABLES_def)
  ultimately show ?thesis using s'(2) by (simp add: compact_def)
qed

theorem compaction_panics_witness:
  "\<exists>t. fst (compact example_env \<lparr>en_cm = (cm_new ''d'' dict_new)\<lparr>cm_levels := [\<lparr>lv_num = 0, lv_tables = [t, t, t, t]\<rparr>]\<rparr>,
      en_world = \<lparr>wd_fs = [(''a.sst'', st_file t)], wd_next_id = 2, wd_reads = 0, wd_puts = []\<rparr>,
      en_cache = cache_new 1, en_cold = None\<rparr>) = Panic"
proof -
  obtain t where t: "sst_write (\<lambda>x. 0x3FF0000000000000) example_cz 1 ''a.sst'' [example_tick 0 5] 0 example_dict = Ok t"
    using sst_write_total by blast
  then have "st_path t = ''a.sst''" by (rule sst_write_fields)
  then show ?thesis
    by (intro exI [of _ t] conjunct1 [OF compaction_panics [where u = t and us = "[t, t, t]", OF _ _ _ _ t _ _ example_file_small [OF t]]])
      (simp_all add: cm_new_def)
qed

text \<open>
  The reported write amplification is constantly 1: the manager counts the size of the
  tables it reads from their metadata after opening them, where it is always 0, so the count
  of bytes read never leaves 0 however often compaction runs.
\<close>

theorem compaction_write_amplification:
  assumes "cm_bytes_read (en_cm s) = 0"
  shows "cm_bytes_read (en_cm (snd (compact ev s))) = 0 \<and>
    write_amplification_factor (en_cm (snd (compact ev s))) = 0x3FF0000000000000"
  using none_read_compact [of ev] assms
  by (auto simp: eff_inv_def none_read_def write_amplification_factor_def)

theorem compaction_write_amplification_witness:
  "write_amplification_factor (en_cm (snd (compact example_env \<lparr>en_cm = cm_new ''d'' dict_new,
      en_world = \<lparr>wd_fs = [], wd_next_id = 1, wd_reads = 0, wd_puts = []\<rparr>,
      en_cache = cache_new 1, en_cold = None\<rparr>))) = 0x3FF0000000000000"
  by (rule conjunct2 [OF compaction_write_amplification]) (simp add: cm_new_def)

end
