(* ===== verification/Memtable.thy ===== *)
theory Memtable
  imports Types
begin

text \<open>
  The contract between the LSM-tree and its memtable: the operations the tree calls and
  what each promises about the ticks the table stands for, a list in strictly increasing
  key order.  An operation returns \<open>None\<close> where the implementation would follow a bad
  pointer or not return; the contract excludes it.
\<close>

fun insert_all :: "('s \<Rightarrow> tick \<Rightarrow> 's option) \<Rightarrow> 's \<Rightarrow> tick list \<Rightarrow> 's option" where
  "insert_all ins s [] = Some s"
| "insert_all ins s (t # ts) = Option.bind (ins s t) (\<lambda>s'. insert_all ins s' ts)"

text \<open>The contents after a sequence of writes; a later write of the same key wins.\<close>

definition tick_insert_all :: "tick list \<Rightarrow> tick list \<Rightarrow> tick list" where
  "tick_insert_all ts us = foldl (\<lambda>acc t. tick_insert t acc) ts us"

lemma tick_insert_all_simps [simp]:
  "tick_insert_all ts [] = ts"
  "tick_insert_all ts (u # us) = tick_insert_all (tick_insert u ts) us"
  "tick_insert_all ts (us @ vs) = tick_insert_all (tick_insert_all ts us) vs"
  by (simp_all add: tick_insert_all_def)

lemma tick_sorted_insert_all: "tick_sorted ts \<Longrightarrow> tick_sorted (tick_insert_all ts us)"
  by (induction us arbitrary: ts) (auto simp: tick_sorted_insert)

fun last_write :: "tick list \<Rightarrow> key \<Rightarrow> tick option" where
  "last_write [] k = None"
| "last_write (t # ts) k = (case last_write ts k of
      Some u \<Rightarrow> Some u | None \<Rightarrow> if tick_key t = k then Some t else None)"

lemma tick_lookup_insert_all:
  "tick_sorted ts \<Longrightarrow> tick_lookup (tick_insert_all ts us) k
    = (case last_write us k of Some u \<Rightarrow> Some u | None \<Rightarrow> tick_lookup ts k)"
  by (induction us arbitrary: ts)
    (auto simp: tick_lookup_insert tick_sorted_insert split: option.splits)

lemma tick_lookup_writes: "tick_lookup (tick_insert_all [] us) k = last_write us k"
  by (simp add: tick_lookup_insert_all split: option.splits)

locale memtable =
  fixes rep :: "'s \<Rightarrow> tick list \<Rightarrow> bool"
    and ins :: "'s \<Rightarrow> tick \<Rightarrow> 's option"
    and get :: "'s \<Rightarrow> key \<Rightarrow> tick option option"
    and iter :: "'s \<Rightarrow> tick list option"
    and drain :: "'s \<Rightarrow> (tick list \<times> 's) option"
    and len :: "'s \<Rightarrow> nat"
  assumes rep_sorted: "rep s ts \<Longrightarrow> tick_sorted ts"
    and len_rep: "rep s ts \<Longrightarrow> len s = length ts"
    and ins_rep: "rep s ts \<Longrightarrow> \<exists>s'. ins s t = Some s' \<and> rep s' (tick_insert t ts)"
    and get_rep: "rep s ts \<Longrightarrow> get s k = Some (tick_lookup ts k)"
    and iter_rep: "rep s ts \<Longrightarrow> iter s = Some ts"
    and drain_rep: "rep s ts \<Longrightarrow> \<exists>s'. drain s = Some (ts, s') \<and> rep s' []"
begin

lemma insert_all_rep:
  "rep s ts \<Longrightarrow> \<exists>s'. insert_all ins s us = Some s' \<and> rep s' (tick_insert_all ts us)"
proof (induction us arbitrary: s ts)
  case Nil
  then show ?case by simp
next
  case (Cons u us)
  obtain s' where "ins s u = Some s'" "rep s' (tick_insert u ts)"
    using ins_rep [OF Cons.prems] by blast
  with Cons.IH [of s'] show ?case by auto
qed

lemma get_insert_all:
  assumes "rep s []"
  shows "\<exists>s'. insert_all ins s us = Some s' \<and> get s' k = Some (last_write us k)"
proof -
  obtain s' where s': "insert_all ins s us = Some s'" "rep s' (tick_insert_all [] us)"
    using insert_all_rep [OF assms] by blast
  have "get s' k = Some (tick_lookup (tick_insert_all [] us) k)"
    using s'(2) by (rule get_rep)
  also have "\<dots> = Some (last_write us k)" by (simp only: tick_lookup_writes)
  finally show ?thesis using s'(1) by blast
qed

lemma get_iff_iter:
  "rep s ts \<Longrightarrow> get s k = Some (Some t) \<longleftrightarrow> (\<exists>us. iter s = Some us \<and> t \<in> set us \<and> tick_key t = k)"
  using rep_sorted [of s ts] by (simp add: get_rep iter_rep tick_lookup_Some)

end

end
