(* ===== verification/SkipList.thy ===== *)
theory SkipList
  imports Memtable
begin

text \<open>
  \<^verbatim>\<open>graphite-core/src/skip_list.rs\<close>: the memtable.  Nodes live in a heap of raw pointers;
  an address is a number, \<open>None\<close> is the null pointer, \<open>Box::new\<close> allocates at a fresh address
  and \<open>drop(Box::from_raw(p))\<close> removes the cell.  Every operation returns an option: \<open>None\<close>
  is a dereference of a null or freed pointer, or a loop that does not end, and the
  theorems show that it never happens on a list the module built.  The random level
  comes from a sequence of draws of \<^verbatim>\<open>thread_rng().gen::<f64>()\<close>, kept beside the list.
\<close>

definition MAX_LEVEL :: nat where "MAX_LEVEL = 16"
definition SKIP_P :: f64 where "SKIP_P = 0x3FD0000000000000"

record sl_node =
  n_key :: key
  n_tick :: tick
  n_forward :: "nat option list"

record skip_list =
  sl_heap :: "nat \<Rightarrow> sl_node option"
  sl_fresh :: nat
  sl_head :: nat
  sl_level :: nat
  sl_len :: nat
  sl_rng :: "nat \<Rightarrow> f64"

definition node_new :: "key \<Rightarrow> tick \<Rightarrow> sl_node" where
  "node_new k t = \<lparr>n_key = k, n_tick = t, n_forward = replicate (MAX_LEVEL + 1) None\<rparr>"

definition head_tick :: tick where
  "head_tick = \<lparr>t_symbol_id = 0, t_timestamp = i64_min, t_open = 0, t_high = 0, t_low = 0,
     t_close = 0, t_volume = 0\<rparr>"

definition sl_new :: "(nat \<Rightarrow> f64) \<Rightarrow> skip_list" where
  "sl_new rng = \<lparr>sl_heap = (\<lambda>_. None)(0 := Some (node_new (Key 0 i64_min) head_tick)),
     sl_fresh = 1, sl_head = 0, sl_level = 0, sl_len = 0, sl_rng = rng\<rparr>"

text \<open>The loop of \<open>random_level\<close> has made \<open>lvl\<close> draws when it tests the next one; it returns
  the level and the number of draws made.\<close>

function random_level :: "(nat \<Rightarrow> f64) \<Rightarrow> nat \<Rightarrow> nat \<times> nat" where
  "random_level rng lvl =
     (if f64_lt (rng lvl) SKIP_P \<and> lvl < MAX_LEVEL then random_level rng (Suc lvl)
      else (lvl, Suc lvl))"
  by pat_completeness auto
termination
  by (relation "measure (\<lambda>(rng, lvl). MAX_LEVEL - lvl)") auto

declare random_level.simps [simp del]

text \<open>\<open>(*a).forward[i]\<close>.\<close>

definition sl_next :: "(nat \<Rightarrow> sl_node option) \<Rightarrow> nat \<Rightarrow> nat \<Rightarrow> nat option option" where
  "sl_next h i a = (case h a of None \<Rightarrow> None
     | Some nd \<Rightarrow> if i < length (n_forward nd) then Some (n_forward nd ! i) else None)"

text \<open>The inner loop of \<open>insert\<close> and \<open>get\<close>: advance on level \<open>i\<close> while the next key is less.\<close>

partial_function (option) sl_walk :: "(nat \<Rightarrow> sl_node option) \<Rightarrow> nat \<Rightarrow> key \<Rightarrow> nat \<Rightarrow> nat option"
where
  "sl_walk h i k cur =
     (case sl_next h i cur of
        None \<Rightarrow> None
      | Some None \<Rightarrow> Some cur
      | Some (Some nx) \<Rightarrow>
          (case h nx of
             None \<Rightarrow> None
           | Some nd \<Rightarrow> if key_cmp (n_key nd) k \<noteq> Less then Some cur else sl_walk h i k nx))"

text \<open>\<open>for i in (0..=level).rev()\<close>: from level \<open>n - 1\<close> down to 0, collecting \<open>update\<close>.\<close>

fun sl_descend :: "(nat \<Rightarrow> sl_node option) \<Rightarrow> key \<Rightarrow> nat \<Rightarrow> nat \<Rightarrow> nat option list
    \<Rightarrow> (nat \<times> nat option list) option" where
  "sl_descend h k 0 cur upd = Some (cur, upd)"
| "sl_descend h k (Suc i) cur upd =
     (case sl_walk h i k cur of
        None \<Rightarrow> None
      | Some c \<Rightarrow> sl_descend h k i c (upd[i := Some c]))"

text \<open>The splice loop \<open>for i in 0..=new_level\<close>.\<close>

definition sl_set_next :: "(nat \<Rightarrow> sl_node option) \<Rightarrow> nat \<Rightarrow> nat \<Rightarrow> nat option
    \<Rightarrow> (nat \<Rightarrow> sl_node option) option" where
  "sl_set_next h i a p = (case h a of None \<Rightarrow> None
     | Some nd \<Rightarrow> if i < length (n_forward nd)
         then Some (h(a := Some (nd\<lparr>n_forward := (n_forward nd)[i := p]\<rparr>))) else None)"

fun sl_splice :: "nat list \<Rightarrow> nat \<Rightarrow> nat option list \<Rightarrow> (nat \<Rightarrow> sl_node option)
    \<Rightarrow> (nat \<Rightarrow> sl_node option) option" where
  "sl_splice [] new upd h = Some h"
| "sl_splice (i # ls) new upd h =
     (case upd ! i of
        None \<Rightarrow> None
      | Some u \<Rightarrow>
          Option.bind (sl_next h i u) (\<lambda>p.
          Option.bind (sl_set_next h i new p) (\<lambda>h1.
          Option.bind (sl_set_next h1 i u (Some new)) (\<lambda>h2.
          sl_splice ls new upd h2))))"

definition sl_insert :: "skip_list \<Rightarrow> tick \<Rightarrow> skip_list option" where
  "sl_insert s t =
     (let k = tick_key t;
          (new_level, draws) = random_level (sl_rng s) 0;
          rng' = (\<lambda>n. sl_rng s (n + draws))
      in Option.bind
           (sl_descend (sl_heap s) k (Suc (sl_level s)) (sl_head s)
              (replicate (MAX_LEVEL + 1) None))
           (\<lambda>(cur, upd).
              Option.bind (sl_next (sl_heap s) 0 cur) (\<lambda>next0.
              let fresh_insert =
                 (let upd' = (if sl_level s < new_level
                              then map (\<lambda>i. if sl_level s < i \<and> i \<le> new_level
                                            then Some (sl_head s) else upd ! i)
                                     [0 ..< length upd]
                              else upd);
                      new = sl_fresh s
                  in Option.bind
                       (sl_splice [0 ..< Suc new_level] new upd'
                          ((sl_heap s)(new := Some (node_new k t))))
                       (\<lambda>h. Some (s\<lparr>sl_heap := h, sl_fresh := Suc new,
                              sl_level := max (sl_level s) new_level,
                              sl_len := Suc (sl_len s), sl_rng := rng'\<rparr>)))
              in case next0 of
                   None \<Rightarrow> fresh_insert
                 | Some nx \<Rightarrow>
                     (case sl_heap s nx of
                        None \<Rightarrow> None
                      | Some nd \<Rightarrow>
                          if n_key nd = k
                          then Some (s\<lparr>sl_heap := (sl_heap s)(nx := Some (nd\<lparr>n_tick := t\<rparr>)),
                                 sl_rng := rng'\<rparr>)
                          else fresh_insert))))"

definition sl_get :: "skip_list \<Rightarrow> key \<Rightarrow> tick option option" where
  "sl_get s k =
     Option.bind
       (sl_descend (sl_heap s) k (Suc (sl_level s)) (sl_head s) (replicate (MAX_LEVEL + 1) None))
       (\<lambda>(cur, _).
          Option.bind (sl_next (sl_heap s) 0 cur) (\<lambda>next.
          case next of
            None \<Rightarrow> Some None
          | Some nx \<Rightarrow>
              (case sl_heap s nx of
                 None \<Rightarrow> None
               | Some nd \<Rightarrow> Some (if n_key nd = k then Some (n_tick nd) else None))))"

text \<open>\<open>iter().collect()\<close> and the reading loop of \<open>drain\<close>: follow level 0 to the null pointer.\<close>

partial_function (option) sl_collect ::
  "(nat \<Rightarrow> sl_node option) \<Rightarrow> nat option \<Rightarrow> tick list option"
where
  "sl_collect h p = (case p of
      None \<Rightarrow> Some []
    | Some a \<Rightarrow> (case h a of
        None \<Rightarrow> None
      | Some nd \<Rightarrow> Option.bind (sl_next h 0 a) (\<lambda>p'.
          Option.bind (sl_collect h p') (\<lambda>ts. Some (n_tick nd # ts)))))"

definition sl_iter :: "skip_list \<Rightarrow> tick list option" where
  "sl_iter s = Option.bind (sl_next (sl_heap s) 0 (sl_head s)) (sl_collect (sl_heap s))"

text \<open>\<open>clear\<close>: free every node, null the head's pointers up to the level.\<close>

partial_function (option) sl_free ::
  "(nat \<Rightarrow> sl_node option) \<Rightarrow> nat option \<Rightarrow> (nat \<Rightarrow> sl_node option) option"
where
  "sl_free h p = (case p of
      None \<Rightarrow> Some h
    | Some a \<Rightarrow> Option.bind (sl_next h 0 a) (\<lambda>p'. sl_free (h(a := None)) p'))"

definition sl_clear :: "skip_list \<Rightarrow> skip_list option" where
  "sl_clear s =
     Option.bind (sl_next (sl_heap s) 0 (sl_head s)) (\<lambda>p.
     Option.bind (sl_free (sl_heap s) p) (\<lambda>h.
     Option.bind (foldl (\<lambda>ho i. Option.bind ho (\<lambda>h. sl_set_next h i (sl_head s) None))
                    (Some h) [0 ..< Suc (sl_level s)]) (\<lambda>h'.
     Some (s\<lparr>sl_heap := h', sl_level := 0, sl_len := 0\<rparr>))))"

definition sl_drain :: "skip_list \<Rightarrow> (tick list \<times> skip_list) option" where
  "sl_drain s = Option.bind (sl_iter s) (\<lambda>ts. map_option (\<lambda>s'. (ts, s')) (sl_clear s))"

text \<open>\<open>Drop\<close>: clear, then free the head.\<close>

definition sl_drop :: "skip_list \<Rightarrow> (nat \<Rightarrow> sl_node option) option" where
  "sl_drop s = Option.bind (sl_clear s) (\<lambda>s'.
     case sl_heap s' (sl_head s') of None \<Rightarrow> None
     | Some _ \<Rightarrow> Some ((sl_heap s')(sl_head s' := None)))"

subsection \<open>Paths through the forward pointers\<close>

primrec lpath :: "(nat \<Rightarrow> sl_node option) \<Rightarrow> nat \<Rightarrow> nat option \<Rightarrow> nat list \<Rightarrow> bool" where
  "lpath h i p [] \<longleftrightarrow> p = None"
| "lpath h i p (a # as) \<longleftrightarrow> p = Some a \<and> (\<exists>q. sl_next h i a = Some q \<and> lpath h i q as)"

lemma lpath_cong:
  "\<forall>a \<in> set as. sl_next h i a = sl_next h' i a \<Longrightarrow> lpath h i p as = lpath h' i p as"
  by (induction as arbitrary: p) auto

lemma lpath_suffix:
  "lpath h i p (xs @ c # ys) \<Longrightarrow> \<exists>q. sl_next h i c = Some q \<and> lpath h i q ys"
  by (induction xs arbitrary: p) auto

lemma lpath_last:
  "sl_next h i c = Some q \<Longrightarrow> lpath h i q (xs @ ys)
    \<Longrightarrow> \<exists>q'. sl_next h i (last (c # xs)) = Some q' \<and> lpath h i q' ys"
  by (induction xs arbitrary: c q) auto

lemma lpath_first: "lpath h i p (b # ys) \<Longrightarrow> p = Some b"
  by simp

lemma sl_next_dom: "sl_next h i a = Some q \<Longrightarrow> \<exists>nd. h a = Some nd"
  by (auto simp: sl_next_def split: option.splits)

lemma sl_walk_path:
  assumes "sl_next h i c = Some q" "lpath h i q (xs @ ys)"
    "\<forall>a \<in> set xs. n_key (the (h a)) < k" "\<forall>b zs. ys = b # zs \<longrightarrow> \<not> n_key (the (h b)) < k"
  shows "sl_walk h i k c = Some (last (c # xs))"
  using assms
proof (induction xs arbitrary: c q)
  case Nil
  show ?case
  proof (cases ys)
    case Nil
    with \<open>lpath h i q ([] @ ys)\<close> \<open>sl_next h i c = Some q\<close> show ?thesis
      by (subst sl_walk.simps) simp
  next
    case (Cons b zs)
    with Nil.prems have "q = Some b" "\<not> n_key (the (h b)) < k" "\<exists>nd. h b = Some nd"
      by (auto dest: sl_next_dom)
    with Nil.prems show ?thesis
      by (subst sl_walk.simps) (auto simp: key_cmp_iff)
  qed
next
  case (Cons x xs)
  then obtain q' where q: "q = Some x" and x: "sl_next h i x = Some q'" "lpath h i q' (xs @ ys)"
    by auto
  obtain nd where "h x = Some nd" using x(1) sl_next_dom by blast
  with Cons.prems have nd: "h x = Some nd" "n_key nd < k" by auto
  have "sl_walk h i k c = sl_walk h i k x"
    using Cons.prems(1) q nd by (subst sl_walk.simps) (simp add: key_cmp_iff)
  also have "\<dots> = Some (last (x # xs))"
    using Cons.IH [OF x] Cons.prems by simp
  finally show ?case by simp
qed

text \<open>Inserting \<open>new\<close> after the last element of \<open>xs\<close> on one level.\<close>

lemma lpath_insert:
  assumes "sl_next h i c = Some q" "lpath h i q (xs @ ys)" "distinct (c # xs @ ys)"
    "new \<notin> set (c # xs @ ys)"
    "\<And>a. sl_next h' i a = (if a = new then sl_next h i (last (c # xs))
       else if a = last (c # xs) then Some (Some new) else sl_next h i a)"
  shows "\<exists>q'. sl_next h' i c = Some q' \<and> lpath h' i q' (xs @ new # ys)"
  using assms
proof (induction xs arbitrary: c q)
  case Nil
  have "lpath h' i q ys = lpath h i q ys"
    using Nil.prems(3-5) by (intro lpath_cong) auto
  with Nil.prems show ?case by simp
next
  case (Cons x xs)
  then obtain q' where q: "q = Some x" "sl_next h i x = Some q'" "lpath h i q' (xs @ ys)"
    by auto
  have upd: "sl_next h' i a = (if a = new then sl_next h i (last (x # xs))
       else if a = last (x # xs) then Some (Some new) else sl_next h i a)" for a
    using Cons.prems(5) by simp
  have "\<exists>q'. sl_next h' i x = Some q' \<and> lpath h' i q' (xs @ new # ys)"
    using Cons.prems(3,4) by (intro Cons.IH [OF q(2,3) _ _ upd]) auto
  moreover have "c \<noteq> last (x # xs)" "c \<noteq> new"
    using Cons.prems(3,4) by (metis Un_iff distinct.simps(2) last_in_set list.distinct(1)
        append_Cons set_append, simp)
  then have "sl_next h' i c = Some (Some x)"
    using upd [of c] Cons.prems(1) q(1) by simp
  ultimately show ?case by simp
qed

subsection \<open>The structural invariant\<close>

text \<open>
  \<open>as\<close> lists the addresses of the elements in key order, \<open>hgt\<close> gives the level each was
  inserted with (the node does not store it).  On every level \<open>i\<close> the forward pointers run
  from the head through exactly the elements of height at least \<open>i\<close> to null.
\<close>

abbreviation sl_key :: "(nat \<Rightarrow> sl_node option) \<Rightarrow> nat \<Rightarrow> key" where
  "sl_key h a \<equiv> n_key (the (h a))"

abbreviation sl_tick :: "(nat \<Rightarrow> sl_node option) \<Rightarrow> nat \<Rightarrow> tick" where
  "sl_tick h a \<equiv> n_tick (the (h a))"

definition heap_ok :: "(nat \<Rightarrow> sl_node option) \<Rightarrow> bool" where
  "heap_ok h \<longleftrightarrow> (\<forall>a nd. h a = Some nd \<longrightarrow> length (n_forward nd) = MAX_LEVEL + 1)"

definition on_level :: "(nat \<Rightarrow> nat) \<Rightarrow> nat \<Rightarrow> nat list \<Rightarrow> nat list" where
  "on_level hgt i as = filter (\<lambda>a. i \<le> hgt a) as"

definition sl_inv :: "skip_list \<Rightarrow> nat list \<Rightarrow> (nat \<Rightarrow> nat) \<Rightarrow> bool" where
  "sl_inv s as hgt \<longleftrightarrow>
     dom (sl_heap s) = insert (sl_head s) (set as) \<and> sl_head s \<notin> set as \<and> distinct as \<and>
     heap_ok (sl_heap s) \<and> (\<forall>a \<in> dom (sl_heap s). a < sl_fresh s) \<and>
     (\<forall>a \<in> set as. sl_key (sl_heap s) a = tick_key (sl_tick (sl_heap s) a)) \<and>
     sorted_wrt (<) (map (sl_key (sl_heap s)) as) \<and>
     sl_level s \<le> MAX_LEVEL \<and> sl_len s = length as \<and> (\<forall>a \<in> set as. hgt a \<le> sl_level s) \<and>
     (\<forall>i \<le> MAX_LEVEL. \<exists>q. sl_next (sl_heap s) i (sl_head s) = Some q \<and>
        lpath (sl_heap s) i q (on_level hgt i as))"

definition sl_ticks :: "skip_list \<Rightarrow> nat list \<Rightarrow> tick list" where
  "sl_ticks s as = map (sl_tick (sl_heap s)) as"

text \<open>The list \<open>ts\<close> of ticks that a well-formed skip list stands for.\<close>

definition sl_rep :: "skip_list \<Rightarrow> tick list \<Rightarrow> bool" where
  "sl_rep s ts \<longleftrightarrow> (\<exists>as hgt. sl_inv s as hgt \<and> ts = sl_ticks s as)"

lemma on_level_simps [simp]:
  "on_level hgt i [] = []"
  "on_level hgt i (xs @ ys) = on_level hgt i xs @ on_level hgt i ys"
  "on_level hgt 0 xs = xs"
  "set (on_level hgt i xs) = {a \<in> set xs. i \<le> hgt a}"
  "distinct xs \<Longrightarrow> distinct (on_level hgt i xs)"
  by (simp_all add: on_level_def)

lemma on_level_Cons:
  "on_level hgt i (a # xs) = (if i \<le> hgt a then a # on_level hgt i xs else on_level hgt i xs)"
  by (simp add: on_level_def)

lemma on_level_cong: "\<forall>a \<in> set xs. hgt a = hgt' a \<Longrightarrow> on_level hgt i xs = on_level hgt' i xs"
  by (auto simp: on_level_def intro: filter_cong)

lemma sl_rep_sorted: "sl_rep s ts \<Longrightarrow> tick_sorted ts"
  unfolding sl_rep_def sl_inv_def sl_ticks_def tick_sorted_def
  by (auto simp: comp_def cong: map_cong)

lemma sl_rep_len: "sl_rep s ts \<Longrightarrow> sl_len s = length ts"
  by (auto simp: sl_rep_def sl_inv_def sl_ticks_def)

lemma sl_rep_new: "sl_rep (sl_new rng) []"
proof -
  have "sl_inv (sl_new rng) [] (\<lambda>_. 0)"
    by (auto simp: sl_inv_def sl_new_def heap_ok_def node_new_def sl_next_def nth_Cons')
  then show ?thesis by (force simp: sl_rep_def sl_ticks_def)
qed

text \<open>The elements before and from a key on.\<close>

lemma key_split:
  assumes "sorted_wrt (<) (map f as)"
  obtains pre post where "as = pre @ post" "\<forall>a \<in> set pre. f a < (k :: key)"
    "\<forall>a \<in> set post. k \<le> f a"
proof
  show "as = takeWhile (\<lambda>a. f a < k) as @ dropWhile (\<lambda>a. f a < k) as" by simp
  show "\<forall>a \<in> set (takeWhile (\<lambda>a. f a < k) as). f a < k"
    by (auto dest: set_takeWhileD)
  show "\<forall>a \<in> set (dropWhile (\<lambda>a. f a < k) as). k \<le> f a"
    using assms by (induction as) (auto dest: less_imp_le intro: order.trans)
qed

subsection \<open>Searching\<close>

text \<open>The node where the search for a key stops on level \<open>i\<close>: the last element of height at
  least \<open>i\<close> before the key, or the head.\<close>

definition last_at :: "nat \<Rightarrow> (nat \<Rightarrow> nat) \<Rightarrow> nat list \<Rightarrow> nat \<Rightarrow> nat" where
  "last_at h0 hgt pre i = last (h0 # on_level hgt i pre)"

lemma last_at_cases:
  "last_at h0 hgt pre i = h0 \<or> last_at h0 hgt pre i \<in> set pre \<and> i \<le> hgt (last_at h0 hgt pre i)"
proof -
  have "last_at h0 hgt pre i \<in> set (h0 # on_level hgt i pre)"
    unfolding last_at_def by (rule last_in_set) simp
  then show ?thesis by auto
qed

lemma sl_walk_level:
  assumes inv: "sl_inv s (pre @ post) hgt" and i: "i \<le> MAX_LEVEL"
    and pre: "\<forall>a \<in> set pre. sl_key (sl_heap s) a < k"
    and post: "\<forall>a \<in> set post. k \<le> sl_key (sl_heap s) a"
    and cur: "cur = sl_head s \<or> cur \<in> set pre \<and> i \<le> hgt cur"
  shows "sl_walk (sl_heap s) i k cur = Some (last_at (sl_head s) hgt pre i)"
proof -
  let ?h = "sl_heap s" and ?xs = "on_level hgt i pre" and ?ys = "on_level hgt i post"
  obtain q where q: "sl_next ?h i (sl_head s) = Some q" "lpath ?h i q (?xs @ ?ys)"
    using inv i by (auto simp: sl_inv_def)
  have ys: "\<forall>b zs. ?ys = b # zs \<longrightarrow> \<not> sl_key ?h b < k"
  proof (intro allI impI)
    fix b zs
    assume "?ys = b # zs"
    then have "b \<in> set ?ys" by simp
    with post show "\<not> sl_key ?h b < k" by (auto simp: not_less)
  qed
  show ?thesis
  proof (cases "cur = sl_head s")
    case True
    with sl_walk_path [OF q] pre ys show ?thesis by (auto simp: last_at_def)
  next
    case False
    with cur obtain p1 p2 where p: "pre = p1 @ cur # p2" "i \<le> hgt cur"
      by (auto simp: in_set_conv_decomp)
    let ?zs = "on_level hgt i p2"
    have xs: "?xs = on_level hgt i p1 @ cur # ?zs"
      using p by (simp add: on_level_Cons)
    have "lpath ?h i q (on_level hgt i p1 @ cur # (?zs @ ?ys))"
      using q(2) xs by simp
    then obtain q' where q': "sl_next ?h i cur = Some q'" "lpath ?h i q' (?zs @ ?ys)"
      by (blast dest: lpath_suffix)
    have "sl_walk ?h i k cur = Some (last (cur # ?zs))"
      using sl_walk_path [OF q'] pre ys p by auto
    then show ?thesis by (simp add: last_at_def xs)
  qed
qed

lemma sl_descend_levels:
  assumes inv: "sl_inv s (pre @ post) hgt" and n: "n \<le> Suc MAX_LEVEL" "n \<le> length upd"
    and pre: "\<forall>a \<in> set pre. sl_key (sl_heap s) a < k"
    and post: "\<forall>a \<in> set post. k \<le> sl_key (sl_heap s) a"
    and cur: "cur = sl_head s \<or> cur \<in> set pre \<and> n \<le> hgt cur"
  shows "\<exists>upd'. sl_descend (sl_heap s) k n cur upd
       = Some (if n = 0 then cur else last_at (sl_head s) hgt pre 0, upd') \<and>
     length upd' = length upd \<and> (\<forall>j < length upd. upd' ! j =
       (if j < n then Some (last_at (sl_head s) hgt pre j) else upd ! j))"
  using n cur
proof (induction n arbitrary: cur upd)
  case 0
  then show ?case by simp
next
  case (Suc n)
  let ?c = "last_at (sl_head s) hgt pre n"
  have walk: "sl_walk (sl_heap s) n k cur = Some ?c"
    using Suc.prems by (intro sl_walk_level [OF inv _ pre post]) auto
  have c: "?c = sl_head s \<or> ?c \<in> set pre \<and> n \<le> hgt ?c"
    by (rule last_at_cases)
  obtain upd' where "sl_descend (sl_heap s) k n ?c (upd[n := Some ?c])
       = Some (if n = 0 then ?c else last_at (sl_head s) hgt pre 0, upd')"
     "length upd' = length upd" "\<forall>j < length upd. upd' ! j =
       (if j < n then Some (last_at (sl_head s) hgt pre j) else upd[n := Some ?c] ! j)"
    using Suc.IH [of "upd[n := Some ?c]" ?c] Suc.prems c by auto
  then show ?case using walk by (auto simp: nth_list_update less_Suc_eq)
qed

text \<open>What \<open>insert\<close> and \<open>get\<close> see after the descent: the predecessors on every level and the
  first element whose key is not less.\<close>

lemma sl_search:
  assumes inv: "sl_inv s (pre @ post) hgt"
    and pre: "\<forall>a \<in> set pre. sl_key (sl_heap s) a < k"
    and post: "\<forall>a \<in> set post. k \<le> sl_key (sl_heap s) a"
  obtains upd where
    "sl_descend (sl_heap s) k (Suc (sl_level s)) (sl_head s) (replicate (MAX_LEVEL + 1) None)
       = Some (last_at (sl_head s) hgt pre 0, upd)"
    "length upd = MAX_LEVEL + 1"
    "\<forall>j \<le> sl_level s. upd ! j = Some (last_at (sl_head s) hgt pre j)"
    "sl_next (sl_heap s) 0 (last_at (sl_head s) hgt pre 0)
       = Some (case post of [] \<Rightarrow> None | b # _ \<Rightarrow> Some b)"
proof -
  have lvl: "sl_level s \<le> MAX_LEVEL" using inv by (simp add: sl_inv_def)
  obtain q where "sl_next (sl_heap s) 0 (sl_head s) = Some q" "lpath (sl_heap s) 0 q (pre @ post)"
    using inv by (auto simp: sl_inv_def)
  then obtain q' where q': "sl_next (sl_heap s) 0 (last_at (sl_head s) hgt pre 0) = Some q'"
    "lpath (sl_heap s) 0 q' post"
    using lpath_last unfolding last_at_def by fastforce
  then have "q' = (case post of [] \<Rightarrow> None | b # _ \<Rightarrow> Some b)"
    by (cases post) auto
  moreover obtain upd where
    "sl_descend (sl_heap s) k (Suc (sl_level s)) (sl_head s) (replicate (MAX_LEVEL + 1) None)
       = Some (last_at (sl_head s) hgt pre 0, upd)" "length upd = MAX_LEVEL + 1"
    "\<forall>j \<le> sl_level s. upd ! j = Some (last_at (sl_head s) hgt pre j)"
    using sl_descend_levels [OF inv _ _ pre post, of "Suc (sl_level s)"
        "replicate (MAX_LEVEL + 1) None" "sl_head s"] lvl by auto
  ultimately show ?thesis using that q' by blast
qed

lemma sl_inv_dom: "sl_inv s as hgt \<Longrightarrow> a \<in> set as \<Longrightarrow> \<exists>nd. sl_heap s a = Some nd"
  by (auto simp: sl_inv_def)

lemma sl_inv_key:
  "sl_inv s as hgt \<Longrightarrow> a \<in> set as \<Longrightarrow> tick_key (sl_tick (sl_heap s) a) = sl_key (sl_heap s) a"
  unfolding sl_inv_def by metis

lemma sl_rep_split:
  assumes "sl_rep s ts"
  obtains as pre post hgt where "sl_inv s as hgt" "ts = sl_ticks s as" "as = pre @ post"
    "\<forall>a \<in> set pre. sl_key (sl_heap s) a < k" "\<forall>a \<in> set post. k \<le> sl_key (sl_heap s) a"
proof -
  obtain as hgt where inv: "sl_inv s as hgt" and ts: "ts = sl_ticks s as"
    using assms by (auto simp: sl_rep_def)
  have "sorted_wrt (<) (map (sl_key (sl_heap s)) as)"
    using inv by (simp add: sl_inv_def)
  then obtain pre post where "as = pre @ post" "\<forall>a \<in> set pre. sl_key (sl_heap s) a < k"
    "\<forall>a \<in> set post. k \<le> sl_key (sl_heap s) a"
    by (rule key_split)
  with inv ts show ?thesis by (rule that)
qed

lemma sl_get_correct:
  assumes "sl_rep s ts"
  shows "sl_get s k = Some (tick_lookup ts k)"
proof -
  obtain as pre post hgt where inv: "sl_inv s as hgt" and ts: "ts = sl_ticks s as"
    and as: "as = pre @ post" and pre: "\<forall>a \<in> set pre. sl_key (sl_heap s) a < k"
    and post: "\<forall>a \<in> set post. k \<le> sl_key (sl_heap s) a"
    using assms by (rule sl_rep_split)
  obtain upd where upd:
    "sl_descend (sl_heap s) k (Suc (sl_level s)) (sl_head s) (replicate (MAX_LEVEL + 1) None)
       = Some (last_at (sl_head s) hgt pre 0, upd)"
    "sl_next (sl_heap s) 0 (last_at (sl_head s) hgt pre 0)
       = Some (case post of [] \<Rightarrow> None | b # _ \<Rightarrow> Some b)"
    using sl_search [OF inv [unfolded as] pre post] by blast
  have key: "tick_key (sl_tick (sl_heap s) a) = sl_key (sl_heap s) a" if "a \<in> set as" for a
    using inv that by (simp add: sl_inv_def)
  have "\<forall>t \<in> set (map (sl_tick (sl_heap s)) pre). tick_key t \<noteq> k"
    using pre key as by auto
  then have low: "tick_lookup (map (sl_tick (sl_heap s)) (pre @ zs)) k
      = tick_lookup (map (sl_tick (sl_heap s)) zs) k" for zs
    unfolding map_append by (rule tick_lookup_skip)
  show ?thesis
  proof (cases post)
    case Nil
    then show ?thesis using upd low [of "[]"] as ts by (simp add: sl_get_def sl_ticks_def)
  next
    case (Cons b zs)
    obtain nd where nd: "sl_heap s b = Some nd"
      using sl_inv_dom [OF inv] as Cons by auto
    have rest: "tick_lookup (map (sl_tick (sl_heap s)) zs) k = None" if "n_key nd \<noteq> k"
    proof -
      have "k < sl_key (sl_heap s) a" if "a \<in> set zs" for a
        using inv as Cons that post nd \<open>n_key nd \<noteq> k\<close>
        by (auto simp: sl_inv_def sorted_wrt_append intro: le_less_trans)
      then show ?thesis using key as Cons by (force simp: tick_lookup_None)
    qed
    show ?thesis
      using upd low [of "b # zs"] Cons as ts nd key [of b] rest
      by (auto simp: sl_get_def sl_ticks_def)
  qed
qed

subsection \<open>Inserting\<close>

lemma random_level_bound: "lvl \<le> MAX_LEVEL \<Longrightarrow> fst (random_level rng lvl) \<le> MAX_LEVEL"
proof (induction rng lvl rule: random_level.induct)
  case (1 rng lvl)
  then show ?case by (subst random_level.simps) auto
qed

text \<open>Two heaps with the same nodes, up to the forward pointers.\<close>

definition same_nodes :: "(nat \<Rightarrow> sl_node option) \<Rightarrow> (nat \<Rightarrow> sl_node option) \<Rightarrow> bool" where
  "same_nodes h h' \<longleftrightarrow> dom h' = dom h \<and> (heap_ok h \<longrightarrow> heap_ok h') \<and>
     (\<forall>a. sl_key h' a = sl_key h a \<and> sl_tick h' a = sl_tick h a)"

lemma same_nodes_refl [simp]: "same_nodes h h"
  by (simp add: same_nodes_def)

lemma same_nodes_trans: "same_nodes h h' \<Longrightarrow> same_nodes h' h'' \<Longrightarrow> same_nodes h h''"
  by (auto simp: same_nodes_def)

lemma sl_set_next_ok:
  assumes "heap_ok h" "a \<in> dom h" "i \<le> MAX_LEVEL"
  obtains h' where "sl_set_next h i a p = Some h'" "same_nodes h h'"
    "\<And>j b. sl_next h' j b = (if j = i \<and> b = a then Some p else sl_next h j b)"
proof -
  obtain nd where nd: "h a = Some nd" using assms by auto
  have len: "length (n_forward nd) = MAX_LEVEL + 1" using assms nd by (auto simp: heap_ok_def)
  let ?h' = "h(a := Some (nd\<lparr>n_forward := (n_forward nd)[i := p]\<rparr>))"
  have "sl_set_next h i a p = Some ?h'"
    using nd len assms by (simp add: sl_set_next_def)
  moreover have "same_nodes h ?h'"
    using nd by (auto simp: same_nodes_def heap_ok_def)
  moreover have "sl_next ?h' j b = (if j = i \<and> b = a then Some p else sl_next h j b)" for j b
    using nd len assms by (auto simp: sl_next_def nth_list_update)
  ultimately show ?thesis by (rule that)
qed

lemma sl_next_total: "heap_ok h \<Longrightarrow> a \<in> dom h \<Longrightarrow> i \<le> MAX_LEVEL \<Longrightarrow> \<exists>p. sl_next h i a = Some p"
  by (auto simp: sl_next_def heap_ok_def split: option.splits)

lemma sl_splice_ok:
  assumes "heap_ok h" "new \<in> dom h" "distinct ls"
    "\<forall>i \<in> set ls. i \<le> MAX_LEVEL \<and> upd ! i = Some (u i) \<and> u i \<in> dom h \<and> u i \<noteq> new"
  shows "\<exists>h'. sl_splice ls new upd h = Some h' \<and> same_nodes h h' \<and>
    (\<forall>j a. sl_next h' j a = (if j \<in> set ls \<and> a = new then sl_next h j (u j)
       else if j \<in> set ls \<and> a = u j then Some (Some new) else sl_next h j a))"
  using assms
proof (induction ls arbitrary: h)
  case Nil
  then show ?case by simp
next
  case (Cons i ls)
  then have i: "i \<le> MAX_LEVEL" "upd ! i = Some (u i)" "u i \<in> dom h" "u i \<noteq> new" "i \<notin> set ls"
    by auto
  obtain p where p: "sl_next h i (u i) = Some p"
    using sl_next_total Cons.prems(1) i by blast
  obtain h1 where h1: "sl_set_next h i new p = Some h1" "same_nodes h h1"
    "\<And>j b. sl_next h1 j b = (if j = i \<and> b = new then Some p else sl_next h j b)"
    using sl_set_next_ok [OF Cons.prems(1,2) i(1)] by blast
  then have ok1: "heap_ok h1" "new \<in> dom h1" "u i \<in> dom h1"
    using Cons.prems i by (auto simp: same_nodes_def)
  obtain h2 where h2: "sl_set_next h1 i (u i) (Some new) = Some h2" "same_nodes h1 h2"
    "\<And>j b. sl_next h2 j b = (if j = i \<and> b = u i then Some (Some new) else sl_next h1 j b)"
    using sl_set_next_ok [OF ok1(1,3) i(1)] by blast
  then have ok2: "heap_ok h2" "dom h2 = dom h" "new \<in> dom h2" and sn: "same_nodes h h2"
    using ok1 h1(2) by (auto simp: same_nodes_def)
  obtain h' where h': "sl_splice ls new upd h2 = Some h'" "same_nodes h2 h'"
    "\<And>j a. sl_next h' j a = (if j \<in> set ls \<and> a = new then sl_next h2 j (u j)
       else if j \<in> set ls \<and> a = u j then Some (Some new) else sl_next h2 j a)"
    using Cons.IH [of h2] Cons.prems ok2 by auto
  have "sl_splice (i # ls) new upd h = Some h'"
    using i p h1(1) h2(1) h'(1) by simp
  moreover have "same_nodes h h'"
    using sn h'(2) by (rule same_nodes_trans)
  moreover have "sl_next h' j a = (if j \<in> set (i # ls) \<and> a = new then sl_next h j (u j)
       else if j \<in> set (i # ls) \<and> a = u j then Some (Some new) else sl_next h j a)" for j a
    using h'(3) [of j a] h2(3) h1(3) i p Cons.prems(4) by auto
  ultimately show ?case by blast
qed

text \<open>The overwriting case: only the tick of one node changes.\<close>

lemma sl_inv_overwrite:
  assumes inv: "sl_inv s as hgt" and b: "b \<in> set as" "sl_heap s b = Some nd" "n_key nd = tick_key t"
  shows "sl_inv (s\<lparr>sl_heap := (sl_heap s)(b := Some (nd\<lparr>n_tick := t\<rparr>)), sl_rng := r\<rparr>) as hgt"
proof -
  let ?h' = "(sl_heap s)(b := Some (nd\<lparr>n_tick := t\<rparr>))"
  have nxt: "sl_next ?h' i a = sl_next (sl_heap s) i a" for i a
    using b by (simp add: sl_next_def)
  then have "lpath ?h' i q xs = lpath (sl_heap s) i q xs" for i q xs
    by (intro lpath_cong) simp
  moreover have key: "sl_key ?h' a = sl_key (sl_heap s) a" for a
    using b by simp
  moreover have "heap_ok ?h'" using inv b by (auto simp: sl_inv_def heap_ok_def)
  ultimately show ?thesis
    using inv b nxt by (auto simp: sl_inv_def cong: map_cong)
qed

text \<open>The splicing case: a fresh node of height \<open>nl\<close> goes between \<open>pre\<close> and \<open>post\<close>.\<close>

lemma sl_level_fresh:
  assumes inv: "sl_inv s (pre @ post) hgt" and i: "i \<le> MAX_LEVEL" and new: "new \<notin> dom (sl_heap s)"
    and nxt: "\<And>a. sl_next h' i a =
       (if i \<le> nl \<and> a = new then sl_next (sl_heap s) i (last_at (sl_head s) hgt pre i)
        else if i \<le> nl \<and> a = last_at (sl_head s) hgt pre i then Some (Some new)
        else if a = new then Some None else sl_next (sl_heap s) i a)"
  shows "\<exists>q. sl_next h' i (sl_head s) = Some q \<and>
    lpath h' i q (on_level (hgt(new := nl)) i (pre @ new # post))"
proof -
  let ?h = "sl_heap s" and ?xs = "on_level hgt i pre" and ?ys = "on_level hgt i post"
  obtain q where q: "sl_next ?h i (sl_head s) = Some q" "lpath ?h i q (?xs @ ?ys)"
    using inv i by (auto simp: sl_inv_def)
  have mem: "new \<notin> set pre" "new \<notin> set post" "new \<noteq> sl_head s" "distinct (sl_head s # pre @ post)"
    using inv new by (auto simp: sl_inv_def)
  then have dist: "distinct (sl_head s # ?xs @ ?ys)" "new \<notin> set (sl_head s # ?xs @ ?ys)"
    by auto
  have lvl: "on_level (hgt(new := nl)) i pre = ?xs" "on_level (hgt(new := nl)) i post = ?ys"
    using mem by (auto intro!: on_level_cong)
  show ?thesis
  proof (cases "i \<le> nl")
    case True
    have upd: "sl_next h' i a = (if a = new then sl_next ?h i (last (sl_head s # ?xs))
        else if a = last (sl_head s # ?xs) then Some (Some new) else sl_next ?h i a)" for a
      using nxt [of a] True by (simp add: last_at_def)
    show ?thesis
      using lpath_insert [OF q dist upd] True lvl by (simp add: on_level_Cons)
  next
    case False
    then have same: "sl_next h' i a = sl_next ?h i a" if "a \<noteq> new" for a
      using nxt [of a] that by simp
    have "\<forall>a \<in> set (?xs @ ?ys). sl_next h' i a = sl_next ?h i a"
      using dist(2) same by (metis list.set_intros(2))
    then have "lpath h' i q (?xs @ ?ys) = lpath ?h i q (?xs @ ?ys)"
      by (rule lpath_cong)
    then show ?thesis
      using False q same mem lvl by (simp add: on_level_Cons)
  qed
qed

lemma sl_inv_fresh:
  assumes inv: "sl_inv s (pre @ post) hgt" and nl: "nl \<le> MAX_LEVEL"
    and pre: "\<forall>a \<in> set pre. sl_key (sl_heap s) a < tick_key t"
    and post: "\<forall>a \<in> set post. tick_key t < sl_key (sl_heap s) a"
    and new: "new = sl_fresh s"
    and nodes: "same_nodes ((sl_heap s)(new := Some (node_new (tick_key t) t))) h'"
    and nxt: "\<And>i a. i \<le> MAX_LEVEL \<Longrightarrow> sl_next h' i a =
       (if i \<le> nl \<and> a = new then sl_next (sl_heap s) i (last_at (sl_head s) hgt pre i)
        else if i \<le> nl \<and> a = last_at (sl_head s) hgt pre i then Some (Some new)
        else if a = new then Some None else sl_next (sl_heap s) i a)"
  shows "sl_inv (s\<lparr>sl_heap := h', sl_fresh := Suc new, sl_level := max (sl_level s) nl,
       sl_len := Suc (sl_len s), sl_rng := r\<rparr>) (pre @ new # post) (hgt(new := nl))"
    and "map (sl_tick h') (pre @ new # post)
       = map (sl_tick (sl_heap s)) pre @ t # map (sl_tick (sl_heap s)) post"
proof -
  let ?h = "sl_heap s"
  have fresh: "new \<notin> dom ?h" using inv new by (auto simp: sl_inv_def)
  then have mem: "new \<notin> set pre" "new \<notin> set post" "new \<noteq> sl_head s"
    using inv by (auto simp: sl_inv_def)
  have keys: "sl_key h' a = (if a = new then tick_key t else sl_key ?h a)"
    and ticks: "sl_tick h' a = (if a = new then t else sl_tick ?h a)" for a
    using nodes by (auto simp: same_nodes_def node_new_def)
  have "heap_ok (?h(new := Some (node_new (tick_key t) t)))"
    using inv by (auto simp: sl_inv_def heap_ok_def node_new_def)
  then have ok: "heap_ok h'" using nodes by (simp add: same_nodes_def)
  have dm: "dom h' = insert new (dom ?h)" using nodes by (auto simp: same_nodes_def)
  have srt: "sorted_wrt (<) (map (sl_key h') (pre @ new # post))"
  proof -
    have "map (sl_key h') (pre @ new # post)
        = map (sl_key ?h) pre @ tick_key t # map (sl_key ?h) post"
      using mem by (auto simp: keys)
    moreover have "sorted_wrt (<) (map (sl_key ?h) pre @ map (sl_key ?h) post)"
      using inv by (simp add: sl_inv_def)
    ultimately show ?thesis using pre post
      by (simp only:) (auto simp: sorted_wrt_append)
  qed
  have "\<forall>a \<in> set (pre @ post). hgt a \<le> sl_level s" using inv by (simp add: sl_inv_def)
  then have hg: "\<forall>a \<in> set (pre @ new # post). (hgt(new := nl)) a \<le> max (sl_level s) nl"
    using mem by (auto intro: max.coboundedI1)
  have lev: "\<forall>i \<le> MAX_LEVEL. \<exists>q. sl_next h' i (sl_head s) = Some q \<and>
      lpath h' i q (on_level (hgt(new := nl)) i (pre @ new # post))"
    using sl_level_fresh [OF inv _ fresh nxt] by blast
  show "map (sl_tick h') (pre @ new # post)
       = map (sl_tick ?h) pre @ t # map (sl_tick ?h) post"
    using mem by (simp add: ticks)
  show "sl_inv (s\<lparr>sl_heap := h', sl_fresh := Suc new, sl_level := max (sl_level s) nl,
       sl_len := Suc (sl_len s), sl_rng := r\<rparr>) (pre @ new # post) (hgt(new := nl))"
    using inv nl mem dm ok srt lev new keys ticks hg unfolding sl_inv_def
    by (auto simp: less_Suc_eq)
qed

lemma last_at_above: "\<forall>a \<in> set pre. hgt a < i \<Longrightarrow> last_at h0 hgt pre i = h0"
  by (auto simp: last_at_def on_level_def filter_empty_conv not_le)

lemma last_at_dom: "sl_inv s (pre @ post) hgt \<Longrightarrow> last_at (sl_head s) hgt pre i \<in> dom (sl_heap s)"
  using last_at_cases [of "sl_head s" hgt pre i] by (auto simp: sl_inv_def)

text \<open>The fresh branch as a whole, for the \<open>update\<close> array the search and the level raise leave.\<close>

lemma sl_fresh_branch:
  assumes inv: "sl_inv s (pre @ post) hgt" and nl: "nl \<le> MAX_LEVEL"
    and pre: "\<forall>a \<in> set pre. sl_key (sl_heap s) a < tick_key t"
    and post: "\<forall>a \<in> set post. tick_key t < sl_key (sl_heap s) a"
    and upd: "\<forall>j \<le> nl. upd ! j = Some (last_at (sl_head s) hgt pre j)"
  shows "\<exists>h. sl_splice [0 ..< Suc nl] (sl_fresh s) upd
       ((sl_heap s)(sl_fresh s := Some (node_new (tick_key t) t))) = Some h \<and>
     sl_rep (s\<lparr>sl_heap := h, sl_fresh := Suc (sl_fresh s), sl_level := max (sl_level s) nl,
       sl_len := Suc (sl_len s), sl_rng := r\<rparr>) (tick_insert t (sl_ticks s (pre @ post)))"
proof -
  let ?new = "sl_fresh s" and ?last = "last_at (sl_head s) hgt pre"
  let ?h0 = "(sl_heap s)(?new := Some (node_new (tick_key t) t))"
  have fresh: "?new \<notin> dom (sl_heap s)" using inv by (auto simp: sl_inv_def)
  have ok: "heap_ok ?h0" using inv by (auto simp: sl_inv_def heap_ok_def node_new_def)
  have last: "?last j \<in> dom (sl_heap s)" "?last j \<noteq> ?new" for j
    using last_at_dom [OF inv] fresh by metis+
  obtain h' where h': "sl_splice [0 ..< Suc nl] ?new upd ?h0 = Some h'" "same_nodes ?h0 h'"
    "\<And>j a. sl_next h' j a = (if j \<in> set [0 ..< Suc nl] \<and> a = ?new then sl_next ?h0 j (?last j)
       else if j \<in> set [0 ..< Suc nl] \<and> a = ?last j then Some (Some ?new) else sl_next ?h0 j a)"
    using sl_splice_ok [OF ok, of ?new "[0 ..< Suc nl]" upd ?last] nl upd last by auto
  have nxt: "sl_next h' i a = (if i \<le> nl \<and> a = ?new then sl_next (sl_heap s) i (?last i)
      else if i \<le> nl \<and> a = ?last i then Some (Some ?new)
      else if a = ?new then Some None else sl_next (sl_heap s) i a)" if "i \<le> MAX_LEVEL" for i a
    using h'(3) [of i a] last [of i] that
    by (auto simp: sl_next_def node_new_def nth_Cons' less_Suc_eq_le simp del: upt_Suc)
  note fr = sl_inv_fresh [OF inv nl pre post refl h'(2) nxt]
  have key: "tick_key (sl_tick (sl_heap s) a) = sl_key (sl_heap s) a" if "a \<in> set (pre @ post)" for a
    using inv that by (rule sl_inv_key)
  have "tick_insert t (sl_ticks s post) = t # sl_ticks s post"
    using post key by (cases post) (auto simp: sl_ticks_def)
  then have "tick_insert t (sl_ticks s (pre @ post)) = sl_ticks s pre @ t # sl_ticks s post"
    using tick_insert_split [of "sl_ticks s pre" t "sl_ticks s post"] pre key
    by (auto simp: sl_ticks_def)
  also have "\<dots> = map (sl_tick h') (pre @ ?new # post)"
    using fr(2) by (simp add: sl_ticks_def)
  finally show ?thesis using h'(1) fr(1) unfolding sl_rep_def sl_ticks_def by fastforce
qed

text \<open>The overwriting branch: the first element from the key on has the key.\<close>

lemma sl_overwrite_branch:
  assumes inv: "sl_inv s (pre @ b # zs) hgt" and nd: "sl_heap s b = Some nd" "n_key nd = tick_key t"
    and pre: "\<forall>a \<in> set pre. sl_key (sl_heap s) a < tick_key t"
  shows "sl_rep (s\<lparr>sl_heap := (sl_heap s)(b := Some (nd\<lparr>n_tick := t\<rparr>)), sl_rng := r\<rparr>)
    (tick_insert t (sl_ticks s (pre @ b # zs)))"
proof -
  have key: "tick_key (sl_tick (sl_heap s) a) = sl_key (sl_heap s) a" if "a \<in> set (pre @ b # zs)" for a
    using inv that by (rule sl_inv_key)
  have b: "b \<notin> set pre" "b \<notin> set zs" using inv by (auto simp: sl_inv_def)
  have "tick_insert t (sl_ticks s (pre @ b # zs)) = sl_ticks s pre @ t # sl_ticks s zs"
    using tick_insert_split [of "sl_ticks s pre" t "sl_ticks s (b # zs)"] pre key key [of b] nd
    by (auto simp: sl_ticks_def)
  also have "\<dots> = map (sl_tick ((sl_heap s)(b := Some (nd\<lparr>n_tick := t\<rparr>)))) (pre @ b # zs)"
    using b by (simp add: sl_ticks_def)
  finally show ?thesis
    using sl_inv_overwrite [OF inv _ nd, of r] unfolding sl_rep_def sl_ticks_def by fastforce
qed

theorem sl_insert_correct:
  assumes "sl_rep s ts"
  shows "\<exists>s'. sl_insert s t = Some s' \<and> sl_rep s' (tick_insert t ts)"
proof -
  obtain as pre post hgt where inv: "sl_inv s as hgt" and ts: "ts = sl_ticks s as"
    and as: "as = pre @ post" and pre: "\<forall>a \<in> set pre. sl_key (sl_heap s) a < tick_key t"
    and post: "\<forall>a \<in> set post. tick_key t \<le> sl_key (sl_heap s) a"
    using assms by (rule sl_rep_split)
  note inv' = inv [unfolded as]
  let ?last = "last_at (sl_head s) hgt pre"
  obtain nl draws where rl: "random_level (sl_rng s) 0 = (nl, draws)" by fastforce
  have nl: "nl \<le> MAX_LEVEL" using random_level_bound [of 0 "sl_rng s"] rl by simp
  obtain upd where desc:
    "sl_descend (sl_heap s) (tick_key t) (Suc (sl_level s)) (sl_head s)
       (replicate (MAX_LEVEL + 1) None) = Some (?last 0, upd)"
    and upd: "length upd = MAX_LEVEL + 1" "\<forall>j \<le> sl_level s. upd ! j = Some (?last j)"
    and next0: "sl_next (sl_heap s) 0 (?last 0)
       = Some (case post of [] \<Rightarrow> None | b # _ \<Rightarrow> Some b)"
    using sl_search [OF inv' pre post] by blast
  let ?upd' = "if sl_level s < nl then map (\<lambda>i. if sl_level s < i \<and> i \<le> nl then Some (sl_head s)
      else upd ! i) [0 ..< length upd] else upd"
  have top: "?last j = sl_head s" if "sl_level s < j" for j
  proof (rule last_at_above)
    have "\<forall>a \<in> set as. hgt a \<le> sl_level s" using inv by (simp add: sl_inv_def)
    then show "\<forall>a \<in> set pre. hgt a < j" using that as by (auto intro: le_less_trans)
  qed
  have upd': "\<forall>j \<le> nl. ?upd' ! j = Some (?last j)"
  proof (intro allI impI)
    fix j
    assume "j \<le> nl"
    then show "?upd' ! j = Some (?last j)"
      using upd nl top [of j] by (cases "j \<le> sl_level s") (auto simp: not_le simp del: upt_Suc)
  qed
  let ?r = "\<lambda>n. sl_rng s (n + draws)"
  show ?thesis
  proof (cases "\<exists>b zs. post = b # zs \<and> sl_key (sl_heap s) b = tick_key t")
    case True
    then obtain b zs where b: "post = b # zs" "sl_key (sl_heap s) b = tick_key t" by blast
    obtain nd where nd: "sl_heap s b = Some nd"
      using sl_inv_dom [OF inv] as b by auto
    show ?thesis
      using sl_overwrite_branch [OF inv' [unfolded b] nd _ pre, of ?r] desc next0 b nd ts as rl
      by (simp add: sl_insert_def Let_def)
  next
    case False
    have "tick_key t < sl_key (sl_heap s) a" if a: "a \<in> set post" for a
    proof (cases post)
      case (Cons b zs)
      have "tick_key t < sl_key (sl_heap s) b" using False post Cons by (auto simp: le_less)
      then show ?thesis
        using inv' a Cons by (auto simp: sl_inv_def sorted_wrt_append intro: less_trans)
    qed (use a in simp)
    then obtain h where "sl_splice [0 ..< Suc nl] (sl_fresh s) ?upd'
         ((sl_heap s)(sl_fresh s := Some (node_new (tick_key t) t))) = Some h"
      "sl_rep (s\<lparr>sl_heap := h, sl_fresh := Suc (sl_fresh s), sl_level := max (sl_level s) nl,
       sl_len := Suc (sl_len s), sl_rng := ?r\<rparr>) (tick_insert t ts)"
      using sl_fresh_branch [OF inv' nl pre _ upd', of ?r] ts as by blast
    moreover have "sl_insert s t = Option.bind (sl_splice [0 ..< Suc nl] (sl_fresh s) ?upd'
         ((sl_heap s)(sl_fresh s := Some (node_new (tick_key t) t))))
       (\<lambda>h. Some (s\<lparr>sl_heap := h, sl_fresh := Suc (sl_fresh s),
          sl_level := max (sl_level s) nl, sl_len := Suc (sl_len s), sl_rng := ?r\<rparr>))"
    proof (cases post)
      case Nil
      then show ?thesis
        unfolding sl_insert_def Let_def rl prod.case desc bind.bind_lunit next0 by simp
    next
      case (Cons b zs)
      then obtain nd where "sl_heap s b = Some nd" "n_key nd \<noteq> tick_key t"
        using sl_inv_dom [OF inv, of b] as False by auto
      with Cons show ?thesis
        unfolding sl_insert_def Let_def rl prod.case desc bind.bind_lunit next0 by simp
    qed
    ultimately show ?thesis by simp
  qed
qed

subsection \<open>Reading, clearing and dropping\<close>

lemma sl_collect_path:
  "lpath h 0 p as \<Longrightarrow> sl_collect h p = Some (map (sl_tick h) as)"
proof (induction as arbitrary: p)
  case Nil
  then show ?case by (subst sl_collect.simps) simp
next
  case (Cons a as)
  then obtain q where q: "p = Some a" "sl_next h 0 a = Some q" "lpath h 0 q as" by auto
  then obtain nd where "h a = Some nd" using sl_next_dom by blast
  with q Cons.IH [OF q(3)] show ?case by (subst sl_collect.simps) simp
qed

lemma sl_free_path:
  "lpath h 0 p as \<Longrightarrow> distinct as \<Longrightarrow> sl_free h p = Some (\<lambda>a. if a \<in> set as then None else h a)"
proof (induction as arbitrary: h p)
  case Nil
  then show ?case by (subst sl_free.simps) simp
next
  case (Cons a as)
  then obtain q where q: "p = Some a" "sl_next h 0 a = Some q" "lpath h 0 q as" by auto
  have "\<forall>b \<in> set as. sl_next h 0 b = sl_next (h(a := None)) 0 b"
    using Cons.prems(2) by (auto simp: sl_next_def)
  then have "lpath (h(a := None)) 0 q as" using q(3) lpath_cong by blast
  then have "sl_free (h(a := None)) q
      = Some (\<lambda>b. if b \<in> set as then None else (h(a := None)) b)"
    using Cons.IH Cons.prems(2) by simp
  then have "sl_free h p = Some (\<lambda>b. if b \<in> set as then None else (h(a := None)) b)"
    using q by (subst sl_free.simps) simp
  moreover have "(\<lambda>b. if b \<in> set as then None else (h(a := None)) b)
      = (\<lambda>b. if b \<in> set (a # as) then None else h b)"
    by auto
  ultimately show ?case by simp
qed

lemma sl_null_head:
  assumes "heap_ok h" "a \<in> dom h" "n \<le> Suc MAX_LEVEL"
  shows "\<exists>h'. foldl (\<lambda>ho i. Option.bind ho (\<lambda>h. sl_set_next h i a None)) (Some h) [0 ..< n]
      = Some h' \<and> same_nodes h h' \<and>
    (\<forall>j b. sl_next h' j b = (if j < n \<and> b = a then Some None else sl_next h j b))"
  using assms(3)
proof (induction n)
  case 0
  then show ?case by simp
next
  case (Suc n)
  then obtain h1 where h1: "foldl (\<lambda>ho i. Option.bind ho (\<lambda>h. sl_set_next h i a None)) (Some h) [0 ..< n]
      = Some h1" "same_nodes h h1"
    "\<And>j b. sl_next h1 j b = (if j < n \<and> b = a then Some None else sl_next h j b)" by auto
  then have ok: "heap_ok h1" "a \<in> dom h1" using assms by (auto simp: same_nodes_def)
  obtain h2 where "sl_set_next h1 n a None = Some h2" "same_nodes h1 h2"
    "\<And>j b. sl_next h2 j b = (if j = n \<and> b = a then Some None else sl_next h1 j b)"
    using sl_set_next_ok [OF ok, of n None] Suc.prems by auto
  with h1 show ?case
    by (auto simp: less_Suc_eq intro: same_nodes_trans)
qed

lemma sl_iter_correct: "sl_rep s ts \<Longrightarrow> sl_iter s = Some ts"
proof -
  assume "sl_rep s ts"
  then obtain as hgt q where "ts = sl_ticks s as" "sl_next (sl_heap s) 0 (sl_head s) = Some q"
    "lpath (sl_heap s) 0 q as"
    unfolding sl_rep_def sl_inv_def using on_level_simps(3) by (metis le0)
  then show ?thesis by (simp add: sl_iter_def sl_collect_path sl_ticks_def)
qed

lemma sl_clear_heap:
  assumes inv: "sl_inv s as hgt"
  obtains h where "sl_clear s = Some (s\<lparr>sl_heap := h, sl_level := 0, sl_len := 0\<rparr>)"
    "dom h = {sl_head s}" "heap_ok h"
    "\<And>i. i \<le> MAX_LEVEL \<Longrightarrow> sl_next h i (sl_head s) = Some None"
proof -
  let ?h0 = "\<lambda>a. if a \<in> set as then None else sl_heap s a"
  have hd: "sl_head s \<notin> set as" "dom (sl_heap s) = insert (sl_head s) (set as)" "distinct as"
    and ok: "heap_ok (sl_heap s)" and lvl: "sl_level s \<le> MAX_LEVEL"
    and hg: "\<forall>a \<in> set as. hgt a \<le> sl_level s"
    using inv by (auto simp: sl_inv_def)
  have path: "\<exists>q. sl_next (sl_heap s) i (sl_head s) = Some q \<and>
      lpath (sl_heap s) i q (on_level hgt i as)" if "i \<le> MAX_LEVEL" for i
    using inv that by (simp add: sl_inv_def)
  obtain q where q: "sl_next (sl_heap s) 0 (sl_head s) = Some q" "lpath (sl_heap s) 0 q as"
    using path [of 0] by auto
  have "dom ?h0 = dom (sl_heap s) - set as" by (auto simp: dom_def)
  then have ok0: "heap_ok ?h0" "sl_head s \<in> dom ?h0" "dom ?h0 = {sl_head s}"
    using ok hd by (auto simp: heap_ok_def)
  obtain h where h: "foldl (\<lambda>ho i. Option.bind ho (\<lambda>h. sl_set_next h i (sl_head s) None))
      (Some ?h0) [0 ..< Suc (sl_level s)] = Some h" "same_nodes ?h0 h"
    "\<And>j b. sl_next h j b = (if j < Suc (sl_level s) \<and> b = sl_head s then Some None
       else sl_next ?h0 j b)"
    using sl_null_head [OF ok0(1,2), of "Suc (sl_level s)"] lvl by auto
  show ?thesis
  proof (rule that)
    show "sl_clear s = Some (s\<lparr>sl_heap := h, sl_level := 0, sl_len := 0\<rparr>)"
      unfolding sl_clear_def q bind.bind_lunit sl_free_path [OF q(2) hd(3)] h(1) ..
    show "dom h = {sl_head s}" "heap_ok h" using h(2) ok0 by (auto simp: same_nodes_def)
    fix i
    assume i: "i \<le> MAX_LEVEL"
    show "sl_next h i (sl_head s) = Some None"
    proof (cases "i \<le> sl_level s")
      case True
      then show ?thesis using h(3) by simp
    next
      case False
      then have "on_level hgt i as = []"
        using hg by (auto simp: on_level_def filter_empty_conv)
      then have "sl_next (sl_heap s) i (sl_head s) = Some None" using path [OF i] by auto
      then show ?thesis using h(3) [of i "sl_head s"] False hd by (simp add: sl_next_def)
    qed
  qed
qed

lemma sl_drain_correct:
  assumes "sl_rep s ts"
  shows "\<exists>s'. sl_drain s = Some (ts, s') \<and> sl_rep s' []"
proof -
  obtain as hgt where inv: "sl_inv s as hgt" using assms by (auto simp: sl_rep_def)
  obtain h where h: "sl_clear s = Some (s\<lparr>sl_heap := h, sl_level := 0, sl_len := 0\<rparr>)"
    "dom h = {sl_head s}" "heap_ok h"
    "\<And>i. i \<le> MAX_LEVEL \<Longrightarrow> sl_next h i (sl_head s) = Some None"
    using sl_clear_heap [OF inv] by metis
  have "sl_inv (s\<lparr>sl_heap := h, sl_level := 0, sl_len := 0\<rparr>) [] hgt"
    using h inv by (auto simp: sl_inv_def)
  then have "sl_rep (s\<lparr>sl_heap := h, sl_level := 0, sl_len := 0\<rparr>) []"
    by (force simp: sl_rep_def sl_ticks_def)
  then show ?thesis using h(1) sl_iter_correct [OF assms] by (simp add: sl_drain_def)
qed

lemma sl_drop_frees_all: "sl_rep s ts \<Longrightarrow> sl_drop s = Some (\<lambda>_. None)"
proof -
  assume "sl_rep s ts"
  then obtain as hgt where "sl_inv s as hgt" by (auto simp: sl_rep_def)
  then obtain h where "sl_clear s = Some (s\<lparr>sl_heap := h, sl_level := 0, sl_len := 0\<rparr>)"
    and dm: "dom h = {sl_head s}"
    by (rule sl_clear_heap)
  moreover have "h(sl_head s := None) = (\<lambda>_. None)"
    using dm by (auto simp: fun_eq_iff dom_def)
  moreover obtain nd where "h (sl_head s) = Some nd" using dm by auto
  ultimately show ?thesis by (simp add: sl_drop_def)
qed

interpretation sl: memtable sl_rep sl_insert sl_get sl_iter sl_drain sl_len
  by unfold_locales
    (fact sl_rep_sorted sl_rep_len sl_insert_correct sl_get_correct sl_iter_correct
      sl_drain_correct)+

subsection \<open>Properties\<close>

text \<open>
  C1. The memtable is a map from keys to the last tick written: after any sequence of
  inserts into a new skip list, whatever levels the random generator draws, every lookup
  returns the last tick written for its key, and no step follows a bad pointer or loops.
\<close>

theorem skiplist_get_last_write:
  "\<exists>s. insert_all sl_insert (sl_new rng) ts = Some s \<and> (\<forall>k. sl_get s k = Some (last_write ts k))"
proof -
  obtain s where s: "insert_all sl_insert (sl_new rng) ts = Some s" "sl_rep s (tick_insert_all [] ts)"
    using sl.insert_all_rep [OF sl_rep_new] by blast
  show ?thesis using s sl.get_rep [OF s(2)] by (auto simp: tick_lookup_writes)
qed

text \<open>
  C24. Iteration visits each key once, in strictly increasing (symbol, timestamp) order, and
  visits exactly the ticks that lookups find; the length counter is their number.
\<close>

theorem skiplist_sorted_iteration:
  "\<exists>s us. insert_all sl_insert (sl_new rng) ts = Some s \<and> sl_iter s = Some us \<and>
    sorted_wrt (<) (map tick_key us) \<and> (\<forall>k. tick_lookup us k = last_write ts k) \<and> sl_len s = length us"
proof -
  obtain s where s: "insert_all sl_insert (sl_new rng) ts = Some s" "sl_rep s (tick_insert_all [] ts)"
    using sl.insert_all_rep [OF sl_rep_new] by blast
  show ?thesis
    using s sl.iter_rep [OF s(2)] sl.rep_sorted [OF s(2)] sl.len_rep [OF s(2)]
    by (auto simp: tick_sorted_def tick_lookup_writes)
qed

text \<open>
  A flush loses nothing: draining returns the ticks in key order and leaves a list that
  is empty, can be written again and answers every later lookup from the later writes alone.
\<close>

theorem skiplist_drain_then_reuse:
  "\<exists>s us s' s''. insert_all sl_insert (sl_new rng) ts = Some s \<and> sl_drain s = Some (us, s') \<and>
    (\<forall>k. tick_lookup us k = last_write ts k) \<and> insert_all sl_insert s' ts' = Some s'' \<and>
    (\<forall>k. sl_get s'' k = Some (last_write ts' k))"
proof -
  obtain s where s: "insert_all sl_insert (sl_new rng) ts = Some s" "sl_rep s (tick_insert_all [] ts)"
    using sl.insert_all_rep [OF sl_rep_new] by blast
  obtain s' where s': "sl_drain s = Some (tick_insert_all [] ts, s')" "sl_rep s' []"
    using sl.drain_rep [OF s(2)] by blast
  obtain s'' where s'': "insert_all sl_insert s' ts' = Some s''" "sl_rep s'' (tick_insert_all [] ts')"
    using sl.insert_all_rep [OF s'(2)] by blast
  show ?thesis using s s' s'' sl.get_rep [OF s''(2)] by (auto simp: tick_lookup_writes)
qed

text \<open>
  C36. No leak and no double free: dropping a list that any writes have built frees every
  node, the head included, exactly once and leaves an empty heap.
\<close>

theorem skiplist_drop_frees_all:
  "\<exists>s. insert_all sl_insert (sl_new rng) ts = Some s \<and> sl_drop s = Some (\<lambda>_. None)"
proof -
  obtain s where "insert_all sl_insert (sl_new rng) ts = Some s" "sl_rep s (tick_insert_all [] ts)"
    using sl.insert_all_rep [OF sl_rep_new] by blast
  then show ?thesis using sl_drop_frees_all by blast
qed

end
