(* ===== verification/ScanIter.thy ===== *)
theory ScanIter
  imports Compaction SkipList
begin

text \<open>
  \<^verbatim>\<open>graphite-core/src/scan_iter.rs\<close>: the streaming scan, which merges the memtable's ticks
  with one table at a time.  The loop of \<open>next_tick\<close> is stated for any loader of a table; the
  engine's loader opens the file and scans it through the cache.
\<close>

record scan_params =
  sp_symbol_id :: "u16 option"
  sp_symbol_name :: "string option"
  sp_t1 :: i64
  sp_t2 :: i64
  sp_columns :: "column list"

record scan_stream =
  ss_memtable_ticks :: "tick list"
  ss_memtable_idx :: nat
  ss_sstable_paths :: "string list"
  ss_sstable_idx :: nat
  ss_current_batch :: "tick list"
  ss_current_batch_idx :: nat
  ss_params :: scan_params
  ss_last_key :: "key option"

text \<open>The filter of the memtable's ticks, and the tables that may hold a tick of the scan.\<close>

definition in_scan :: "scan_params \<Rightarrow> tick \<Rightarrow> bool" where
  "in_scan p t \<longleftrightarrow> sint (t_timestamp t) \<ge> sint (sp_t1 p) \<and> sint (t_timestamp t) \<le> sint (sp_t2 p) \<and>
     (case sp_symbol_id p of Some sid \<Rightarrow> t_symbol_id t = sid | None \<Rightarrow> True)"

text \<open>\<open>None\<close>: the filter of a table panics.\<close>

definition table_selected :: "symbol_dictionary \<Rightarrow> scan_params \<Rightarrow> sstable \<Rightarrow> bool option" where
  "table_selected dict p t =
     (if \<not> overlaps_time_range t (sp_t1 p) (sp_t2 p) then Some False
      else case sp_symbol_id p of
          None \<Rightarrow> Some True
        | Some sid \<Rightarrow>
            let sym = (case get_symbol dict sid of Some s \<Rightarrow> s | None \<Rightarrow> ''UNKNOWN'') in
            map_option (\<lambda>b. b \<and> overlaps_symbol t sid) (may_contain_symbol t sym))"

fun select_paths :: "symbol_dictionary \<Rightarrow> scan_params \<Rightarrow> sstable list \<Rightarrow> string list option" where
  "select_paths dict p [] = Some []"
| "select_paths dict p (t # ts) = Option.bind (table_selected dict p t) (\<lambda>b.
     map_option (\<lambda>ps. if b then st_path t # ps else ps) (select_paths dict p ts))"

definition stream_new ::
  "skip_list \<Rightarrow> compaction_manager \<Rightarrow> symbol_dictionary \<Rightarrow> scan_params \<Rightarrow> scan_stream option" where
  "stream_new mt cm dict p =
     Option.bind (sl_iter mt) (\<lambda>ticks.
     map_option (\<lambda>paths. \<lparr>ss_memtable_ticks = sort_key tick_key (filter (in_scan p) ticks),
         ss_memtable_idx = 0, ss_sstable_paths = paths, ss_sstable_idx = 0, ss_current_batch = [],
         ss_current_batch_idx = 0, ss_params = p, ss_last_key = None\<rparr>)
       (select_paths dict p (concat (map lv_tables (cm_levels cm)))))"

text \<open>A loader: \<open>None\<close> when the table cannot be opened, its matching ticks otherwise.\<close>

type_synonym ('s, 'e) loader = "string \<Rightarrow> ('s, tick list option, 'e) eff"

definition engine_loader :: "env \<Rightarrow> scan_params \<Rightarrow> ('z engine_scheme, 'e) loader" where
  "engine_loader ev p path s = (case engine_open ev path (snd (engine_ensure ev path s)) of
      (Ok t, s') \<Rightarrow> bind_eff (engine_scan ev t (sp_symbol_id p) (sp_t1 p) (sp_t2 p)) (\<lambda>ts. ret (Some ts)) s'
    | (Err _, s') \<Rightarrow> (Ok None, s')
    | (Panic, s') \<Rightarrow> (Panic, s')
    | (Deadlock, s') \<Rightarrow> (Deadlock, s'))"

definition load_next_sstable_batch ::
  "('s, 'e) loader \<Rightarrow> scan_stream \<Rightarrow> ('s, scan_stream, 'e) eff" where
  "load_next_sstable_batch load st =
     (if length (ss_sstable_paths st) \<le> ss_sstable_idx st then ret st
      else let path = ss_sstable_paths st ! ss_sstable_idx st;
               st = st\<lparr>ss_sstable_idx := Suc (ss_sstable_idx st)\<rparr>
           in bind_eff (load path) (\<lambda>r. case r of
               Some ticks \<Rightarrow> ret (st\<lparr>ss_current_batch := sort_key tick_key ticks, ss_current_batch_idx := 0\<rparr>)
             | None \<Rightarrow> ret st))"

definition ensure_sstable_batch ::
  "('s, 'e) loader \<Rightarrow> scan_stream \<Rightarrow> ('s, scan_stream, 'e) eff" where
  "ensure_sstable_batch load st =
     (if length (ss_current_batch st) \<le> ss_current_batch_idx st \<and>
         ss_sstable_idx st < length (ss_sstable_paths st)
      then load_next_sstable_batch load st else ret st)"

definition peek_memtable :: "scan_stream \<Rightarrow> tick option" where
  "peek_memtable st = (if ss_memtable_idx st < length (ss_memtable_ticks st)
     then Some (ss_memtable_ticks st ! ss_memtable_idx st) else None)"

definition peek_sstable :: "scan_stream \<Rightarrow> tick option" where
  "peek_sstable st = (if ss_current_batch_idx st < length (ss_current_batch st)
     then Some (ss_current_batch st ! ss_current_batch_idx st) else None)"

definition advance_memtable :: "scan_stream \<Rightarrow> scan_stream" where
  "advance_memtable st = st\<lparr>ss_memtable_idx := Suc (ss_memtable_idx st)\<rparr>"

definition advance_sstable :: "scan_stream \<Rightarrow> scan_stream" where
  "advance_sstable st = (let i = Suc (ss_current_batch_idx st) in
     if length (ss_current_batch st) \<le> i then st\<lparr>ss_current_batch := [], ss_current_batch_idx := 0\<rparr>
     else st\<lparr>ss_current_batch_idx := i\<rparr>)"

text \<open>One turn of the loop after \<open>ensure_sstable_batch\<close>; \<open>None\<close> ends the stream.\<close>

definition stream_step :: "scan_stream \<Rightarrow> (tick \<times> scan_stream) option" where
  "stream_step st = (case (peek_memtable st, peek_sstable st) of
      (None, None) \<Rightarrow> None
    | (Some m, None) \<Rightarrow> Some (m, advance_memtable st)
    | (None, Some s) \<Rightarrow> Some (s, advance_sstable st)
    | (Some m, Some s) \<Rightarrow>
        let c = key_cmp (tick_key m) (tick_key s) in
        if c = Less \<or> c = Equal
        then Some (m, if c = Equal then advance_sstable (advance_memtable st) else advance_memtable st)
        else Some (s, advance_sstable st))"

definition stream_left :: "scan_stream \<Rightarrow> nat" where
  "stream_left st = (length (ss_memtable_ticks st) - ss_memtable_idx st) +
     (length (ss_current_batch st) - ss_current_batch_idx st)"

definition paths_left :: "scan_stream \<Rightarrow> nat" where
  "paths_left st = length (ss_sstable_paths st) - ss_sstable_idx st"

lemma stream_step_shorter:
  "stream_step st = Some (t, st') \<Longrightarrow> stream_left st' < stream_left st \<and> paths_left st' = paths_left st"
  by (auto simp: stream_step_def stream_left_def paths_left_def peek_memtable_def peek_sstable_def
      advance_memtable_def advance_sstable_def Let_def split: if_splits option.splits)

lemma ensure_shorter:
  "ensure_sstable_batch load st s = (Ok st', s') \<Longrightarrow> st' = st \<or> paths_left st' < paths_left st"
  by (auto simp: ensure_sstable_batch_def load_next_sstable_batch_def paths_left_def bind_eff_def Let_def
      eff_simps split: if_splits outcome.splits prod.splits option.splits)

function next_tick :: "('s, 'e) loader \<Rightarrow> scan_stream \<Rightarrow> 's \<Rightarrow> (tick option \<times> scan_stream, 'e) outcome \<times> 's" where
  "next_tick load st s = (case ensure_sstable_batch load st s of
      (Ok st1, s1) \<Rightarrow>
       (case stream_step st1 of
          None \<Rightarrow> (Ok (None, st1), s1)
        | Some (t, st2) \<Rightarrow>
            if ss_last_key st2 = Some (tick_key t) then next_tick load st2 s1
            else (Ok (Some t, st2\<lparr>ss_last_key := Some (tick_key t)\<rparr>), s1))
    | (Err e, s1) \<Rightarrow> (Err e, s1) | (Panic, s1) \<Rightarrow> (Panic, s1) | (Deadlock, s1) \<Rightarrow> (Deadlock, s1))"
  by pat_completeness auto
termination
proof (relation "measures [\<lambda>(_, st, _). paths_left st, \<lambda>(_, st, _). stream_left st]", goal_cases)
  case (2 load st s x y x1 x2 t st2)
  then have "ensure_sstable_batch load st s = (Ok x1, y)" "stream_step x1 = Some (t, st2)" by simp_all
  then show ?case using ensure_shorter stream_step_shorter by fastforce
qed simp

declare next_tick.simps [simp del]

text \<open>Draining the iterator.\<close>

lemma next_tick_shorter:
  "next_tick load st s = (Ok (Some t, st'), s') \<Longrightarrow>
    paths_left st' < paths_left st \<or> paths_left st' = paths_left st \<and> stream_left st' < stream_left st"
proof (induction load st s rule: next_tick.induct)
  case (1 load st s)
  obtain st1 s1 where e: "ensure_sstable_batch load st s = (Ok st1, s1)"
    using "1.prems" by (subst (asm) next_tick.simps) (auto split: prod.splits outcome.splits)
  obtain u st2 where u: "stream_step st1 = Some (u, st2)"
    using "1.prems" e by (subst (asm) next_tick.simps) (auto split: option.splits)
  have left: "paths_left st2 < paths_left st \<or> paths_left st2 = paths_left st \<and> stream_left st2 < stream_left st"
    using ensure_shorter [OF e] stream_step_shorter [OF u] by auto
  show ?case
  proof (cases "ss_last_key st2 = Some (tick_key u)")
    case True
    then have "next_tick load st2 s1 = (Ok (Some t, st'), s')"
      using "1.prems" e u by (subst (asm) next_tick.simps) simp
    with "1.IH" e u True left show ?thesis by fastforce
  next
    case False
    then show ?thesis using "1.prems" e u left
      by (subst (asm) next_tick.simps) (auto simp: paths_left_def stream_left_def)
  qed
qed

function collect_stream :: "('s, 'e) loader \<Rightarrow> scan_stream \<Rightarrow> ('s, tick list, 'e) eff" where
  "collect_stream load st s = (case next_tick load st s of
      (Ok (None, _), s') \<Rightarrow> (Ok [], s')
    | (Ok (Some t, st'), s') \<Rightarrow> bind_eff (collect_stream load st') (\<lambda>ts. ret (t # ts)) s'
    | (Err e, s') \<Rightarrow> (Err e, s') | (Panic, s') \<Rightarrow> (Panic, s') | (Deadlock, s') \<Rightarrow> (Deadlock, s'))"
  by pat_completeness auto
termination
  by (relation "measures [\<lambda>(_, st, _). paths_left st, \<lambda>(_, st, _). stream_left st]")
    (auto dest!: next_tick_shorter [OF sym])

declare collect_stream.simps [simp del]

subsection \<open>The stream as a merge of lists\<close>

fun merge_step :: "tick list \<Rightarrow> tick list \<Rightarrow> (tick \<times> tick list \<times> tick list) option" where
  "merge_step [] [] = None"
| "merge_step (x # xs) [] = Some (x, xs, [])"
| "merge_step [] (y # ys) = Some (y, [], ys)"
| "merge_step (x # xs) (y # ys) =
     (if tick_key x < tick_key y then Some (x, xs, y # ys)
      else if tick_key x = tick_key y then Some (x, xs, ys) else Some (y, x # xs, ys))"

fun merge2 :: "tick list \<Rightarrow> tick list \<Rightarrow> tick list" where
  "merge2 [] ys = ys"
| "merge2 xs [] = xs"
| "merge2 (x # xs) (y # ys) =
     (if tick_key x < tick_key y then x # merge2 xs (y # ys)
      else if tick_key x = tick_key y then x # merge2 xs ys else y # merge2 (x # xs) ys)"

lemma merge2_Nil [simp]: "merge2 xs [] = xs"
  by (cases xs) auto

lemma merge2_step: "merge2 xs ys = (case merge_step xs ys of None \<Rightarrow> [] | Some (t, xs', ys') \<Rightarrow> t # merge2 xs' ys')"
  by (cases xs; cases ys) auto

lemma merge_step_append:
  "ys \<noteq> [] \<Longrightarrow> merge_step xs ys = Some (t, xs', ys') \<Longrightarrow> merge_step xs (ys @ zs) = Some (t, xs', ys' @ zs)"
  by (cases xs; cases ys) (auto split: if_splits)

lemma set_merge2: "set (merge2 xs ys) \<subseteq> set xs \<union> set ys"
  by (induction xs ys rule: merge2.induct) auto

lemma merge2_spec:
  assumes "tick_sorted xs" "tick_sorted ys"
  shows "tick_sorted (merge2 xs ys)"
    "tick_lookup (merge2 xs ys) k = (case tick_lookup xs k of Some t \<Rightarrow> Some t | None \<Rightarrow> tick_lookup ys k)"
proof -
  have "tick_sorted (merge2 xs ys) \<and>
    tick_lookup (merge2 xs ys) k = (case tick_lookup xs k of Some t \<Rightarrow> Some t | None \<Rightarrow> tick_lookup ys k)"
    using assms
  proof (induction xs ys rule: merge2.induct)
    case (3 x xs y ys)
    have none: "tick_lookup zs k = None" if "\<forall>u \<in> set zs. l < tick_key u" "k \<le> l" for zs l
      using that by (force simp: tick_lookup_None)
    consider "tick_key x < tick_key y" | "tick_key x = tick_key y" | "tick_key y < tick_key x" by fastforce
    then show ?case
    proof cases
      case 1
      then show ?thesis using "3.IH"(1) "3.prems" set_merge2 [of xs "y # ys"] by (fastforce split: option.splits)
    next
      case 2
      then show ?thesis using "3.IH"(2) "3.prems" set_merge2 [of xs ys] by (fastforce split: option.splits)
    next
      case 3
      then have IH: "tick_sorted (merge2 (x # xs) ys)" "tick_lookup (merge2 (x # xs) ys) k
          = (case tick_lookup (x # xs) k of Some t \<Rightarrow> Some t | None \<Rightarrow> tick_lookup ys k)"
        using "3.IH"(3) "3.prems" by auto
      have below: "\<forall>u \<in> set (x # xs). tick_key y < tick_key u"
        using 3 "3.prems"(1) by (auto intro: less_trans)
      then have "\<forall>u \<in> set (merge2 (x # xs) ys). tick_key y < tick_key u"
        using "3.prems"(2) set_merge2 [of "x # xs" ys] by auto
      moreover have "k = tick_key y \<Longrightarrow> tick_lookup (x # xs) k = None"
        using below by (intro none [of _ "tick_key y"]) auto
      ultimately show ?thesis using 3 IH by (auto split: option.splits)
    qed
  qed (auto split: option.splits)
  then show "tick_sorted (merge2 xs ys)"
    "tick_lookup (merge2 xs ys) k = (case tick_lookup xs k of Some t \<Rightarrow> Some t | None \<Rightarrow> tick_lookup ys k)"
    by auto
qed

lemma tick_lookup_append: "tick_lookup (xs @ ys) k = (case tick_lookup xs k of Some t \<Rightarrow> Some t | None \<Rightarrow> tick_lookup ys k)"
  by (induction xs) auto

text \<open>Merging two sorted runs is sorting their concatenation and removing later duplicates.\<close>

lemma merge2_merge_ticks: "tick_sorted xs \<Longrightarrow> tick_sorted ys \<Longrightarrow> merge2 xs ys = merge_ticks (xs @ ys)"
  by (rule tick_sorted_eqI) (simp_all add: merge2_spec merge_ticks_spec tick_lookup_append)

definition stream_view :: "scan_stream \<Rightarrow> tick list \<times> tick list \<times> string list" where
  "stream_view st = (drop (ss_memtable_idx st) (ss_memtable_ticks st),
     drop (ss_current_batch_idx st) (ss_current_batch st), drop (ss_sstable_idx st) (ss_sstable_paths st))"

lemma drop_eq_Cons: "drop i xs = y # ys \<longleftrightarrow> i < length xs \<and> xs ! i = y \<and> drop (Suc i) xs = ys"
  by (metis Cons_nth_drop_Suc drop_eq_Nil2 list.distinct(1) list.inject not_less)

lemma stream_step_view:
  assumes "stream_view st = (xs, ys, ps)"
  shows "case merge_step xs ys of None \<Rightarrow> stream_step st = None
    | Some (t, xs', ys') \<Rightarrow> \<exists>st'. stream_step st = Some (t, st') \<and> stream_view st' = (xs', ys', ps) \<and>
        ss_last_key st' = ss_last_key st"
  using assms
  by (cases xs; cases ys)
    (auto simp: stream_view_def stream_step_def peek_memtable_def peek_sstable_def advance_memtable_def
      advance_sstable_def drop_eq_Cons key_cmp_iff Let_def split: if_splits)

lemma merge_step_less:
  assumes "tick_sorted xs" "tick_sorted ys" "merge_step xs ys = Some (t, xs', ys')"
  shows "(\<forall>u \<in> set xs' \<union> set ys'. tick_key t < tick_key u) \<and> tick_sorted xs' \<and> tick_sorted ys' \<and>
    length xs' + length ys' < length xs + length ys \<and> t \<in> set xs \<union> set ys"
  using assms by (cases xs; cases ys) (force split: if_splits simp: not_less intro: less_trans)+

lemma merge_step_None: "merge_step xs ys = None \<longleftrightarrow> xs = [] \<and> ys = []"
  by (cases xs; cases ys) auto

text \<open>A loader that finds non-empty tables \<open>b p\<close> under the given paths.\<close>

definition loads :: "('s, 'e) loader \<Rightarrow> (string \<Rightarrow> tick list) \<Rightarrow> string list \<Rightarrow> bool" where
  "loads load b ps \<longleftrightarrow> (\<forall>p \<in> set ps. b p \<noteq> [] \<and> (\<forall>s. load p s = (Ok (Some (b p)), s)))"

lemma ensure_view:
  assumes v: "stream_view st = (xs, ys, ps)" and l: "loads load b ps"
    and srt: "tick_sorted (ys @ concat (map b ps))"
  obtains st1 ys1 ps1 where "ensure_sstable_batch load st s = (Ok st1, s)" "stream_view st1 = (xs, ys1, ps1)"
    "ys1 @ concat (map b ps1) = ys @ concat (map b ps)" "ys1 \<noteq> [] \<or> ps1 = []" "loads load b ps1"
    "ss_last_key st1 = ss_last_key st"
proof (cases "ys = [] \<and> ps \<noteq> []")
  case True
  then obtain p qs where ps: "ps = p # qs" by (cases ps) auto
  have p: "load p s = (Ok (Some (b p)), s)" "b p \<noteq> []" using l ps by (auto simp: loads_def)
  have "sort_key tick_key (b p) = b p"
  proof (rule sort_key_id_if_sorted)
    have "tick_sorted (b p)" using srt True ps by (simp add: tick_sorted_append)
    then show "sorted (map tick_key (b p))" by (simp only: tick_sorted_def strict_sorted_iff)
  qed
  moreover have idx: "ss_sstable_idx st < length (ss_sstable_paths st)"
    "ss_sstable_paths st ! ss_sstable_idx st = p" "drop (Suc (ss_sstable_idx st)) (ss_sstable_paths st) = qs"
    using v ps drop_eq_Cons by (metis prod.inject stream_view_def)+
  moreover have "length (ss_current_batch st) \<le> ss_current_batch_idx st"
    using v True by (simp add: stream_view_def)
  ultimately have e: "ensure_sstable_batch load st s = (Ok (st\<lparr>ss_sstable_idx := Suc (ss_sstable_idx st),
      ss_current_batch := b p, ss_current_batch_idx := 0\<rparr>), s)"
    using p by (simp add: ensure_sstable_batch_def load_next_sstable_batch_def Let_def ret_def)
  show ?thesis
    by (rule that [OF e, of "b p" qs])
      (use v True ps idx p l in \<open>auto simp: stream_view_def loads_def\<close>)
next
  case False
  then have "\<not> (length (ss_current_batch st) \<le> ss_current_batch_idx st \<and> ss_sstable_idx st < length (ss_sstable_paths st))"
    using v by (auto simp: stream_view_def)
  then have "ensure_sstable_batch load st s = (Ok st, s)" by (simp only: ensure_sstable_batch_def ret_def if_False)
  then show ?thesis using that v l False by blast
qed

lemma collect_view:
  assumes "stream_view st = (xs, ys, ps)" "loads load b ps"
    and "tick_sorted xs" "tick_sorted (ys @ concat (map b ps))"
    and "\<forall>k. ss_last_key st = Some k \<longrightarrow> (\<forall>u \<in> set xs \<union> set (ys @ concat (map b ps)). k < tick_key u)"
  shows "collect_stream load st s = (Ok (merge2 xs (ys @ concat (map b ps))), s)"
  using assms
proof (induction "length xs + length (ys @ concat (map b ps))" arbitrary: st xs ys ps rule: less_induct)
  case less
  let ?R = "ys @ concat (map b ps)"
  obtain st1 ys1 ps1 where e: "ensure_sstable_batch load st s = (Ok st1, s)" "stream_view st1 = (xs, ys1, ps1)"
    "ys1 @ concat (map b ps1) = ?R" "ys1 \<noteq> [] \<or> ps1 = []" "loads load b ps1" "ss_last_key st1 = ss_last_key st"
    by (rule ensure_view [OF less.prems(1,2,4)])
  have step: "merge_step xs ?R = (case merge_step xs ys1 of None \<Rightarrow> None
      | Some (t, xs', ys') \<Rightarrow> Some (t, xs', ys' @ concat (map b ps1)))"
  proof (cases "ys1 = []")
    case True
    then have R: "ps1 = []" "?R = []" using e(3,4) by auto
    show ?thesis unfolding R True by (cases xs) auto
  next
    case False
    then obtain t xs' ys' where m: "merge_step xs ys1 = Some (t, xs', ys')"
      by (metis merge_step_None option.exhaust prod_cases3)
    show ?thesis unfolding e(3) [symmetric] using merge_step_append [OF False m] m by simp
  qed
  show ?case
  proof (cases "merge_step xs ys1")
    case None
    then have "stream_step st1 = None" using stream_step_view [OF e(2)] by simp
    then have "next_tick load st s = (Ok (None, st1), s)" by (subst next_tick.simps) (simp add: e(1))
    then show ?thesis using step None by (subst collect_stream.simps, subst merge2_step) simp
  next
    case (Some tup)
    obtain t xs' ys' where m: "merge_step xs ys1 = Some (t, xs', ys')" using Some by (cases tup) auto
    let ?R' = "ys' @ concat (map b ps1)"
    have mR: "merge_step xs ?R = Some (t, xs', ?R')" using step m by simp
    note lt = merge_step_less [OF less.prems(3,4) mR]
    obtain st2 where st2: "stream_step st1 = Some (t, st2)" "stream_view st2 = (xs', ys', ps1)"
      "ss_last_key st2 = ss_last_key st"
      using stream_step_view [OF e(2)] m e(6) by auto
    have "ss_last_key st2 \<noteq> Some (tick_key t)"
      using lt less.prems(5) st2(3) by (metis order_less_irrefl Un_iff)
    then have n: "next_tick load st s = (Ok (Some t, st2\<lparr>ss_last_key := Some (tick_key t)\<rparr>), s)"
      by (subst next_tick.simps) (simp add: e(1) st2(1))
    have "collect_stream load (st2\<lparr>ss_last_key := Some (tick_key t)\<rparr>) s = (Ok (merge2 xs' ?R'), s)"
    proof (rule less.hyps)
      show "stream_view (st2\<lparr>ss_last_key := Some (tick_key t)\<rparr>) = (xs', ys', ps1)"
        using st2(2) by (simp add: stream_view_def)
    qed (use lt e(5) in auto)
    then show ?thesis using n mR by (subst collect_stream.simps, subst merge2_step) (simp add: ret_def)
  qed
qed

lemma stream_new_view:
  "stream_new mt cm dict p = Some st \<Longrightarrow> sl_rep mt ts \<Longrightarrow>
    stream_view st = (filter (in_scan p) ts, [], ss_sstable_paths st) \<and> ss_last_key st = None \<and>
    select_paths dict p (concat (map lv_tables (cm_levels cm))) = Some (ss_sstable_paths st)"
proof -
  assume st: "stream_new mt cm dict p = Some st" and rep: "sl_rep mt ts"
  have "tick_sorted (filter (in_scan p) ts)" using sl.rep_sorted [OF rep] by (rule tick_sorted_filter)
  then have "sort_key tick_key (filter (in_scan p) ts) = filter (in_scan p) ts"
    by (intro sort_key_id_if_sorted) (simp only: tick_sorted_def strict_sorted_iff)
  then show ?thesis using st sl.iter_rep [OF rep] by (auto simp: stream_new_def stream_view_def)
qed

subsection \<open>Properties\<close>

text \<open>
  Over tables that follow each other in key order the stream is the merge it promises:
  draining it yields the memtable's and the tables' ticks in strictly increasing key order,
  one per key, the memtable's where both have one; it equals sorting everything, memtable
  first, and removing later duplicates, and it ends.
\<close>

theorem scan_stream_merges:
  assumes "stream_new mt cm dict p = Some st" "sl_rep mt ts"
    and "\<forall>q \<in> set (ss_sstable_paths st). b q \<noteq> [] \<and> (\<forall>s. load q s = (Ok (Some (b q)), s))"
    and "tick_sorted (concat (map b (ss_sstable_paths st)))"
  shows "\<exists>us. collect_stream load st s = (Ok us, s) \<and> tick_sorted us \<and>
    us = merge_ticks (filter (in_scan p) ts @ concat (map b (ss_sstable_paths st)))"
proof -
  let ?R = "concat (map b (ss_sstable_paths st))"
  note v = stream_new_view [OF assms(1,2)]
  have srt: "tick_sorted (filter (in_scan p) ts)"
    using sl.rep_sorted [OF assms(2)] by (rule tick_sorted_filter)
  have "loads load b (ss_sstable_paths st)" using assms(3) by (simp add: loads_def)
  then have "collect_stream load st s = (Ok (merge2 (filter (in_scan p) ts) ([] @ ?R)), s)"
    using v srt assms(4) by (intro collect_view) auto
  then show ?thesis using merge2_merge_ticks [OF srt assms(4)] merge2_spec(1) [OF srt assms(4)] by simp
qed

theorem scan_stream_merges_witness:
  "\<exists>st us. stream_new (sl_new (\<lambda>_. 0)) (cm_new ''d'' dict_new) dict_new
      \<lparr>sp_symbol_id = None, sp_symbol_name = None, sp_t1 = 0, sp_t2 = 9, sp_columns = []\<rparr> = Some st \<and>
    collect_stream (\<lambda>q. ret None) st () = (Ok us :: (tick list, unit) outcome, ()) \<and> tick_sorted us"
proof -
  let ?p = "\<lparr>sp_symbol_id = None, sp_symbol_name = None, sp_t1 = 0, sp_t2 = 9, sp_columns = []\<rparr>"
  obtain st where st: "stream_new (sl_new (\<lambda>_. 0)) (cm_new ''d'' dict_new) dict_new ?p = Some st"
    using sl.iter_rep [OF sl_rep_new] by (simp add: stream_new_def cm_new_def level_new_def)
  then have "ss_sstable_paths st = []"
    using stream_new_view [OF st sl_rep_new] by (simp add: cm_new_def level_new_def)
  then show ?thesis
    using scan_stream_merges [OF st sl_rep_new, of "\<lambda>_. []" "\<lambda>q. ret None :: (unit, tick list option, unit) eff" "()"] st
    by auto
qed

text \<open>
  Tables are concatenated, not merged: with two tables whose key ranges overlap the stream
  goes back in time, and a key both tables hold can come out twice.
\<close>

theorem scan_stream_unsorted:
  "let t = example_tick 0; b = (\<lambda>q. if q = ''a'' then [t 5, t 9] else [t 5, t 7]);
       st = \<lparr>ss_memtable_ticks = [], ss_memtable_idx = 0, ss_sstable_paths = [''a'', ''b''], ss_sstable_idx = 0,
         ss_current_batch = [], ss_current_batch_idx = 0,
         ss_params = \<lparr>sp_symbol_id = None, sp_symbol_name = None, sp_t1 = 0, sp_t2 = 9, sp_columns = []\<rparr>,
         ss_last_key = None\<rparr>
   in collect_stream (\<lambda>q. ret (Some (b q))) st () = (Ok [t 5, t 9, t 5, t 7] :: (tick list, unit) outcome, ())"
  by code_simp

text \<open>
  A table that yields nothing ends the stream: when the memtable is exhausted and the next
  table cannot be opened or has no matching tick, the iterator reports its end although further
  tables with matching ticks are still to come.
\<close>

theorem scan_stream_stops_early:
  assumes "stream_view st = ([], [], q # qs)" "load q s = (Ok r, s)" "r = None \<or> r = Some []"
  shows "collect_stream load st s = (Ok [], s)"
proof -
  have idx: "ss_sstable_idx st < length (ss_sstable_paths st)" "ss_sstable_paths st ! ss_sstable_idx st = q"
    "length (ss_current_batch st) \<le> ss_current_batch_idx st" "length (ss_memtable_ticks st) \<le> ss_memtable_idx st"
    using assms(1) drop_eq_Cons [of "ss_sstable_idx st" "ss_sstable_paths st" q qs] by (auto simp: stream_view_def)
  then obtain st1 where "ensure_sstable_batch load st s = (Ok st1, s)" "peek_memtable st1 = None" "peek_sstable st1 = None"
    using assms(2,3)
    by (auto simp: ensure_sstable_batch_def load_next_sstable_batch_def Let_def ret_def peek_memtable_def peek_sstable_def)
  then have "next_tick load st s = (Ok (None, st1), s)"
    by (subst next_tick.simps) (simp add: stream_step_def)
  then show ?thesis by (subst collect_stream.simps) simp
qed

theorem scan_stream_stops_early_witness:
  "collect_stream (\<lambda>q. ret (if q = ''a'' then None else Some [example_tick 0 5]))
     \<lparr>ss_memtable_ticks = [], ss_memtable_idx = 0, ss_sstable_paths = [''a'', ''b''], ss_sstable_idx = 0,
       ss_current_batch = [], ss_current_batch_idx = 0,
       ss_params = \<lparr>sp_symbol_id = None, sp_symbol_name = None, sp_t1 = 0, sp_t2 = 9, sp_columns = []\<rparr>,
       ss_last_key = None\<rparr> () = (Ok [] :: (tick list, unit) outcome, ())"
  by (rule scan_stream_stops_early [of _ "''a''" "[''b'']" _ _ None]) (simp_all add: stream_view_def ret_def)

end
