(* ===== verification/Lsm.thy ===== *)
theory Lsm
  imports ScanIter
begin

text \<open>
  \<^verbatim>\<open>graphite-core/src/lsm.rs\<close>: the engine.  It puts the memtable, the log, the levels, the
  dictionary, the cache and the replication tracker behind one lock each and composes their
  operations.  The locks are those of \<^verbatim>\<open>parking_lot\<close>: not reentrant, so a thread that asks for a
  lock it holds in a conflicting mode blocks for ever.  A guard lives to the end of the block that
  holds it and is released when the block panics.

  One thread runs here, the others being the guards it finds; \<open>LockOrder\<close> runs several.  A turn of
  the background compaction thread is the operation \<open>background_tick\<close>.
\<close>

datatype lsm_error = LsmWal wal_error | LsmSst sst_error | LsmCompaction compaction_error |
  LsmCold cold_error | LsmIo | SymbolNotFound string | LsmReplication replication_error

definition MEMTABLE_FLUSH_THRESHOLD :: nat where "MEMTABLE_FLUSH_THRESHOLD = 10000"

record lsm_config =
  cache_size_mb :: nat
  memtable_flush_threshold :: nat
  auto_compact :: bool
  compact_interval_ms :: u64
  cold_tier_uri :: "string option"
  cold_tier_min_level :: u32
  node_role_cfg :: node_role

definition config_default :: lsm_config where
  "config_default = \<lparr>cache_size_mb = 64, memtable_flush_threshold = MEMTABLE_FLUSH_THRESHOLD,
     auto_compact = True, compact_interval_ms = 5000, cold_tier_uri = None, cold_tier_min_level = 2,
     node_role_cfg = Primary\<rparr>"

datatype lock = MemtableLock | WalLock | CompactionLock | DictLock | ReplicationLock
datatype guard = ReadGuard | WriteGuard

record lsm = engine +
  ls_data_dir :: string
  ls_memtable :: skip_list
  ls_wal :: wal
  ls_symbol_dict :: symbol_dictionary
  ls_config :: lsm_config
  ls_bloom_checks :: u64
  ls_bloom_hits :: u64
  ls_total_rows :: u64
  ls_role :: node_role
  ls_replication :: replication_tracker
  ls_held :: "(lock \<times> guard) list"
  ls_waits_for :: "(lock \<times> guard) option"

type_synonym 'a lsm_eff = "(lsm, 'a, lsm_error) eff"

record db_stats =
  ds_level_sizes :: "u64 list"
  ds_bloom_filter_hit_rate :: f64
  ds_cache_hit_rate :: f64
  ds_write_amplification_factor :: f64
  ds_total_rows :: u64
  ds_total_sstables :: u64

subsection \<open>Locks\<close>

definition blocked :: "lock \<Rightarrow> guard \<Rightarrow> (lock \<times> guard) list \<Rightarrow> bool" where
  "blocked l g held \<longleftrightarrow> (case g of ReadGuard \<Rightarrow> (l, WriteGuard) \<in> set held | WriteGuard \<Rightarrow> l \<in> fst ` set held)"

text \<open>A block that runs under a guard; a blocked thread keeps what it holds and records what it waits for.\<close>

definition locked :: "lock \<Rightarrow> guard \<Rightarrow> 'a lsm_eff \<Rightarrow> 'a lsm_eff" where
  "locked l g body s =
     (if blocked l g (ls_held s) then (Deadlock, s\<lparr>ls_waits_for := Some (l, g)\<rparr>)
      else case body (s\<lparr>ls_held := (l, g) # ls_held s\<rparr>) of
        (Deadlock, s') \<Rightarrow> (Deadlock, s')
      | (r, s') \<Rightarrow> (r, s'\<lparr>ls_held := ls_held s\<rparr>))"

subsection \<open>Calls of the components\<close>

definition wal_call :: "(wal \<Rightarrow> ('a, wal_error) outcome \<times> wal) \<Rightarrow> 'a lsm_eff" where
  "wal_call f s = (case f (ls_wal s) of (r, w) \<Rightarrow> (map_err LsmWal r, s\<lparr>ls_wal := w\<rparr>))"

definition memtable_insert :: "tick \<Rightarrow> unit lsm_eff" where
  "memtable_insert t s = (case sl_insert (ls_memtable s) t of
      None \<Rightarrow> (Panic, s) | Some mt \<Rightarrow> (Ok (), s\<lparr>ls_memtable := mt\<rparr>))"

definition memtable_drain :: "tick list lsm_eff" where
  "memtable_drain s = (case sl_drain (ls_memtable s) of
      None \<Rightarrow> (Panic, s) | Some (ts, mt) \<Rightarrow> (Ok ts, s\<lparr>ls_memtable := mt\<rparr>))"

definition dict_get_or_insert :: "string \<Rightarrow> u16 lsm_eff" where
  "dict_get_or_insert symbol s = (case get_or_insert (ls_symbol_dict s) symbol of
      (d, i) \<Rightarrow> (Ok i, s\<lparr>ls_symbol_dict := d\<rparr>))"

definition count_row :: "unit lsm_eff" where
  "count_row = upd_eff (\<lambda>s. s\<lparr>ls_total_rows := ls_total_rows s + 1\<rparr>)"

definition count_bloom_check :: "unit lsm_eff" where
  "count_bloom_check = upd_eff (\<lambda>s. s\<lparr>ls_bloom_checks := ls_bloom_checks s + 1\<rparr>)"

definition count_bloom_hit :: "unit lsm_eff" where
  "count_bloom_hit = upd_eff (\<lambda>s. s\<lparr>ls_bloom_hits := ls_bloom_hits s + 1\<rparr>)"

definition open_sstable :: "env \<Rightarrow> string \<Rightarrow> sstable lsm_eff" where
  "open_sstable ev path =
     bind_eff (map_err_eff LsmCold (engine_ensure ev path)) (\<lambda>_. map_err_eff LsmSst (engine_open ev path))"

subsection \<open>Opening\<close>

definition recover_record :: "wal_record \<Rightarrow> unit lsm_eff" where
  "recover_record r = (case r of
      WInsert t \<Rightarrow> memtable_insert t | WDelete k \<Rightarrow> ret () | WCheckpoint n \<Rightarrow> ret ())"

definition recover_from_wal :: "unit lsm_eff" where
  "recover_from_wal =
     locked WalLock ReadGuard (
       bind_eff (get_eff (\<lambda>s. w_replayed (ls_wal s))) (\<lambda>records.
       locked MemtableLock WriteGuard (for_eff records recover_record)))"

definition load_sstable :: "env \<Rightarrow> string \<Rightarrow> unit lsm_eff" where
  "load_sstable ev path =
     (if has_sst_extension path
      then bind_eff (open_sstable ev path) (\<lambda>table.
        let lvl = unat (m_level (st_meta table)) in
        upd_cm (\<lambda>cm. let ls = extend_levels lvl (cm_levels cm) in
          cm\<lparr>cm_levels := ls[lvl := add_table table (ls ! lvl)]\<rparr>))
      else ret ())"

definition load_sstables :: "env \<Rightarrow> unit lsm_eff" where
  "load_sstables ev =
     bind_eff (get_eff (\<lambda>s. map fst (wd_fs (en_world s)))) (\<lambda>entries.
     locked CompactionLock WriteGuard (for_eff entries (load_sstable ev)))"

text \<open>What is on disk when the process starts: the log, the tracker's file and the directory.\<close>

definition lsm_new ::
  "env \<Rightarrow> string \<Rightarrow> lsm_config \<Rightarrow> bytes \<Rightarrow> bytes option \<Rightarrow> world \<Rightarrow> (lsm, lsm_error) outcome" where
  "lsm_new ev path config wal_file rep_file w =
     bind_outcome (map_err LsmWal (wal_open (ev_fmt ev) wal_file)) (\<lambda>wal.
     bind_outcome (case cold_tier_uri config of
         None \<Rightarrow> Ok None
       | Some uri \<Rightarrow> bind_outcome (map_err LsmCold
           (cold_open (ev_store ev) path uri (cold_tier_min_level config) (wd_fs w))) (\<lambda>c. Ok (Some c))) (\<lambda>cold.
     bind_outcome (map_err LsmReplication (tracker_open (ev_rep ev) rep_file)) (\<lambda>tracker.
     Ok \<lparr>en_cm = cm_new path dict_new, en_world = w, en_cache = cache_new (cache_size_mb config), en_cold = cold,
       ls_data_dir = path, ls_memtable = sl_new (ev_rng ev), ls_wal = wal, ls_symbol_dict = dict_new,
       ls_config = config, ls_bloom_checks = 0, ls_bloom_hits = 0, ls_total_rows = 0,
       ls_role = node_role_cfg config, ls_replication = tracker, ls_held = [], ls_waits_for = None\<rparr>)))"

definition lsm_open ::
  "env \<Rightarrow> string \<Rightarrow> lsm_config \<Rightarrow> bytes \<Rightarrow> bytes option \<Rightarrow> world \<Rightarrow> (lsm, lsm_error) outcome" where
  "lsm_open ev path config wal_file rep_file w =
     bind_outcome (lsm_new ev path config wal_file rep_file w) (\<lambda>s.
     case bind_eff recover_from_wal (\<lambda>_. load_sstables ev) s of
       (Ok _, s') \<Rightarrow> Ok s' | (Err e, _) \<Rightarrow> Err e | (Panic, _) \<Rightarrow> Panic | (Deadlock, _) \<Rightarrow> Deadlock)"


subsection \<open>Flush and writes\<close>

definition flush_memtable :: "env \<Rightarrow> unit lsm_eff" where
  "flush_memtable ev =
     bind_eff (locked MemtableLock WriteGuard memtable_drain) (\<lambda>ticks.
     if ticks = [] then ret ()
     else bind_eff (in_world (\<lambda>w. case world_now ev w of (n, w') \<Rightarrow> (Ok n, w'))) (\<lambda>nanos.
       bind_eff (get_eff (\<lambda>s. sst_path (ls_data_dir s) 0 nanos)) (\<lambda>path.
       bind_eff (locked DictLock ReadGuard (get_eff ls_symbol_dict)) (\<lambda>dict.
       bind_eff (map_err_eff LsmSst (engine_write ev path ticks 0 dict)) (\<lambda>table.
       bind_eff (locked CompactionLock WriteGuard (\<lambda>s. case cm_levels (en_cm s) of
           [] \<Rightarrow> (Panic, s)
         | l0 # ls \<Rightarrow> upd_cm (\<lambda>cm. cm\<lparr>cm_levels := add_table table l0 # ls\<rparr>) s)) (\<lambda>_.
       locked WalLock WriteGuard (wal_call (\<lambda>w. (Ok (), wal_truncate w)))))))))"

definition flush_when_full :: "env \<Rightarrow> nat \<Rightarrow> unit lsm_eff" where
  "flush_when_full ev memtable_len =
     bind_eff (get_eff (\<lambda>s. memtable_flush_threshold (ls_config s))) (\<lambda>threshold.
     if threshold \<le> memtable_len then flush_memtable ev else ret ())"

definition lsm_insert :: "env \<Rightarrow> string \<Rightarrow> tick \<Rightarrow> unit lsm_eff" where
  "lsm_insert ev symbol tick =
     bind_eff (get_eff ls_role) (\<lambda>role.
     if role = Replica then fail_with (LsmReplication NotPrimary)
     else locked DictLock WriteGuard (
       bind_eff (dict_get_or_insert symbol) (\<lambda>symbol_id.
       let tick = tick\<lparr>t_symbol_id := symbol_id\<rparr> in
       bind_eff (locked WalLock WriteGuard (wal_call (\<lambda>w. wal_append (ev_fmt ev) w (WInsert tick)))) (\<lambda>_.
       bind_eff (locked MemtableLock WriteGuard (memtable_insert tick)) (\<lambda>_.
       bind_eff count_row (\<lambda>_.
       bind_eff (locked MemtableLock ReadGuard (get_eff (\<lambda>s. sl_len (ls_memtable s)))) (\<lambda>memtable_len.
       flush_when_full ev memtable_len)))))))"

definition insert_tick ::
  "env \<Rightarrow> string \<Rightarrow> i64 \<Rightarrow> f64 \<Rightarrow> f64 \<Rightarrow> f64 \<Rightarrow> f64 \<Rightarrow> u64 \<Rightarrow> unit lsm_eff" where
  "insert_tick ev symbol timestamp op high low cl volume =
     lsm_insert ev symbol \<lparr>t_symbol_id = 0, t_timestamp = timestamp, t_open = op, t_high = high,
       t_low = low, t_close = cl, t_volume = volume\<rparr>"

text \<open>The loop of \<open>insert_batch\<close>: the records for the log, in order.\<close>

fun batch_rows :: "tick_batch \<Rightarrow> u16 \<Rightarrow> nat list \<Rightarrow> wal_record list lsm_eff" where
  "batch_rows batch symbol_id [] = ret []"
| "batch_rows batch symbol_id (i # is) =
     bind_eff (lift_outcome (or_panic (tick_at batch i symbol_id))) (\<lambda>tick.
     bind_eff (memtable_insert tick) (\<lambda>_.
     bind_eff count_row (\<lambda>_.
     bind_eff (batch_rows batch symbol_id is) (\<lambda>rs. ret (WInsert tick # rs)))))"

text \<open>What \<open>insert_batch\<close> and \<open>insert_multi\<close> do with the rows under the memtable's guard.\<close>

definition write_rows_then_log :: "env \<Rightarrow> wal_record list lsm_eff \<Rightarrow> nat lsm_eff" where
  "write_rows_then_log ev rows =
     locked MemtableLock WriteGuard (
       bind_eff rows (\<lambda>wal_records.
       bind_eff (locked WalLock WriteGuard (wal_call (\<lambda>w. wal_append_batch (ev_fmt ev) w wal_records))) (\<lambda>_.
       get_eff (\<lambda>s. sl_len (ls_memtable s)))))"

definition insert_batch :: "env \<Rightarrow> string \<Rightarrow> tick_batch \<Rightarrow> unit lsm_eff" where
  "insert_batch ev symbol batch =
     (if batch_is_empty batch then ret ()
      else locked DictLock WriteGuard (
        bind_eff (dict_get_or_insert symbol) (\<lambda>symbol_id.
        bind_eff (write_rows_then_log ev (batch_rows batch symbol_id [0 ..< batch_len batch])) (\<lambda>memtable_len.
        flush_when_full ev memtable_len))))"

fun multi_rows :: "symbol_tick list \<Rightarrow> wal_record list lsm_eff" where
  "multi_rows [] = ret []"
| "multi_rows (t # ts) =
     bind_eff (dict_get_or_insert (st_symbol t)) (\<lambda>symbol_id.
     let stored = to_tick t symbol_id in
     bind_eff (memtable_insert stored) (\<lambda>_.
     bind_eff count_row (\<lambda>_.
     bind_eff (multi_rows ts) (\<lambda>rs. ret (WInsert stored # rs)))))"

definition insert_multi :: "env \<Rightarrow> symbol_tick list \<Rightarrow> unit lsm_eff" where
  "insert_multi ev ticks =
     (if ticks = [] then ret ()
      else locked DictLock WriteGuard (
        bind_eff (write_rows_then_log ev (multi_rows ticks)) (\<lambda>memtable_len.
        flush_when_full ev memtable_len)))"

subsection \<open>Reads\<close>

fun get_tables :: "env \<Rightarrow> u16 \<Rightarrow> i64 \<Rightarrow> sstable list \<Rightarrow> tick option lsm_eff" where
  "get_tables ev symbol_id timestamp [] = ret None"
| "get_tables ev symbol_id timestamp (table # tables) =
     bind_eff count_bloom_check (\<lambda>_.
     bind_eff (lift_outcome (or_panic (may_contain_key table (Key symbol_id timestamp)))) (\<lambda>hit.
     if \<not> hit then get_tables ev symbol_id timestamp tables
     else bind_eff count_bloom_hit (\<lambda>_.
       if overlaps_time_range table timestamp timestamp \<and> overlaps_symbol table symbol_id
       then bind_eff (open_sstable ev (st_path table)) (\<lambda>t.
         bind_eff (engine_scan ev t (Some symbol_id) timestamp timestamp) (\<lambda>ticks.
         case ticks of x # _ \<Rightarrow> ret (Some x) | [] \<Rightarrow> get_tables ev symbol_id timestamp tables))
       else get_tables ev symbol_id timestamp tables)))"

definition symbol_id_of :: "string \<Rightarrow> u16 lsm_eff" where
  "symbol_id_of symbol s = (case get_id (ls_symbol_dict s) symbol of
      None \<Rightarrow> (Err (SymbolNotFound symbol), s) | Some i \<Rightarrow> (Ok i, s))"

definition memtable_get :: "key \<Rightarrow> tick option lsm_eff" where
  "memtable_get k s = (or_panic (sl_get (ls_memtable s) k), s)"

definition lsm_get :: "env \<Rightarrow> string \<Rightarrow> i64 \<Rightarrow> tick option lsm_eff" where
  "lsm_get ev symbol timestamp =
     locked DictLock ReadGuard (
       bind_eff (symbol_id_of symbol) (\<lambda>symbol_id.
       bind_eff (locked MemtableLock ReadGuard (memtable_get (Key symbol_id timestamp))) (\<lambda>found.
       case found of
         Some tick \<Rightarrow> ret (Some tick)
       | None \<Rightarrow> locked CompactionLock ReadGuard (
           bind_eff (get_eff (\<lambda>s. concat (map (\<lambda>l. rev (lv_tables l)) (cm_levels (en_cm s))))) (\<lambda>tables.
           get_tables ev symbol_id timestamp tables)))))"

text \<open>The filter of \<open>scan\<close> on the memtable.\<close>

definition scan_wants :: "u16 option \<Rightarrow> i64 \<Rightarrow> i64 \<Rightarrow> tick \<Rightarrow> bool" where
  "scan_wants symbol_id t1 t2 tick \<longleftrightarrow> sint (t_timestamp tick) \<ge> sint t1 \<and> sint (t_timestamp tick) \<le> sint t2 \<and>
     (case symbol_id of Some sid \<Rightarrow> t_symbol_id tick = sid | None \<Rightarrow> True)"

text \<open>One table of the loop of \<open>scan\<close>: whether it is read.\<close>

definition scan_selects :: "u16 option \<Rightarrow> i64 \<Rightarrow> i64 \<Rightarrow> sstable \<Rightarrow> bool lsm_eff" where
  "scan_selects symbol_id t1 t2 table =
     (if \<not> overlaps_time_range table t1 t2 then ret False
      else case symbol_id of
        None \<Rightarrow> ret True
      | Some sid \<Rightarrow>
          bind_eff count_bloom_check (\<lambda>_.
          bind_eff (locked DictLock ReadGuard (get_eff (\<lambda>s.
             case get_symbol (ls_symbol_dict s) sid of Some n \<Rightarrow> n | None \<Rightarrow> ''UNKNOWN''))) (\<lambda>sym_name.
          bind_eff (lift_outcome (or_panic (may_contain_symbol table sym_name))) (\<lambda>hit.
          if \<not> hit then ret False
          else bind_eff count_bloom_hit (\<lambda>_. ret (overlaps_symbol table sid))))))"

fun scan_tables :: "env \<Rightarrow> u16 option \<Rightarrow> i64 \<Rightarrow> i64 \<Rightarrow> sstable list \<Rightarrow> tick list lsm_eff" where
  "scan_tables ev symbol_id t1 t2 [] = ret []"
| "scan_tables ev symbol_id t1 t2 (table # tables) =
     bind_eff (scan_selects symbol_id t1 t2 table) (\<lambda>wanted.
     if \<not> wanted then scan_tables ev symbol_id t1 t2 tables
     else bind_eff (open_sstable ev (st_path table)) (\<lambda>t.
       bind_eff (engine_scan ev t symbol_id t1 t2) (\<lambda>ticks.
       bind_eff (scan_tables ev symbol_id t1 t2 tables) (\<lambda>more. ret (ticks @ more)))))"

definition scan_symbol_id :: "string option \<Rightarrow> u16 option lsm_eff" where
  "scan_symbol_id symbol = (case symbol of
      None \<Rightarrow> ret None
    | Some name \<Rightarrow> locked DictLock ReadGuard (bind_eff (symbol_id_of name) (\<lambda>i. ret (Some i))))"

text \<open>\<open>columns\<close> is passed down to the table scan, which ignores it.\<close>

definition lsm_scan :: "env \<Rightarrow> string option \<Rightarrow> i64 \<Rightarrow> i64 \<Rightarrow> column list \<Rightarrow> tick list lsm_eff" where
  "lsm_scan ev symbol t1 t2 columns =
     bind_eff (scan_symbol_id symbol) (\<lambda>symbol_id.
     bind_eff (locked MemtableLock ReadGuard (\<lambda>s. (or_panic (sl_iter (ls_memtable s)), s))) (\<lambda>ticks.
     locked CompactionLock ReadGuard (
       bind_eff (get_eff (\<lambda>s. concat (map lv_tables (cm_levels (en_cm s))))) (\<lambda>tables.
       bind_eff (scan_tables ev symbol_id t1 t2 tables) (\<lambda>more.
       ret (merge_ticks (filter (scan_wants symbol_id t1 t2) ticks @ more)))))))"



text \<open>\<open>scan_params\<close> of \<open>scan_iter.rs\<close>.\<close>

definition make_scan_params :: "string option \<Rightarrow> i64 \<Rightarrow> i64 \<Rightarrow> column list \<Rightarrow> scan_params lsm_eff" where
  "make_scan_params symbol t1 t2 columns =
     bind_eff (scan_symbol_id symbol) (\<lambda>symbol_id.
     ret \<lparr>sp_symbol_id = symbol_id, sp_symbol_name = symbol, sp_t1 = t1, sp_t2 = t2, sp_columns = columns\<rparr>)"

definition lsm_scan_stream :: "string option \<Rightarrow> i64 \<Rightarrow> i64 \<Rightarrow> column list \<Rightarrow> scan_stream lsm_eff" where
  "lsm_scan_stream symbol t1 t2 columns =
     bind_eff (make_scan_params symbol t1 t2 columns) (\<lambda>params.
     locked CompactionLock ReadGuard (locked MemtableLock ReadGuard (locked DictLock ReadGuard (
       \<lambda>s. (or_panic (stream_new (ls_memtable s) (en_cm s) (ls_symbol_dict s) params), s)))))"

subsection \<open>Maintenance and statistics\<close>

definition lsm_needs_compaction :: "bool lsm_eff" where
  "lsm_needs_compaction = locked CompactionLock ReadGuard (get_eff (\<lambda>s. needs_compaction (en_cm s)))"

definition lsm_compact :: "env \<Rightarrow> unit lsm_eff" where
  "lsm_compact ev = locked CompactionLock WriteGuard (map_err_eff LsmCompaction (compact ev))"

text \<open>One tick of the background thread of \<open>compaction_scheduler.rs\<close>, which drops the error.\<close>

definition background_tick :: "env \<Rightarrow> unit lsm_eff" where
  "background_tick ev =
     bind_eff lsm_needs_compaction (\<lambda>needed.
     if needed then (\<lambda>s. case lsm_compact ev s of (Err _, s') \<Rightarrow> (Ok (), s') | r \<Rightarrow> r) else ret ())"

definition lsm_stats :: "db_stats lsm_eff" where
  "lsm_stats = locked CompactionLock ReadGuard (get_eff (\<lambda>s.
     \<lparr>ds_level_sizes = level_sizes (en_cm s),
      ds_bloom_filter_hit_rate = (if ls_bloom_checks s > 0
        then f64_div (f64_of_u64 (ls_bloom_hits s)) (f64_of_u64 (ls_bloom_checks s)) else f64_zero False),
      ds_cache_hit_rate = hit_rate (en_cache s),
      ds_write_amplification_factor = write_amplification_factor (en_cm s),
      ds_total_rows = ls_total_rows s,
      ds_total_sstables = total_sstables (en_cm s)\<rparr>))"

definition lsm_get_symbol :: "u16 \<Rightarrow> string option lsm_eff" where
  "lsm_get_symbol i = locked DictLock ReadGuard (get_eff (\<lambda>s. get_symbol (ls_symbol_dict s) i))"

definition lsm_symbol_dict :: "symbol_dictionary lsm_eff" where
  "lsm_symbol_dict = locked DictLock ReadGuard (get_eff ls_symbol_dict)"

definition cold_call :: "(cold_tier \<times> world, 'a, cold_error) eff \<Rightarrow> 'a lsm_eff" where
  "cold_call m s = (case en_cold s of
      None \<Rightarrow> (Err (LsmCold ColdConfig), s)
    | Some c \<Rightarrow> (case m (c, en_world s) of
        (r, (c', w')) \<Rightarrow> (map_err LsmCold r, s\<lparr>en_cold := Some c', en_world := w'\<rparr>)))"

definition sync_cold_tier :: "env \<Rightarrow> nat lsm_eff" where
  "sync_cold_tier ev =
     bind_eff (get_eff (\<lambda>s. en_cold s)) (\<lambda>cold.
     if cold = None then fail_with (LsmCold ColdConfig)
     else locked CompactionLock ReadGuard (
       bind_eff (get_eff (\<lambda>s. concat (map lv_tables (cm_levels (en_cm s))))) (\<lambda>tables.
       cold_call (sync_tables ev tables))))"

definition cold_tier_synced_count :: "lsm \<Rightarrow> nat" where
  "cold_tier_synced_count s = (case en_cold s of None \<Rightarrow> 0 | Some c \<Rightarrow> synced_count c)"

subsection \<open>Replication\<close>

definition replication_entry_of :: "symbol_dictionary \<Rightarrow> u64 \<times> wal_record \<Rightarrow> replication_entry" where
  "replication_entry_of dict = (\<lambda>(sequence, r). \<lparr>re_sequence = sequence, re_record = r,
     re_symbol = (case r of WInsert tick \<Rightarrow> get_symbol dict (t_symbol_id tick) | _ \<Rightarrow> None)\<rparr>)"

definition read_wal_for_replication ::
  "env \<Rightarrow> u64 option \<Rightarrow> nat \<Rightarrow> replication_entry list lsm_eff" where
  "read_wal_for_replication ev after_inclusive limit =
     bind_eff (locked WalLock ReadGuard (wal_call (\<lambda>w.
       (wal_read_for_replication (ev_fmt ev) w after_inclusive limit, w)))) (\<lambda>records.
     locked DictLock ReadGuard (get_eff (\<lambda>s. map (replication_entry_of (ls_symbol_dict s)) records)))"

text \<open>The loop that resolves the ids under the dictionary's guard.\<close>

fun resolve_entries :: "replication_entry list \<Rightarrow> tick list lsm_eff" where
  "resolve_entries [] = ret []"
| "resolve_entries (e # es) = (case re_record e of
      WInsert tick \<Rightarrow>
        bind_eff (case re_symbol e of
            Some name \<Rightarrow> dict_get_or_insert name
          | None \<Rightarrow> ret (t_symbol_id tick)) (\<lambda>symbol_id.
        bind_eff (resolve_entries es) (\<lambda>ticks. ret (tick\<lparr>t_symbol_id := symbol_id\<rparr> # ticks)))
    | _ \<Rightarrow> resolve_entries es)"

definition apply_tick :: "tick \<Rightarrow> unit lsm_eff" where
  "apply_tick tick = bind_eff (memtable_insert tick) (\<lambda>_. count_row)"

definition tracker_call ::
  "(replication_tracker \<Rightarrow> (unit, replication_error) outcome \<times> replication_tracker) \<Rightarrow> unit lsm_eff" where
  "tracker_call f s = (case f (ls_replication s) of
      (r, t) \<Rightarrow> (map_err LsmReplication r, s\<lparr>ls_replication := t\<rparr>))"

definition apply_replication_batch :: "env \<Rightarrow> replication_entry list \<Rightarrow> u64 lsm_eff" where
  "apply_replication_batch ev entries =
     (if entries = [] then ret 0
      else bind_eff (get_eff ls_role) (\<lambda>role.
        if role \<noteq> Replica then fail_with (LsmReplication NotReplica)
        else let max_seq = Max (set (map re_sequence entries)) in
          bind_eff (locked DictLock WriteGuard (resolve_entries entries)) (\<lambda>resolved.
          bind_eff (locked WalLock WriteGuard (wal_call (\<lambda>w.
            wal_append_batch (ev_fmt ev) w (map WInsert resolved)))) (\<lambda>_.
          bind_eff (locked MemtableLock WriteGuard (
            bind_eff (for_eff resolved apply_tick) (\<lambda>_. get_eff (\<lambda>s. sl_len (ls_memtable s))))) (\<lambda>memtable_len.
          bind_eff (flush_when_full ev memtable_len) (\<lambda>_.
          bind_eff (locked ReplicationLock WriteGuard (tracker_call (tracker_advance (ev_rep ev) max_seq))) (\<lambda>_.
          ret (of_nat (length entries)))))))))"

definition lsm_replication_status :: "replication_status lsm_eff" where
  "lsm_replication_status =
     bind_eff (locked WalLock ReadGuard (get_eff (\<lambda>s. w_sequence (ls_wal s)))) (\<lambda>wal_seq.
     locked ReplicationLock ReadGuard (get_eff (\<lambda>s.
       let last_primary = last_primary_sequence (ls_replication s) in
       \<lparr>rs_role = ls_role s, rs_wal_sequence = wal_seq, rs_last_primary_sequence = last_primary,
        rs_lag_entries = saturating_sub wal_seq last_primary\<rparr>)))"

definition replication_last_applied :: "u64 option lsm_eff" where
  "replication_last_applied = locked ReplicationLock ReadGuard (get_eff (\<lambda>s. last_applied (ls_replication s)))"


end
