(* ===== verification/LsmWrites.thy ===== *)
theory LsmWrites
  imports Lsm
begin

text \<open>
  What the engine's writes do: the state after a sequence of inserts, in closed form, while the
  memtable stays below the flush threshold.
\<close>

named_theorems lsm_run "symbolic execution of the engine's operations"

lemmas [lsm_run] = eff_simps bind_eff_def locked_def blocked_def count_row_def wal_call_def memtable_insert_def
  dict_get_or_insert_def flush_when_full_def Let_def

subsection \<open>Writes and the ids they get\<close>

fun resolve_writes :: "symbol_dictionary \<Rightarrow> (string \<times> tick) list \<Rightarrow> symbol_dictionary \<times> tick list" where
  "resolve_writes d [] = (d, [])"
| "resolve_writes d ((n, t) # ws) = (case get_or_insert d n of (d1, i) \<Rightarrow>
     (case resolve_writes d1 ws of (d2, ts) \<Rightarrow> (d2, t\<lparr>t_symbol_id := i\<rparr> # ts)))"

lemma length_resolve: "length (snd (resolve_writes d ws)) = length ws"
  by (induction d ws rule: resolve_writes.induct) (auto split: prod.splits)

lemma resolve_storable:
  assumes "\<forall>(n, t) \<in> set ws. \<forall>i. P (t\<lparr>t_symbol_id := i\<rparr>)"
  shows "\<forall>t \<in> set (snd (resolve_writes d ws)). P t"
  using assms by (induction d ws rule: resolve_writes.induct) (auto split: prod.splits)

text \<open>The engine after the resolved ticks were logged and inserted.\<close>

definition wal_after :: "env \<Rightarrow> wal \<Rightarrow> tick list \<Rightarrow> wal" where
  "wal_after ev w ts = append_all (\<lambda>w r. snd (wal_append (ev_fmt ev) w r)) w (map WInsert ts)"

definition after_writes :: "env \<Rightarrow> symbol_dictionary \<Rightarrow> tick list \<Rightarrow> skip_list \<Rightarrow> lsm \<Rightarrow> lsm" where
  "after_writes ev d ts mt s = s\<lparr>ls_symbol_dict := d, ls_wal := wal_after ev (ls_wal s) ts,
     ls_memtable := mt, ls_total_rows := ls_total_rows s + of_nat (length ts)\<rparr>"

definition storable_tick :: "env \<Rightarrow> tick \<Rightarrow> bool" where
  "storable_tick ev t \<longleftrightarrow> (\<forall>i. wal_storable (ev_fmt ev) (WInsert (t\<lparr>t_symbol_id := i\<rparr>)))"

lemma storable_tick_self: "storable_tick ev t \<Longrightarrow> wal_storable (ev_fmt ev) (WInsert t)"
  unfolding storable_tick_def by (metis tick.surjective tick.update_convs(1))

lemma storable_tick_update [simp]: "storable_tick ev (t\<lparr>t_symbol_id := i\<rparr>) \<longleftrightarrow> storable_tick ev t"
  by (simp add: storable_tick_def)

lemma length_insert_all_le: "tick_sorted ts \<Longrightarrow> length (tick_insert_all ts us) \<le> length ts + length us"
proof (induction us arbitrary: ts)
  case (Cons u us)
  then have "length (tick_insert_all (tick_insert u ts) us) \<le> length (tick_insert u ts) + length us"
    by (simp add: tick_sorted_insert)
  also have "\<dots> \<le> length ts + length (u # us)" using Cons.prems by (simp add: length_tick_insert)
  finally show ?case by simp
qed simp

text \<open>One insert below the threshold.\<close>

lemma lsm_insert_run:
  assumes "ls_held s = []" "ls_role s = Primary" "sl_rep (ls_memtable s) ts"
    and "get_or_insert (ls_symbol_dict s) n = (d, i)" "storable_tick ev t"
    and "sl_insert (ls_memtable s) (t\<lparr>t_symbol_id := i\<rparr>) = Some mt"
    and "Suc (length ts) < memtable_flush_threshold (ls_config s)"
  shows "lsm_insert ev n t s = (Ok (), after_writes ev d [t\<lparr>t_symbol_id := i\<rparr>] mt s)"
proof -
  let ?t = "t\<lparr>t_symbol_id := i\<rparr>"
  have "wal_append (ev_fmt ev) (ls_wal s) (WInsert ?t) = (Ok (w_sequence (ls_wal s) + 1), wal_after ev (ls_wal s) [?t])"
    using wal_append_storable [of "ev_fmt ev" "WInsert ?t" "ls_wal s"] storable_tick_self [of ev ?t] assms(5)
    by (simp add: wal_after_def)
  moreover have "sl_len mt < memtable_flush_threshold (ls_config s)"
  proof -
    have "sl_rep mt (tick_insert ?t ts)" using sl.ins_rep [OF assms(3), of ?t] assms(6) by auto
    then have "sl_len mt = length (tick_insert ?t ts)" by (rule sl.len_rep)
    also have "\<dots> \<le> Suc (length ts)" using sl.rep_sorted [OF assms(3)] by (simp add: length_tick_insert)
    finally show ?thesis using assms(7) by simp
  qed
  ultimately show ?thesis
    using assms(1,2,4,6) by (simp add: lsm_insert_def after_writes_def lsm_run)
qed


subsection \<open>Sequences of writes\<close>

lemma wal_after_append: "wal_after ev (wal_after ev w ts) us = wal_after ev w (ts @ us)"
proof -
  have "append_all f (append_all f w rs) qs = append_all f w (rs @ qs)"
    for f :: "wal \<Rightarrow> wal_record \<Rightarrow> wal" and rs qs
    by (induction rs arbitrary: w) auto
  then show ?thesis by (simp add: wal_after_def)
qed

lemma after_writes_twice:
  "after_writes ev d2 us mt2 (after_writes ev d1 ts mt1 s) = after_writes ev d2 (ts @ us) mt2 s"
  by (simp add: after_writes_def wal_after_append add.assoc)

lemma after_writes_none: "after_writes ev (ls_symbol_dict s) [] (ls_memtable s) s = s"
  by (simp add: after_writes_def wal_after_def)

lemma after_writes_fields [simp]:
  "ls_held (after_writes ev d ts mt s) = ls_held s" "ls_role (after_writes ev d ts mt s) = ls_role s"
  "ls_config (after_writes ev d ts mt s) = ls_config s" "ls_memtable (after_writes ev d ts mt s) = mt"
  "ls_symbol_dict (after_writes ev d ts mt s) = d" "ls_wal (after_writes ev d ts mt s) = wal_after ev (ls_wal s) ts"
  "en_cm (after_writes ev d ts mt s) = en_cm s" "en_world (after_writes ev d ts mt s) = en_world s"
  "en_cold (after_writes ev d ts mt s) = en_cold s" "en_cache (after_writes ev d ts mt s) = en_cache s"
  "ls_replication (after_writes ev d ts mt s) = ls_replication s" "ls_data_dir (after_writes ev d ts mt s) = ls_data_dir s"
  by (simp_all add: after_writes_def)

definition insert_each :: "env \<Rightarrow> (string \<times> tick) list \<Rightarrow> unit lsm_eff" where
  "insert_each ev ws = for_eff ws (\<lambda>(n, t). lsm_insert ev n t)"

lemma insert_each_run:
  assumes "ls_held s = []" "ls_role s = Primary" "sl_rep (ls_memtable s) ts"
    and "resolve_writes (ls_symbol_dict s) ws = (d, us)" "\<forall>(n, t) \<in> set ws. storable_tick ev t"
    and "insert_all sl_insert (ls_memtable s) us = Some mt"
    and "length ts + length ws < memtable_flush_threshold (ls_config s)"
  shows "insert_each ev ws s = (Ok (), after_writes ev d us mt s)"
  using assms
proof (induction ws arbitrary: s ts us)
  case Nil
  then show ?case using after_writes_none by (auto simp: insert_each_def ret_def)
next
  case (Cons w ws)
  obtain n t where w: "w = (n, t)" by fastforce
  obtain d1 i where i: "get_or_insert (ls_symbol_dict s) n = (d1, i)" by fastforce
  let ?t = "t\<lparr>t_symbol_id := i\<rparr>"
  obtain us' where us: "us = ?t # us'" "resolve_writes d1 ws = (d, us')"
    using Cons.prems(4) i w by (auto split: prod.splits)
  obtain mt1 where mt1: "sl_insert (ls_memtable s) ?t = Some mt1" "sl_rep mt1 (tick_insert ?t ts)"
    using sl.ins_rep [OF Cons.prems(3)] by blast
  let ?s = "after_writes ev d1 [?t] mt1 s"
  have one: "lsm_insert ev n t s = (Ok (), ?s)"
    using Cons.prems mt1 i w by (intro lsm_insert_run) auto
  have "length (tick_insert ?t ts) \<le> Suc (length ts)"
    using sl.rep_sorted [OF Cons.prems(3)] by (simp add: length_tick_insert)
  then have "insert_each ev ws ?s = (Ok (), after_writes ev d us' mt ?s)"
    using Cons.prems us mt1 by (intro Cons.IH [of _ "tick_insert ?t ts"]) auto
  then show ?case using one us by (simp add: insert_each_def w after_writes_twice)
qed

lemma multi_rows_run:
  assumes "resolve_writes (ls_symbol_dict s) (map (\<lambda>t. (st_symbol t, to_tick t 0)) ts) = (d, us)"
    and "insert_all sl_insert (ls_memtable s) us = Some mt"
  shows "multi_rows ts s = (Ok (map WInsert us), s\<lparr>ls_symbol_dict := d, ls_memtable := mt,
    ls_total_rows := ls_total_rows s + of_nat (length us)\<rparr>)"
  using assms
proof (induction ts arbitrary: s us)
  case Nil
  then show ?case by (auto simp: ret_def)
next
  case (Cons t ts)
  obtain d1 i where i: "get_or_insert (ls_symbol_dict s) (st_symbol t) = (d1, i)" by fastforce
  have tt: "(to_tick t 0)\<lparr>t_symbol_id := i\<rparr> = to_tick t i" by (simp add: to_tick_def)
  obtain us' where us: "us = to_tick t i # us'"
    "resolve_writes d1 (map (\<lambda>t. (st_symbol t, to_tick t 0)) ts) = (d, us')"
    using Cons.prems(1) i tt by (auto split: prod.splits)
  obtain mt1 where mt1: "sl_insert (ls_memtable s) (to_tick t i) = Some mt1" "insert_all sl_insert mt1 us' = Some mt"
    using Cons.prems(2) us(1) by (auto simp: bind_eq_Some_conv)
  let ?s = "s\<lparr>ls_symbol_dict := d1, ls_memtable := mt1, ls_total_rows := ls_total_rows s + 1\<rparr>"
  have "multi_rows ts ?s = (Ok (map WInsert us'), ?s\<lparr>ls_symbol_dict := d, ls_memtable := mt,
    ls_total_rows := ls_total_rows ?s + of_nat (length us')\<rparr>)"
    using us mt1 by (intro Cons.IH) simp_all
  then show ?case using i mt1 us(1) by (simp add: lsm_run add.assoc)
qed

text \<open>A rectangular batch as a list of writes.\<close>

definition batch_writes :: "string \<Rightarrow> tick_batch \<Rightarrow> (string \<times> tick) list" where
  "batch_writes symbol b = map (\<lambda>i. (symbol, the (tick_at b i 0))) [0 ..< batch_len b]"

lemma tick_at_id: "map_option (\<lambda>t. t\<lparr>t_symbol_id := i\<rparr>) (tick_at b k j) = tick_at b k i"
  by (simp add: tick_at_def)

text \<open>All writes of one symbol get the id of the first.\<close>

lemma resolve_same_symbol:
  "symbol_to_id d n = Some i \<Longrightarrow> resolve_writes d (map (Pair n) ts) = (d, map (\<lambda>t. t\<lparr>t_symbol_id := i\<rparr>) ts)"
  by (induction ts) (simp_all add: get_or_insert_known)

lemma get_or_insert_then_known: "get_or_insert d n = (d', i) \<Longrightarrow> symbol_to_id d' n = Some i"
  by (auto simp: get_or_insert_def Let_def split: option.splits)

lemma batch_rows_run:
  assumes "batch_rectangular b" "\<forall>k \<in> set is. k < batch_len b"
    and "insert_all sl_insert (ls_memtable s) (map (\<lambda>k. the (tick_at b k i)) is) = Some mt"
  shows "batch_rows b i is s = (Ok (map (\<lambda>k. WInsert (the (tick_at b k i))) is), s\<lparr>ls_memtable := mt,
    ls_total_rows := ls_total_rows s + of_nat (length is)\<rparr>)"
  using assms(2,3)
proof (induction "is" arbitrary: s)
  case Nil
  then show ?case by (simp add: ret_def)
next
  case (Cons k ks)
  obtain t where t: "tick_at b k i = Some t" using tick_at_rectangular [OF assms(1), of k i] Cons.prems(1) by auto
  obtain mt1 where mt1: "sl_insert (ls_memtable s) t = Some mt1"
    "insert_all sl_insert mt1 (map (\<lambda>k. the (tick_at b k i)) ks) = Some mt"
    using Cons.prems(2) t by (auto simp: bind_eq_Some_conv)
  let ?s = "s\<lparr>ls_memtable := mt1, ls_total_rows := ls_total_rows s + 1\<rparr>"
  have "batch_rows b i ks ?s = (Ok (map (\<lambda>k. WInsert (the (tick_at b k i))) ks), ?s\<lparr>ls_memtable := mt,
    ls_total_rows := ls_total_rows ?s + of_nat (length ks)\<rparr>)"
    using Cons.prems mt1 by (intro Cons.IH) simp_all
  then show ?case using t mt1 by (simp add: lsm_run add.assoc)
qed

text \<open>The guarded part of both bulk writes, and the bulk writes themselves.\<close>

lemma write_rows_then_log_run:
  assumes "\<forall>g. (MemtableLock, g) \<notin> set held \<and> (WalLock, g) \<notin> set held"
    and "ls_held s = held"
    and "rows (s\<lparr>ls_held := (MemtableLock, WriteGuard) # held\<rparr>) = (Ok (map WInsert us),
      (s\<lparr>ls_held := (MemtableLock, WriteGuard) # held\<rparr>)\<lparr>ls_symbol_dict := d, ls_memtable := mt, ls_total_rows := r\<rparr>)"
    and "\<forall>t \<in> set us. storable_tick ev t"
  shows "write_rows_then_log ev rows s = (Ok (sl_len mt), s\<lparr>ls_symbol_dict := d, ls_memtable := mt,
    ls_total_rows := r, ls_wal := wal_after ev (ls_wal s) us\<rparr>)"
proof -
  have "wal_append_batch (ev_fmt ev) (ls_wal s) (map WInsert us)
      = (Ok (w_sequence (ls_wal s) + of_nat (length us)), wal_after ev (ls_wal s) us)"
    using wal_append_batch_all [of "map WInsert us" "ev_fmt ev" "ls_wal s"] assms(4) storable_tick_self
    by (auto simp: wal_after_def)
  then show ?thesis
    using assms by (auto simp: write_rows_then_log_def lsm_run)
qed


lemma below_threshold_len:
  assumes "sl_rep mt0 ts" "insert_all sl_insert mt0 us = Some mt" "length ts + length us < n"
  shows "sl_len mt < n"
proof -
  have "sl_rep mt (tick_insert_all ts us)" using sl.insert_all_rep [OF assms(1), of us] assms(2) by auto
  then have "sl_len mt = length (tick_insert_all ts us)" by (rule sl.len_rep)
  also have "\<dots> \<le> length ts + length us" using sl.rep_sorted [OF assms(1)] by (rule length_insert_all_le)
  finally show ?thesis using assms(3) by simp
qed

lemma insert_multi_run:
  assumes "ls_held s = []" "sl_rep (ls_memtable s) ts"
    and "resolve_writes (ls_symbol_dict s) (map (\<lambda>t. (st_symbol t, to_tick t 0)) ws) = (d, us)"
    and "\<forall>t \<in> set ws. storable_tick ev (to_tick t 0)" "insert_all sl_insert (ls_memtable s) us = Some mt"
    and "length ts + length ws < memtable_flush_threshold (ls_config s)"
  shows "insert_multi ev ws s = (Ok (), after_writes ev d us mt s)"
proof (cases "ws = []")
  case True
  then show ?thesis using assms after_writes_none by (auto simp: insert_multi_def ret_def)
next
  case False
  let ?s = "s\<lparr>ls_held := [(DictLock, WriteGuard)]\<rparr>"
  let ?r = "ls_total_rows s + of_nat (length us)"
  have st: "\<forall>t \<in> set us. storable_tick ev t"
    using resolve_storable [of "map (\<lambda>t. (st_symbol t, to_tick t 0)) ws" "storable_tick ev" "ls_symbol_dict s"] assms(3,4) by auto
  have rows: "multi_rows ws (?s\<lparr>ls_held := (MemtableLock, WriteGuard) # [(DictLock, WriteGuard)]\<rparr>) = (Ok (map WInsert us),
      (?s\<lparr>ls_held := (MemtableLock, WriteGuard) # [(DictLock, WriteGuard)]\<rparr>)
        \<lparr>ls_symbol_dict := d, ls_memtable := mt, ls_total_rows := ?r\<rparr>)"
    using assms(3,5) by (subst multi_rows_run [where d = d and us = us and mt = mt]) simp_all
  have "write_rows_then_log ev (multi_rows ws) ?s = (Ok (sl_len mt), ?s\<lparr>ls_symbol_dict := d, ls_memtable := mt,
      ls_total_rows := ?r, ls_wal := wal_after ev (ls_wal ?s) us\<rparr>)"
    by (rule write_rows_then_log_run [where s = ?s and held = "[(DictLock, WriteGuard)]" and us = us and d = d
          and mt = mt and r = ?r and ev = ev and rows = "multi_rows ws", OF _ _ rows st]) simp_all
  moreover have "length us = length ws"
    using length_resolve [of "ls_symbol_dict s" "map (\<lambda>t. (st_symbol t, to_tick t 0)) ws"] assms(3) by simp
  then have "sl_len mt < memtable_flush_threshold (ls_config s)"
    using below_threshold_len [OF assms(2,5)] assms(6) by simp
  ultimately show ?thesis
    using False assms(1) by (simp add: insert_multi_def after_writes_def lsm_run)
qed

lemma insert_batch_run:
  assumes "ls_held s = []" "sl_rep (ls_memtable s) ts" "batch_rectangular b"
    and "resolve_writes (ls_symbol_dict s) (batch_writes symbol b) = (d, us)"
    and "\<forall>(n, t) \<in> set (batch_writes symbol b). storable_tick ev t" "insert_all sl_insert (ls_memtable s) us = Some mt"
    and "length ts + batch_len b < memtable_flush_threshold (ls_config s)"
  shows "insert_batch ev symbol b s = (Ok (), after_writes ev d us mt s)"
proof (cases "batch_is_empty b")
  case True
  then have "batch_writes symbol b = []" by (simp add: batch_writes_def batch_is_empty_def batch_len_def)
  then show ?thesis using True assms after_writes_none by (auto simp: insert_batch_def ret_def)
next
  case False
  obtain d1 i where i: "get_or_insert (ls_symbol_dict s) symbol = (d1, i)" by fastforce
  have row: "(the (tick_at b k 0))\<lparr>t_symbol_id := i\<rparr> = the (tick_at b k i)" if k: "k < batch_len b" for k
  proof -
    obtain t where "tick_at b k 0 = Some t" using tick_at_rectangular [OF assms(3), of k 0] k by auto
    then show ?thesis using tick_at_id [of i b k 0] by (metis option.map_sel option.sel option.simps(3))
  qed
  have us: "us = map (\<lambda>k. the (tick_at b k i)) [0 ..< batch_len b]" and d: "d = d1"
  proof -
    have pos: "batch_len b \<noteq> 0" using False by (simp add: batch_is_empty_def batch_len_def)
    have w: "batch_writes symbol b = map (Pair symbol) (map (\<lambda>k. the (tick_at b k 0)) [0 ..< batch_len b])"
      by (simp add: batch_writes_def)
    have "resolve_writes (ls_symbol_dict s) (batch_writes symbol b)
      = resolve_writes d1 (batch_writes symbol b)"
      using pos i get_or_insert_known [OF get_or_insert_then_known [OF i]]
      by (cases "batch_writes symbol b") (auto simp: w Cons_eq_map_conv)
    then have "(d, us) = (d1, map (\<lambda>t. t\<lparr>t_symbol_id := i\<rparr>) (map (\<lambda>k. the (tick_at b k 0)) [0 ..< batch_len b]))"
      unfolding w resolve_same_symbol [OF get_or_insert_then_known [OF i]] using assms(4) w by simp
    then show "us = map (\<lambda>k. the (tick_at b k i)) [0 ..< batch_len b]" "d = d1" using row by auto
  qed
  let ?s = "s\<lparr>ls_held := [(DictLock, WriteGuard)], ls_symbol_dict := d1\<rparr>"
  let ?r = "ls_total_rows s + of_nat (length us)"
  have st: "\<forall>t \<in> set us. storable_tick ev t"
    using resolve_storable [of "batch_writes symbol b" "storable_tick ev" "ls_symbol_dict s"] assms(4,5) by auto
  have rows: "batch_rows b i [0 ..< batch_len b] (?s\<lparr>ls_held := (MemtableLock, WriteGuard) # [(DictLock, WriteGuard)]\<rparr>)
    = (Ok (map WInsert us), (?s\<lparr>ls_held := (MemtableLock, WriteGuard) # [(DictLock, WriteGuard)]\<rparr>)
        \<lparr>ls_symbol_dict := d1, ls_memtable := mt, ls_total_rows := ?r\<rparr>)"
    using assms(6) us by (subst batch_rows_run [OF assms(3), where mt = mt]) simp_all
  have "write_rows_then_log ev (batch_rows b i [0 ..< batch_len b]) ?s = (Ok (sl_len mt), ?s\<lparr>ls_symbol_dict := d1,
      ls_memtable := mt, ls_total_rows := ?r, ls_wal := wal_after ev (ls_wal ?s) us\<rparr>)"
    by (rule write_rows_then_log_run [where s = ?s and held = "[(DictLock, WriteGuard)]" and us = us and d = d1
          and mt = mt and r = ?r and ev = ev
          and rows = "batch_rows b i [0 ..< batch_len b]", OF _ _ rows st]) simp_all
  moreover have "sl_len mt < memtable_flush_threshold (ls_config s)"
    using below_threshold_len [OF assms(2,6)] assms(7) us by simp
  ultimately show ?thesis
    using False assms(1) i d by (simp add: insert_batch_def after_writes_def lsm_run)
qed

end
