(* ===== verification/LsmReads.thy ===== *)
theory LsmReads
  imports LsmWrites
begin

text \<open>
  What the engine's reads return while all ticks are in the memtable, and the state an engine is
  opened in.
\<close>

subsection \<open>What a symbol's id stands for\<close>

text \<open>The specification: the last tick written for a symbol and a timestamp.\<close>

fun last_tick :: "(string \<times> tick) list \<Rightarrow> string \<Rightarrow> i64 \<Rightarrow> tick option" where
  "last_tick [] n ts = None"
| "last_tick ((m, t) # ws) n ts = (case last_tick ws n ts of
      Some u \<Rightarrow> Some u | None \<Rightarrow> if m = n \<and> t_timestamp t = ts then Some t else None)"

lemma get_or_insert_step:
  assumes "dict_inv d" "dict_len d < 2 ^ 16" "get_or_insert d n = (d1, i)"
  shows "dict_inv d1" "dict_len d1 \<le> Suc (dict_len d)" "get_id d1 n = Some i"
    "get_id d m = Some j \<Longrightarrow> get_id d1 m = Some j" "set (id_to_symbol d1) = insert n (set (id_to_symbol d))"
proof -
  show "dict_inv d1" using dict_inv_get_or_insert [OF assms(1), of n] assms(2,3) by simp
  show "dict_len d1 \<le> Suc (dict_len d)"
    using assms(3) by (auto simp: get_or_insert_def dict_len_def Let_def split: option.splits)
  show "get_id d1 n = Some i" using assms(3) by (simp add: get_id_get_or_insert)
  show "get_id d m = Some j \<Longrightarrow> get_id d1 m = Some j"
    using assms(3) by (auto simp: get_or_insert_def get_id_def Let_def split: option.splits)
  show "set (id_to_symbol d1) = insert n (set (id_to_symbol d))"
  proof (cases "symbol_to_id d n")
    case None
    then show ?thesis using assms(3) by (auto simp: get_or_insert_def Let_def)
  next
    case (Some j)
    then have "n \<in> set (id_to_symbol d)" using dict_unmapped [OF assms(1), of n] by fastforce
    then show ?thesis using assms(3) Some by (auto simp: get_or_insert_def)
  qed
qed

lemma resolve_spec:
  assumes "dict_inv d" "dict_len d + length ws \<le> 2 ^ 16" "resolve_writes d ws = (d', us)"
  shows "dict_inv d' \<and> set (id_to_symbol d') = set (id_to_symbol d) \<union> fst ` set ws \<and>
    (\<forall>n i. get_id d n = Some i \<longrightarrow> get_id d' n = Some i) \<and>
    (\<forall>n i ts. get_id d' n = Some i \<longrightarrow>
      last_write us (Key i ts) = map_option (\<lambda>t. t\<lparr>t_symbol_id := i\<rparr>) (last_tick ws n ts))"
  using assms
proof (induction ws arbitrary: d us)
  case (Cons w ws)
  obtain n0 t where w: "w = (n0, t)" by fastforce
  obtain d1 i0 where i0: "get_or_insert d n0 = (d1, i0)" by fastforce
  have "dict_len d < 2 ^ 16" using Cons.prems(2) by simp
  note one = get_or_insert_step [OF Cons.prems(1) this i0]
  obtain us' where us: "us = t\<lparr>t_symbol_id := i0\<rparr> # us'" "resolve_writes d1 ws = (d', us')"
    using Cons.prems(3) i0 w by (auto split: prod.splits)
  have IH: "dict_inv d'" "set (id_to_symbol d') = set (id_to_symbol d1) \<union> fst ` set ws"
    "\<And>n i. get_id d1 n = Some i \<Longrightarrow> get_id d' n = Some i"
    "\<And>n i ts. get_id d' n = Some i \<Longrightarrow>
      last_write us' (Key i ts) = map_option (\<lambda>t. t\<lparr>t_symbol_id := i\<rparr>) (last_tick ws n ts)"
    using Cons.IH [OF one(1) _ us(2)] one(2) Cons.prems(2) by auto
  have same: "i0 = i \<longleftrightarrow> n0 = n" if i: "get_id d' n = Some i" for n i
    using i IH(3) [OF one(3)] dict_id_iff [OF IH(1)] by (metis option.inject)
  have "last_write us (Key i ts) = map_option (\<lambda>t. t\<lparr>t_symbol_id := i\<rparr>) (last_tick (w # ws) n ts)"
    if i: "get_id d' n = Some i" for n i ts
    using IH(4) [OF i] same [OF i] by (auto simp: us w tick_key_def split: option.splits)
  then show ?case using IH one w by auto
qed simp

lemma first_symbol_id:
  assumes "resolve_writes dict_new ((n, t) # ws) = (d, us)" "length ws < 2 ^ 16"
  shows "get_id d n = Some 0"
proof -
  obtain d1 where d1: "get_or_insert dict_new n = (d1, 0)"
    by (simp add: get_or_insert_def dict_new_def Let_def)
  have "dict_len dict_new < 2 ^ 16" by (simp add: dict_len_def dict_new_def)
  note one = get_or_insert_step [OF dict_inv_new this d1]
  obtain us' where us': "resolve_writes d1 ws = (d, us')" using assms(1) d1 by (auto split: prod.splits)
  have "dict_len d1 + length ws \<le> 2 ^ 16" using one(2) assms(2) by (simp add: dict_len_def dict_new_def)
  then show ?thesis using resolve_spec [OF one(1) _ us'] one(3) by blast
qed

subsection \<open>Reading the memtable\<close>

definition no_tables :: "lsm \<Rightarrow> bool" where
  "no_tables s \<longleftrightarrow> (\<forall>l \<in> set (cm_levels (en_cm s)). lv_tables l = [])"

lemma no_tables_concat [simp]:
  "no_tables s \<Longrightarrow> concat (map (\<lambda>l. rev (lv_tables l)) (cm_levels (en_cm s))) = []"
  "no_tables s \<Longrightarrow> concat (map lv_tables (cm_levels (en_cm s))) = []"
  by (auto simp: no_tables_def)

lemma lsm_restore_held [simp]: "ls_held s = h \<Longrightarrow> s\<lparr>ls_held := h\<rparr> = (s :: lsm)"
  by auto

lemma lsm_get_run:
  assumes "ls_held s = []" "sl_rep (ls_memtable s) ts" "no_tables s"
  shows "lsm_get ev n k s = ((case get_id (ls_symbol_dict s) n of
      None \<Rightarrow> Err (SymbolNotFound n) | Some i \<Rightarrow> Ok (tick_lookup ts (Key i k))), s)"
  using assms(1,3) sl.get_rep [OF assms(2)]
  by (simp add: lsm_get_def lsm_run symbol_id_of_def memtable_get_def no_tables_def split: option.split)

lemma scan_symbol_id_run:
  assumes "ls_held s = []"
  shows "scan_symbol_id symbol s = ((case symbol of None \<Rightarrow> Ok None
     | Some n \<Rightarrow> (case get_id (ls_symbol_dict s) n of None \<Rightarrow> Err (SymbolNotFound n) | Some i \<Rightarrow> Ok (Some i))), s)"
  using assms by (simp add: scan_symbol_id_def lsm_run symbol_id_of_def split: option.split)

lemma merge_sorted: "tick_sorted ts \<Longrightarrow> merge_ticks ts = ts"
  using merge_ticks_spec [of ts] by (intro tick_sorted_eqI) auto

lemma lsm_scan_run:
  assumes "ls_held s = []" "sl_rep (ls_memtable s) ts" "no_tables s"
  shows "lsm_scan ev symbol t1 t2 cols s = ((case symbol of None \<Rightarrow> Ok (filter (scan_wants None t1 t2) ts)
     | Some n \<Rightarrow> (case get_id (ls_symbol_dict s) n of None \<Rightarrow> Err (SymbolNotFound n)
         | Some i \<Rightarrow> Ok (filter (scan_wants (Some i) t1 t2) ts))), s)"
proof -
  have m: "merge_ticks (filter P ts) = filter P ts" for P
    using sl.rep_sorted [OF assms(2)] by (intro merge_sorted tick_sorted_filter)
  have "scan_tables ev i t1 t2 (concat (map lv_tables (cm_levels (en_cm s)))) s' = (Ok [], s')" for i s'
    using no_tables_concat(2) [OF assms(3)] by (metis ret_def scan_tables.simps(1))
  then show ?thesis
    using assms(1) sl.iter_rep [OF assms(2)] m
    by (simp add: lsm_scan_def bind_eff_def scan_symbol_id_run locked_def blocked_def eff_simps split: option.split)
qed

subsection \<open>Opening\<close>

fun inserted_ticks :: "wal_record list \<Rightarrow> tick list" where
  "inserted_ticks [] = []"
| "inserted_ticks (WInsert t # rs) = t # inserted_ticks rs"
| "inserted_ticks (_ # rs) = inserted_ticks rs"

lemma inserted_ticks_map [simp]: "inserted_ticks (map WInsert ts) = ts"
  by (induction ts) auto

lemma recover_records_run:
  "insert_all sl_insert (ls_memtable s) (inserted_ticks rs) = Some mt \<Longrightarrow>
    for_eff rs recover_record s = (Ok (), s\<lparr>ls_memtable := mt\<rparr>)"
proof (induction rs arbitrary: s)
  case (Cons r rs)
  show ?case
  proof (cases r)
    case (WInsert t)
    then obtain mt1 where mt1: "sl_insert (ls_memtable s) t = Some mt1"
      "insert_all sl_insert mt1 (inserted_ticks rs) = Some mt"
      using Cons.prems by (auto simp: bind_eq_Some_conv)
    then show ?thesis using Cons.IH [of "s\<lparr>ls_memtable := mt1\<rparr>"] WInsert
      by (simp add: recover_record_def lsm_run)
  qed (use Cons in \<open>simp_all add: recover_record_def eff_simps\<close>)
qed (simp add: ret_def)

definition no_sst_files :: "world \<Rightarrow> bool" where
  "no_sst_files w \<longleftrightarrow> (\<forall>f \<in> set (wd_fs w). \<not> has_sst_extension (fst f))"

lemma load_no_files:
  "\<forall>p \<in> set ps. \<not> has_sst_extension p \<Longrightarrow> for_eff ps (load_sstable ev) s = (Ok (), s)"
  by (induction ps) (auto simp: load_sstable_def eff_simps)

definition fresh_lsm :: "env \<Rightarrow> string \<Rightarrow> lsm_config \<Rightarrow> world \<Rightarrow> skip_list \<Rightarrow> wal \<Rightarrow> replication_tracker \<Rightarrow> lsm" where
  "fresh_lsm ev path config w mt wl tr =
     \<lparr>en_cm = cm_new path dict_new, en_world = w, en_cache = cache_new (cache_size_mb config), en_cold = None,
       ls_data_dir = path, ls_memtable = mt, ls_wal = wl, ls_symbol_dict = dict_new,
       ls_config = config, ls_bloom_checks = 0, ls_bloom_hits = 0, ls_total_rows = 0,
       ls_role = node_role_cfg config, ls_replication = tr, ls_held = [], ls_waits_for = None\<rparr>"

lemma fresh_lsm_fields [simp]:
  "ls_held (fresh_lsm ev path config w mt wl tr) = []" "ls_memtable (fresh_lsm ev path config w mt wl tr) = mt"
  "ls_symbol_dict (fresh_lsm ev path config w mt wl tr) = dict_new" "ls_wal (fresh_lsm ev path config w mt wl tr) = wl"
  "ls_role (fresh_lsm ev path config w mt wl tr) = node_role_cfg config" "ls_data_dir (fresh_lsm ev path config w mt wl tr) = path"
  "ls_config (fresh_lsm ev path config w mt wl tr) = config" "en_world (fresh_lsm ev path config w mt wl tr) = w"
  "ls_replication (fresh_lsm ev path config w mt wl tr) = tr" "no_tables (fresh_lsm ev path config w mt wl tr)"
  by (simp_all add: fresh_lsm_def no_tables_def cm_new_def level_new_def)

lemma lsm_open_run:
  assumes "cold_tier_uri config = None" "wal_open (ev_fmt ev) wal_file = Ok wl"
    and "tracker_open (ev_rep ev) rep_file = Ok tr" "no_sst_files w"
  obtains mt where "lsm_open ev path config wal_file rep_file w = Ok (fresh_lsm ev path config w mt wl tr)"
    "sl_rep mt (tick_insert_all [] (inserted_ticks (w_replayed wl)))"
proof -
  obtain mt where mt: "insert_all sl_insert (sl_new (ev_rng ev)) (inserted_ticks (w_replayed wl)) = Some mt"
    "sl_rep mt (tick_insert_all [] (inserted_ticks (w_replayed wl)))"
    using sl.insert_all_rep [OF sl_rep_new] by blast
  have files: "for_eff (map fst (wd_fs w)) (load_sstable ev) s = (Ok (), s)" for s
    using assms(4) by (intro load_no_files) (auto simp: no_sst_files_def)
  have "lsm_open ev path config wal_file rep_file w = Ok (fresh_lsm ev path config w mt wl tr)"
    using assms(1-3) recover_records_run [of _ "w_replayed wl" mt] mt(1)
    by (simp add: lsm_open_def lsm_new_def recover_from_wal_def load_sstables_def bind_eff_def locked_def blocked_def
        eff_simps files fresh_lsm_def)
  then show ?thesis using mt(2) by (rule that)
qed

text \<open>Opening an empty directory.\<close>

lemma lsm_create_run:
  assumes "cold_tier_uri config = None" "no_sst_files w" "lsm_open ev path config [] None w = Ok s"
  obtains mt where "s = fresh_lsm ev path config w mt
      \<lparr>w_file = [], w_offset = 0, w_sequence = 0, w_replayed = []\<rparr> \<lparr>rt_file = None, rt_state = None\<rparr>"
    "sl_rep mt []"
proof -
  let ?wl = "\<lparr>w_file = [], w_offset = 0, w_sequence = 0, w_replayed = []\<rparr>"
  let ?tr = "\<lparr>rt_file = None, rt_state = None\<rparr>"
  have w: "wal_open (ev_fmt ev) [] = Ok ?wl" using wal_open_frames [of "[]" "ev_fmt ev" 0] by simp
  have t: "tracker_open (ev_rep ev) None = Ok ?tr" by (simp add: tracker_open_def)
  show ?thesis
    by (rule lsm_open_run [OF assms(1) w t assms(2), of path]) (use assms(3) that in simp)
qed

end
