(* ===== verification/LsmCorrect.thy ===== *)
theory LsmCorrect
  imports LsmReads
begin

text \<open>
  The properties of the engine: what reads return after writes, that the ways of writing agree,
  what a restart keeps and loses, where the engine blocks, and replication.
\<close>

subsection \<open>A database that is only written to\<close>

definition fresh_open :: "env \<Rightarrow> string \<Rightarrow> lsm_config \<Rightarrow> world \<Rightarrow> lsm \<Rightarrow> bool" where
  "fresh_open ev path config w s \<longleftrightarrow> cold_tier_uri config = None \<and> no_sst_files w \<and>
     lsm_open ev path config [] None w = Ok s"

definition empty_wal :: wal where
  "empty_wal = \<lparr>w_file = [], w_offset = 0, w_sequence = 0, w_replayed = []\<rparr>"

lemma empty_wal_rep [simp]: "wal_rep fmt empty_wal []"
  by (simp add: wal_rep_def empty_wal_def)

lemma wal_after_rep:
  "wal_rep (ev_fmt ev) w rs \<Longrightarrow> \<forall>t \<in> set us. storable_tick ev t \<Longrightarrow>
    wal_rep (ev_fmt ev) (wal_after ev w us) (rs @ map WInsert us)"
  unfolding wal_after_def using storable_tick_self by (intro wal.append_all_rep) auto

text \<open>The state after writes to a fresh database.\<close>

lemma fresh_writes:
  assumes "fresh_open ev path config w s" "node_role_cfg config = Primary"
    and "\<forall>(n, t) \<in> set ws. storable_tick ev t" "length ws < memtable_flush_threshold config"
    and "resolve_writes dict_new ws = (d, us)"
  obtains mt0 mt where "s = fresh_lsm ev path config w mt0 empty_wal \<lparr>rt_file = None, rt_state = None\<rparr>"
    "sl_rep mt0 []" "insert_all sl_insert mt0 us = Some mt" "sl_rep mt (tick_insert_all [] us)"
    "insert_each ev ws s = (Ok (), after_writes ev d us mt s)" "\<forall>t \<in> set us. storable_tick ev t"
proof -
  obtain mt0 where s: "s = fresh_lsm ev path config w mt0 empty_wal \<lparr>rt_file = None, rt_state = None\<rparr>"
    and mt0: "sl_rep mt0 []"
    using lsm_create_run [of config w ev path s] assms(1) by (auto simp: fresh_open_def empty_wal_def)
  obtain mt where mt: "insert_all sl_insert mt0 us = Some mt" "sl_rep mt (tick_insert_all [] us)"
    using sl.insert_all_rep [OF mt0] by blast
  have "insert_each ev ws s = (Ok (), after_writes ev d us mt s)"
    using assms mt mt0 by (intro insert_each_run [where ts = "[]"]) (auto simp: s)
  moreover have "\<forall>t \<in> set us. storable_tick ev t"
    using resolve_storable [of ws "storable_tick ev" dict_new] assms(3,5) by auto
  ultimately show ?thesis using s mt0 mt that by blast
qed

lemma no_tables_after [simp]: "no_tables (after_writes ev d us mt s) = no_tables s"
  by (simp add: no_tables_def)

text \<open>What a lookup returns, as the specification has it.\<close>

definition spec_get :: "(string \<times> tick) list \<Rightarrow> (string \<Rightarrow> u16) \<Rightarrow> string \<Rightarrow> i64 \<Rightarrow> (tick option, lsm_error) outcome" where
  "spec_get ws ids n k = (if n \<in> fst ` set ws
     then Ok (map_option (\<lambda>t. t\<lparr>t_symbol_id := ids n\<rparr>) (last_tick ws n k)) else Err (SymbolNotFound n))"

lemma resolved_get:
  assumes "resolve_writes dict_new ws = (d, us)" "length ws \<le> 2 ^ 16"
  shows "(case get_id d n of None \<Rightarrow> Err (SymbolNotFound n) | Some i \<Rightarrow> Ok (tick_lookup (tick_insert_all [] us) (Key i k)))
    = spec_get ws (\<lambda>n. the (get_id d n)) n k"
proof -
  have r: "dict_inv d \<and> set (id_to_symbol d) = set (id_to_symbol dict_new) \<union> fst ` set ws \<and>
    (\<forall>n i. get_id dict_new n = Some i \<longrightarrow> get_id d n = Some i) \<and>
    (\<forall>n i ts. get_id d n = Some i \<longrightarrow>
      last_write us (Key i ts) = map_option (\<lambda>t. t\<lparr>t_symbol_id := i\<rparr>) (last_tick ws n ts))"
    by (rule resolve_spec [OF dict_inv_new _ assms(1)]) (use assms(2) in \<open>simp add: dict_len_def dict_new_def\<close>)
  then have "get_id d n = None \<longleftrightarrow> n \<notin> fst ` set ws"
    using dict_unmapped [of d n] by (simp add: get_id_def dict_new_def)
  then show ?thesis using r by (auto simp: spec_get_def tick_lookup_writes simp del: tick_insert_all_simps split: option.split)
qed

subsection \<open>Properties\<close>

text \<open>
  C3. Read your writes: on a new primary, after any sequence of at most 65536 inserts that the log
  can store and that stays below the flush threshold, a lookup returns the last tick written for its symbol and timestamp, with the
  symbol's id; a timestamp never written gives nothing and a symbol never written the error
  \<open>SymbolNotFound\<close>.  No insert fails.
\<close>

theorem lsm_reads_last_write:
  assumes "fresh_open ev path config w s" and "node_role_cfg config = Primary"
    and "\<forall>(n, t) \<in> set ws. storable_tick ev t"
    and "length ws < memtable_flush_threshold config" "length ws \<le> 65536"
  shows "\<exists>s' ids. insert_each ev ws s = (Ok (), s') \<and>
    (\<forall>n k. lsm_get ev n k s' = (spec_get ws ids n k, s'))"
proof -
  obtain d us where d: "resolve_writes dict_new ws = (d, us)" by fastforce
  obtain mt0 mt where s: "s = fresh_lsm ev path config w mt0 empty_wal \<lparr>rt_file = None, rt_state = None\<rparr>"
    and mt: "sl_rep mt (tick_insert_all [] us)" "insert_each ev ws s = (Ok (), after_writes ev d us mt s)"
    using fresh_writes [OF assms(1-4) d] by metis
  have "lsm_get ev n k (after_writes ev d us mt s)
    = (spec_get ws (\<lambda>n. the (get_id d n)) n k, after_writes ev d us mt s)" for n k
    using lsm_get_run [of "after_writes ev d us mt s" "tick_insert_all [] us" ev n k] resolved_get [OF d, of n k] mt(1) assms(5)
    by (simp add: s)
  then show ?thesis using mt(2) by blast
qed

lemma example_fresh: "\<exists>s. fresh_open example_env ''d'' config_default example_world s"
proof -
  have w: "wal_open (ev_fmt example_env) [] = Ok empty_wal"
    using wal_open_frames [of "[]" "ev_fmt example_env" 0] by (simp add: empty_wal_def)
  have t: "tracker_open (ev_rep example_env) None = Ok \<lparr>rt_file = None, rt_state = None\<rparr>"
    by (simp add: tracker_open_def)
  have c: "cold_tier_uri config_default = None" "no_sst_files example_world"
    by (simp_all add: config_default_def no_sst_files_def example_world_def)
  show ?thesis
    by (rule lsm_open_run [OF c(1) w t c(2), of "''d''"]) (use c in \<open>auto simp: fresh_open_def\<close>)
qed

lemma example_storable [simp]: "storable_tick example_env t"
  by (simp add: storable_tick_def example_env_def)

theorem lsm_reads_last_write_witness:
  "\<exists>s s' ids. insert_each example_env [(''A'', example_tick 9 5), (''B'', example_tick 9 5), (''A'', example_tick 9 5)] s = (Ok (), s') \<and>
    (\<forall>n k. lsm_get example_env n k s' = (spec_get [(''A'', example_tick 9 5), (''B'', example_tick 9 5), (''A'', example_tick 9 5)] ids n k, s'))"
proof -
  obtain s where "fresh_open example_env ''d'' config_default example_world s" using example_fresh by blast
  from lsm_reads_last_write [OF this, of "[(''A'', example_tick 9 5), (''B'', example_tick 9 5), (''A'', example_tick 9 5)]"]
  show ?thesis by (auto simp: config_default_def MEMTABLE_FLUSH_THRESHOLD_def)
qed

lemma insert_batch_each:
  assumes "ls_held s = []" and "ls_role s = Primary" and "sl_rep (ls_memtable s) ts" and "batch_rectangular b"
    and "\<forall>w \<in> set (batch_writes symbol b). storable_tick ev (snd w)"
    and "length ts + batch_len b < memtable_flush_threshold (ls_config s)"
  shows "insert_batch ev symbol b s = insert_each ev (batch_writes symbol b) s"
proof -
  obtain d us where d: "resolve_writes (ls_symbol_dict s) (batch_writes symbol b) = (d, us)" by fastforce
  obtain mt where mt: "insert_all sl_insert (ls_memtable s) us = Some mt" using sl.insert_all_rep [OF assms(3)] by blast
  have st: "\<forall>(n, t) \<in> set (batch_writes symbol b). storable_tick ev t" using assms(5) by auto
  have len: "length (batch_writes symbol b) = batch_len b" by (simp add: batch_writes_def)
  show ?thesis
    using insert_batch_run [OF assms(1,3,4) d st mt assms(6)] insert_each_run [OF assms(1-3) d st mt] assms(6) len by simp
qed

text \<open>
  C7. The three ways of writing agree on a primary whose locks are free and whose memtable has
  room for the rows below the flush threshold: a multi-symbol insert, and a batch whose columns all
  have the same length, leave exactly the state (log, memtable, dictionary, counters) that
  inserting their rows one by one leaves, when the log can store the rows.
\<close>

theorem bulk_writes_equiv:
  assumes "ls_held s = []" and "ls_role s = Primary" and "sl_rep (ls_memtable s) ts"
    and "\<forall>t \<in> set rows. storable_tick ev (to_tick t 0)"
    and "length ts + length rows < memtable_flush_threshold (ls_config s)"
    and "batch_rectangular b" and "\<forall>w \<in> set (batch_writes symbol b). storable_tick ev (snd w)"
    and "length ts + batch_len b < memtable_flush_threshold (ls_config s)"
  shows "insert_multi ev rows s = insert_each ev (map (\<lambda>t. (st_symbol t, to_tick t 0)) rows) s \<and>
    insert_batch ev symbol b s = insert_each ev (batch_writes symbol b) s"
proof
  obtain d us where d: "resolve_writes (ls_symbol_dict s) (map (\<lambda>t. (st_symbol t, to_tick t 0)) rows) = (d, us)"
    by fastforce
  obtain mt where mt: "insert_all sl_insert (ls_memtable s) us = Some mt" using sl.insert_all_rep [OF assms(3)] by blast
  show "insert_multi ev rows s = insert_each ev (map (\<lambda>t. (st_symbol t, to_tick t 0)) rows) s"
    using insert_multi_run [OF assms(1,3) d assms(4) mt assms(5)]
      insert_each_run [OF assms(1-3) d _ mt] assms(4,5) by auto
  show "insert_batch ev symbol b s = insert_each ev (batch_writes symbol b) s"
    using assms(1-3,6-8) by (rule insert_batch_each)
qed

definition example_state :: lsm where
  "example_state = fresh_lsm example_env ''d'' config_default example_world (sl_new (\<lambda>_. 0)) empty_wal
     \<lparr>rt_file = None, rt_state = None\<rparr>"

definition example_batch :: tick_batch where
  "example_batch = \<lparr>b_timestamps = [5, 6], b_opens = [0, 0], b_highs = [0, 0], b_lows = [0, 0],
     b_closes = [0, 0], b_volumes = [1, 2]\<rparr>"

lemma example_state_fields [simp]:
  "ls_held example_state = []" "ls_role example_state = Primary" "sl_rep (ls_memtable example_state) []"
  "memtable_flush_threshold (ls_config example_state) = 10000" "ls_symbol_dict example_state = dict_new"
  "no_tables example_state" "ls_wal example_state = empty_wal"
  by (simp_all add: example_state_def config_default_def MEMTABLE_FLUSH_THRESHOLD_def sl_rep_new)

definition example_rows :: "symbol_tick list" where
  "example_rows = [\<lparr>st_symbol = ''A'', st_timestamp = 7, st_open = 0, st_high = 0, st_low = 0, st_close = 0, st_volume = 1\<rparr>,
     \<lparr>st_symbol = ''B'', st_timestamp = 7, st_open = 0, st_high = 0, st_low = 0, st_close = 0, st_volume = 2\<rparr>]"

theorem bulk_writes_equiv_witness:
  "insert_multi example_env example_rows example_state
    = insert_each example_env (map (\<lambda>t. (st_symbol t, to_tick t 0)) example_rows) example_state \<and>
   insert_batch example_env ''A'' example_batch example_state
    = insert_each example_env (batch_writes ''A'' example_batch) example_state"
  by (rule bulk_writes_equiv [where ts = "[]"])
    (simp_all add: batch_rectangular_def batch_len_def example_batch_def example_rows_def)

subsection \<open>Blocking\<close>

lemma blocked_dict [simp]:
  "blocked DictLock g ((DictLock, WriteGuard) # h)" "\<not> blocked MemtableLock g [(DictLock, WriteGuard)]"
  "\<not> blocked WalLock g [(DictLock, WriteGuard)]" "\<not> blocked CompactionLock g [(DictLock, WriteGuard)]"
  by (auto simp: blocked_def split: guard.split)

text \<open>The engine as a thread leaves it that blocks at the dictionary.\<close>

definition at_dict :: "guard \<Rightarrow> lsm \<Rightarrow> lsm" where
  "at_dict g s = s\<lparr>ls_waits_for := Some (DictLock, g)\<rparr>"

text \<open>Whether every operation that uses the dictionary blocks.\<close>

definition dictionary_blocked :: "env \<Rightarrow> lsm \<Rightarrow> bool" where
  "dictionary_blocked ev s \<longleftrightarrow>
     (\<forall>m u. lsm_insert ev m u s = (Deadlock, at_dict WriteGuard s)) \<and>
     (\<forall>m b. \<not> batch_is_empty b \<longrightarrow> insert_batch ev m b s = (Deadlock, at_dict WriteGuard s)) \<and>
     (\<forall>rows. rows \<noteq> [] \<longrightarrow> insert_multi ev rows s = (Deadlock, at_dict WriteGuard s)) \<and>
     (\<forall>m k. lsm_get ev m k s = (Deadlock, at_dict ReadGuard s)) \<and>
     (\<forall>m t1 t2 cols. lsm_scan ev (Some m) t1 t2 cols s = (Deadlock, at_dict ReadGuard s)) \<and>
     (\<forall>symbol t1 t2 cols. fst (lsm_scan_stream symbol t1 t2 cols s) = Deadlock) \<and>
     (\<forall>i. lsm_get_symbol i s = (Deadlock, at_dict ReadGuard s)) \<and>
     lsm_symbol_dict s = (Deadlock, at_dict ReadGuard s) \<and>
     (\<forall>after limit entries. fst (read_wal_for_replication ev after limit s) \<noteq> Ok entries)"

lemma dict_locked:
  assumes "ls_held s = [(DictLock, WriteGuard)]" "ls_role s = Primary"
  shows "dictionary_blocked ev s"
proof -
  have b: "blocked DictLock ReadGuard [(MemtableLock, ReadGuard), (CompactionLock, ReadGuard), (DictLock, WriteGuard)]"
    "\<not> blocked MemtableLock ReadGuard [(CompactionLock, ReadGuard), (DictLock, WriteGuard)]"
    by (simp_all add: blocked_def)
  show ?thesis
    using assms b by (simp add: dictionary_blocked_def at_dict_def lsm_get_def lsm_insert_def lsm_scan_def
        lsm_scan_stream_def make_scan_params_def scan_symbol_id_def insert_multi_def insert_batch_def lsm_get_symbol_def
        lsm_symbol_dict_def read_wal_for_replication_def locked_def bind_eff_def eff_simps split: option.split prod.split outcome.split)
qed

text \<open>A flush that is called under the dictionary's write guard.\<close>

lemma flush_under_dict:
  assumes "ls_held s = [(DictLock, WriteGuard)]" "sl_rep (ls_memtable s) ts" "ts \<noteq> []"
  shows "\<exists>mt. flush_memtable ev s = (Deadlock, at_dict ReadGuard (s\<lparr>ls_memtable := mt,
      en_world := (en_world s)\<lparr>wd_reads := Suc (wd_reads (en_world s))\<rparr>\<rparr>)) \<and> sl_rep mt []"
proof -
  obtain mt where "sl_drain (ls_memtable s) = Some (ts, mt)" "sl_rep mt []" using sl.drain_rep [OF assms(2)] by blast
  then show ?thesis
    using assms(1,3) by (intro exI [of _ mt]) (simp add: flush_memtable_def bind_eff_def locked_def eff_simps
        memtable_drain_def in_world_def world_now_def at_dict_def)
qed


lemma insert_before_flush:
  assumes "ls_held s = []" "ls_role s = Primary" "sl_rep (ls_memtable s) ts" "storable_tick ev t"
    and "get_or_insert (ls_symbol_dict s) n = (d, i)"
    and "memtable_flush_threshold (ls_config s) \<le> length (tick_insert (t\<lparr>t_symbol_id := i\<rparr>) ts)"
  shows "\<exists>mt. lsm_insert ev n t s = (Deadlock, at_dict ReadGuard ((after_writes ev d [t\<lparr>t_symbol_id := i\<rparr>] mt s)
      \<lparr>ls_held := [(DictLock, WriteGuard)], en_world := (en_world s)\<lparr>wd_reads := Suc (wd_reads (en_world s))\<rparr>\<rparr>))
    \<and> sl_rep mt []"
proof -
  let ?t = "t\<lparr>t_symbol_id := i\<rparr>"
  obtain mt where mt: "sl_insert (ls_memtable s) ?t = Some mt" "sl_rep mt (tick_insert ?t ts)"
    using sl.ins_rep [OF assms(3)] by blast
  let ?s = "(after_writes ev d [?t] mt s)\<lparr>ls_held := [(DictLock, WriteGuard)]\<rparr>"
  have ne: "tick_insert ?t ts \<noteq> []" by (cases ts) auto
  obtain mt' where mt': "flush_memtable ev ?s = (Deadlock, at_dict ReadGuard (?s\<lparr>ls_memtable := mt',
      en_world := (en_world ?s)\<lparr>wd_reads := Suc (wd_reads (en_world ?s))\<rparr>\<rparr>))" "sl_rep mt' []"
    using flush_under_dict [of ?s "tick_insert ?t ts" ev] mt(2) ne by auto
  have "wal_append (ev_fmt ev) (ls_wal s) (WInsert ?t) = (Ok (w_sequence (ls_wal s) + 1), wal_after ev (ls_wal s) [?t])"
    using wal_append_storable [of "ev_fmt ev" "WInsert ?t" "ls_wal s"] storable_tick_self [of ev ?t] assms(4)
    by (simp add: wal_after_def)
  moreover have "memtable_flush_threshold (ls_config s) \<le> sl_len mt"
    using sl.len_rep [OF mt(2)] assms(6) by simp
  ultimately have "lsm_insert ev n t s = (Deadlock, at_dict ReadGuard (?s\<lparr>ls_memtable := mt',
      en_world := (en_world ?s)\<lparr>wd_reads := Suc (wd_reads (en_world ?s))\<rparr>\<rparr>))"
    using assms(1,2,5) mt(1) mt'(1) by (simp add: lsm_insert_def lsm_run after_writes_def at_dict_def)
  then show ?thesis using mt'(2) by (intro exI [of _ mt']) (simp add: after_writes_def at_dict_def)
qed

text \<open>
  C4. The insert that fills the memtable never returns: \<open>insert\<close> holds the dictionary's write
  lock when \<open>flush_memtable\<close> asks for its read lock.  By then the memtable has been drained and no
  table written, so the ticks are only in the log.  The lock is never released, so from then on the
  operations that use the dictionary do not return either (\<open>dictionary_blocked\<close>): an insert, a
  batch or a multi-symbol insert of at least one row, a lookup, a scan for a symbol, \<open>get_symbol\<close>
  and \<open>symbol_dict\<close> block at it, every streaming scan blocks, and no feed of the log is served.
\<close>

theorem insert_at_threshold_deadlocks:
  assumes "ls_held s = []" and "ls_role s = Primary" and "sl_rep (ls_memtable s) ts" and "storable_tick ev t"
    and "get_or_insert (ls_symbol_dict s) n = (d, i)"
    and "memtable_flush_threshold (ls_config s) \<le> length (tick_insert (t\<lparr>t_symbol_id := i\<rparr>) ts)"
  shows "\<exists>s'. lsm_insert ev n t s = (Deadlock, s') \<and> sl_rep (ls_memtable s') [] \<and> en_cm s' = en_cm s \<and>
    wd_fs (en_world s') = wd_fs (en_world s) \<and>
    dictionary_blocked ev s'"
proof -
  obtain mt where "lsm_insert ev n t s = (Deadlock, at_dict ReadGuard ((after_writes ev d [t\<lparr>t_symbol_id := i\<rparr>] mt s)
      \<lparr>ls_held := [(DictLock, WriteGuard)], en_world := (en_world s)\<lparr>wd_reads := Suc (wd_reads (en_world s))\<rparr>\<rparr>))"
    "sl_rep mt []"
    using insert_before_flush [OF assms] by blast
  then show ?thesis using assms(2) by (intro exI conjI) (assumption | simp add: dict_locked at_dict_def)+
qed

theorem insert_at_threshold_deadlocks_witness:
  "\<exists>s'. lsm_insert example_env ''A'' (example_tick 0 5)
      (example_state\<lparr>ls_config := config_default\<lparr>memtable_flush_threshold := 1\<rparr>\<rparr>) = (Deadlock, s') \<and>
    sl_rep (ls_memtable s') [] \<and> lsm_get example_env ''A'' 5 s' = (Deadlock, at_dict ReadGuard s') \<and>
    insert_batch example_env ''A'' example_batch s' = (Deadlock, at_dict WriteGuard s')"
proof -
  let ?s = "example_state\<lparr>ls_config := config_default\<lparr>memtable_flush_threshold := 1\<rparr>\<rparr>"
  obtain d i where "get_or_insert (ls_symbol_dict ?s) ''A'' = (d, i)" by fastforce
  from insert_at_threshold_deadlocks [OF _ _ _ _ this, of "[]" example_env "example_tick 0 5"]
  show ?thesis by (auto simp: dictionary_blocked_def batch_is_empty_def batch_len_def example_batch_def)
qed


subsection \<open>Restart\<close>

text \<open>The process ends and the directory is opened again.\<close>

definition restart :: "env \<Rightarrow> lsm_config \<Rightarrow> lsm \<Rightarrow> (lsm, lsm_error) outcome" where
  "restart ev config s = lsm_open ev (ls_data_dir s) config (w_file (ls_wal s)) (rt_file (ls_replication s)) (en_world s)"

text \<open>
  The process ends in the middle of an append, when \<open>k\<close> bytes of the frame of \<open>payload\<close> have reached
  the file, and the directory is opened again; \<open>restart\<close> is the case of no byte.
\<close>

definition crash_in_append :: "env \<Rightarrow> lsm_config \<Rightarrow> bytes \<Rightarrow> nat \<Rightarrow> lsm \<Rightarrow> (lsm, lsm_error) outcome" where
  "crash_in_append ev config payload k s = lsm_open ev (ls_data_dir s) config
     (w_file (ls_wal s) @ take k (wal_frame (ev_fmt ev) (w_sequence (ls_wal s)) payload))
     (rt_file (ls_replication s)) (en_world s)"

lemma restart_crash: "restart ev config s = crash_in_append ev config [] 0 s"
  by (simp add: restart_def crash_in_append_def)

lemma append_all_sequence:
  "\<forall>r \<in> set rs. wal_storable fmt r \<Longrightarrow>
    w_sequence (append_all (\<lambda>w r. snd (wal_append fmt w r)) w rs) = w_sequence w + of_nat (length rs)"
  by (induction rs arbitrary: w) (auto simp: wal_append_storable algebra_simps)

lemma crash_run:
  assumes "fresh_open ev path config w s" "node_role_cfg config = Primary"
    and "\<forall>(n, t) \<in> set ws. storable_tick ev t" "length ws < memtable_flush_threshold config"
    and "resolve_writes dict_new ws = (d, us)" "insert_each ev ws s = (Ok (), s')"
    and "length p < 2 ^ 32" "k < length (wal_frame (ev_fmt ev) (w_sequence (ls_wal s')) p)"
  shows "k < 4 \<Longrightarrow> \<exists>mt wl. crash_in_append ev config p k s'
        = Ok (fresh_lsm ev path config w mt wl \<lparr>rt_file = None, rt_state = None\<rparr>) \<and> sl_rep mt (tick_insert_all [] us)"
    "4 \<le> k \<Longrightarrow> crash_in_append ev config p k s' = Err (LsmWal WalIo)"
    "sl_rep (ls_memtable s') (tick_insert_all [] us)" "ls_held s' = []" "no_tables s'"
proof -
  obtain mt0 mt where s: "s = fresh_lsm ev path config w mt0 empty_wal \<lparr>rt_file = None, rt_state = None\<rparr>"
    and mt: "sl_rep mt (tick_insert_all [] us)" "insert_each ev ws s = (Ok (), after_writes ev d us mt s)"
      "\<forall>t \<in> set us. storable_tick ev t"
    using fresh_writes [OF assms(1-5)] by metis
  have s': "s' = after_writes ev d us mt s" using mt(2) assms(6) by simp
  have log: "w_file (ls_wal s') = wal_frames (ev_fmt ev) 0 (map WInsert us)" "w_sequence (ls_wal s') = of_nat (length us)"
    using append_all_file [of "map WInsert us" "ev_fmt ev" empty_wal] append_all_sequence [of "map WInsert us" "ev_fmt ev" empty_wal]
      mt(3) storable_tick_self
    by (simp_all add: s s' wal_after_def empty_wal_def)
  have st: "\<forall>r \<in> set (map WInsert us). wal_storable (ev_fmt ev) r" using mt(3) storable_tick_self by auto
  have c: "cold_tier_uri config = None" "no_sst_files w" using assms(1) by (simp_all add: fresh_open_def)
  have tr: "tracker_open (ev_rep ev) None = Ok \<lparr>rt_file = None, rt_state = None\<rparr>" by (simp add: tracker_open_def)
  note torn = wal_torn_tail [OF st assms(7), of k, unfolded length_map, OF assms(8) [unfolded log]]
  show "\<exists>mt wl. crash_in_append ev config p k s'
        = Ok (fresh_lsm ev path config w mt wl \<lparr>rt_file = None, rt_state = None\<rparr>) \<and> sl_rep mt (tick_insert_all [] us)" if "k < 4"
  proof -
    have "\<exists>wl. wal_open (ev_fmt ev) (w_file (ls_wal s') @ take k (wal_frame (ev_fmt ev) (w_sequence (ls_wal s')) p)) = Ok wl \<and>
      w_replayed wl = map WInsert us" unfolding log torn using that by simp
    then obtain wl where wl: "wal_open (ev_fmt ev) (w_file (ls_wal s') @ take k (wal_frame (ev_fmt ev) (w_sequence (ls_wal s')) p)) = Ok wl"
      "w_replayed wl = map WInsert us" by blast
    show ?thesis
      using lsm_open_run [OF c(1) wl(1) tr c(2), of path] wl(2)
      by (simp add: crash_in_append_def s' s) (metis inserted_ticks_map)
  qed
  show "crash_in_append ev config p k s' = Err (LsmWal WalIo)" if "4 \<le> k"
    using torn that log by (simp add: crash_in_append_def lsm_open_def lsm_new_def)
  show "sl_rep (ls_memtable s') (tick_insert_all [] us)" "ls_held s' = []" "no_tables s'"
    using mt(1) by (simp_all add: s s')
qed

lemma restart_run:
  assumes "fresh_open ev path config w s" "node_role_cfg config = Primary"
    and "\<forall>(n, t) \<in> set ws. storable_tick ev t" "length ws < memtable_flush_threshold config"
    and "resolve_writes dict_new ws = (d, us)" "insert_each ev ws s = (Ok (), s')"
  obtains mt wl where "restart ev config s' = Ok (fresh_lsm ev path config w mt wl \<lparr>rt_file = None, rt_state = None\<rparr>)"
    "sl_rep mt (tick_insert_all [] us)" "sl_rep (ls_memtable s') (tick_insert_all [] us)" "ls_held s' = []" "no_tables s'"
proof -
  have "length ([] :: bytes) < 2 ^ 32" "0 < length (wal_frame (ev_fmt ev) (w_sequence (ls_wal s')) [])"
    by (simp_all add: wal_frame_def)
  from crash_run [OF assms this] show ?thesis using that unfolding restart_crash by auto
qed

text \<open>
  C5. What a crash before the first flush keeps, after any inserts on a new primary that stay below
  the threshold and that the log can store.  When the process ends between two appends, or in an
  append of which fewer than four bytes have reached the log, reopening the directory gives an
  engine whose unrestricted scans return exactly the ticks they returned before; when four or more
  bytes of an incomplete frame have reached it, the directory cannot be opened again.
\<close>

theorem restart_keeps_ticks:
  assumes "fresh_open ev path config w s" and "node_role_cfg config = Primary"
    and "\<forall>(n, t) \<in> set ws. storable_tick ev t" and "length ws < memtable_flush_threshold config"
    and "insert_each ev ws s = (Ok (), s')"
    and "length p < 2 ^ 32" and "k < length (wal_frame (ev_fmt ev) (w_sequence (ls_wal s')) p)"
  shows "if k < 4
    then \<exists>s''. crash_in_append ev config p k s' = Ok s'' \<and>
      (\<forall>t1 t2 cols. \<exists>us. lsm_scan ev None t1 t2 cols s' = (Ok us, s') \<and> lsm_scan ev None t1 t2 cols s'' = (Ok us, s''))
    else crash_in_append ev config p k s' = Err (LsmWal WalIo)"
proof -
  obtain d us where "resolve_writes dict_new ws = (d, us)" by fastforce
  note run = crash_run [OF assms(1-4) this assms(5-7)]
  show ?thesis
  proof (cases "k < 4")
    case True
    then show ?thesis
      using run(1) run(3-5) by (metis (no_types, lifting) fresh_lsm_fields(1,2,10) lsm_scan_run option.simps(4))
  next
    case False
    then show ?thesis using run(2) by simp
  qed
qed

lemma example_written:
  assumes "length ws < 10000"
  obtains s s' where "fresh_open example_env ''d'' config_default example_world s" "insert_each example_env ws s = (Ok (), s')"
proof -
  obtain s where s: "fresh_open example_env ''d'' config_default example_world s" using example_fresh by blast
  obtain d us where "resolve_writes dict_new ws = (d, us)" by fastforce
  with fresh_writes [OF s _ _ _ this] show ?thesis
    using that s assms by (simp add: config_default_def MEMTABLE_FLUSH_THRESHOLD_def) blast
qed

theorem restart_keeps_ticks_witness:
  "\<exists>s s' s''. insert_each example_env [(''A'', example_tick 9 5)] s = (Ok (), s') \<and>
    crash_in_append example_env config_default [7] 3 s' = Ok s'' \<and>
    (\<exists>us. lsm_scan example_env None 0 9 [] s' = (Ok us, s') \<and> lsm_scan example_env None 0 9 [] s'' = (Ok us, s'')) \<and>
    crash_in_append example_env config_default [7] 22 s' = Err (LsmWal WalIo)"
proof -
  have "length [(''A'', example_tick 9 5)] < 10000" by simp
  then obtain s s' where s: "fresh_open example_env ''d'' config_default example_world s"
    "insert_each example_env [(''A'', example_tick 9 5)] s = (Ok (), s')" by (rule example_written)
  have len: "3 < length (wal_frame (ev_fmt example_env) q [7])" "22 < length (wal_frame (ev_fmt example_env) q [7])" for q
    by (simp_all add: wal_frame_def)
  have c: "node_role_cfg config_default = Primary" "length [(''A'', example_tick 9 5)] < memtable_flush_threshold config_default"
    by (simp_all add: config_default_def MEMTABLE_FLUSH_THRESHOLD_def)
  note keeps = restart_keeps_ticks [OF s(1) c(1) _ c(2) s(2), of "[7]"]
  show ?thesis using s(2) keeps [OF _ _ len(1)] keeps [OF _ _ len(2)] by simp blast
qed

text \<open>
  C30. A restart forgets the symbols: the dictionary is not rebuilt from the log, so after inserts
  below the threshold and a restart every lookup by symbol fails with \<open>SymbolNotFound\<close> although the
  ticks are there, and the next symbol to be written, whatever its name, takes over the id of the
  first old symbol: unless its tick has the timestamp of the first old write, a lookup of the new
  symbol at that timestamp returns the old symbol's tick.
\<close>

theorem restart_aliases_symbols:
  assumes "fresh_open ev path config w s" and "node_role_cfg config = Primary"
    and "\<forall>(n, t) \<in> set ((n0, t0) # ws). storable_tick ev t" and "Suc (length ws) < memtable_flush_threshold config - 1"
    and "length ws < 65536" and "insert_each ev ((n0, t0) # ws) s = (Ok (), s')"
    and "storable_tick ev u" "t_timestamp u \<noteq> t_timestamp t0"
  shows "\<exists>s''. restart ev config s' = Ok s'' \<and> (\<forall>n k. lsm_get ev n k s'' = (Err (SymbolNotFound n), s'')) \<and>
    (\<forall>m. \<exists>s3. lsm_insert ev m u s'' = (Ok (), s3) \<and>
      fst (lsm_get ev m (t_timestamp t0) s3) = fst (lsm_get ev n0 (t_timestamp t0) s') \<and>
      fst (lsm_get ev m (t_timestamp t0) s3) \<noteq> Ok None)"
proof -
  obtain d us where d: "resolve_writes dict_new ((n0, t0) # ws) = (d, us)" by fastforce
  have len: "length ((n0, t0) # ws) < memtable_flush_threshold config" using assms(4) by simp
  obtain mt wl where r: "restart ev config s' = Ok (fresh_lsm ev path config w mt wl \<lparr>rt_file = None, rt_state = None\<rparr>)"
    and mt: "sl_rep mt (tick_insert_all [] us)" and s': "sl_rep (ls_memtable s') (tick_insert_all [] us)" "ls_held s' = []" "no_tables s'"
    by (rule restart_run [OF assms(1-3) len d assms(6)])
  let ?s = "fresh_lsm ev path config w mt wl \<lparr>rt_file = None, rt_state = None\<rparr>"
  obtain mt0 mt1 where "s' = after_writes ev d us mt1 (fresh_lsm ev path config w mt0 empty_wal \<lparr>rt_file = None, rt_state = None\<rparr>)"
    using fresh_writes [OF assms(1-3) len d] assms(6) by (metis prod.inject)
  then have dict: "ls_symbol_dict s' = d" by simp
  have rs: "dict_inv d \<and> set (id_to_symbol d) = set (id_to_symbol dict_new) \<union> fst ` set ((n0, t0) # ws) \<and>
    (\<forall>n i. get_id dict_new n = Some i \<longrightarrow> get_id d n = Some i) \<and>
    (\<forall>n i ts. get_id d n = Some i \<longrightarrow>
      last_write us (Key i ts) = map_option (\<lambda>t. t\<lparr>t_symbol_id := i\<rparr>) (last_tick ((n0, t0) # ws) n ts))"
    by (rule resolve_spec [OF dict_inv_new _ d]) (use assms(5) in \<open>simp add: dict_len_def dict_new_def\<close>)
  have id0: "get_id d n0 = Some 0" by (rule first_symbol_id [OF d]) (use assms(5) in simp)
  have none: "get_id dict_new n = None" for n by (simp add: get_id_def dict_new_def)
  have old: "fst (lsm_get ev n0 (t_timestamp t0) s') = Ok (last_write us (Key 0 (t_timestamp t0)))"
    using lsm_get_run [OF s'(2,1,3), of ev n0] dict id0 tick_lookup_writes by simp
  have found: "last_write us (Key 0 (t_timestamp t0)) \<noteq> None" using rs id0 by (auto split: option.splits)
  have "\<exists>s3. lsm_insert ev m u ?s = (Ok (), s3) \<and>
      fst (lsm_get ev m (t_timestamp t0) s3) = Ok (last_write us (Key 0 (t_timestamp t0))) \<and>
      fst (lsm_get ev m (t_timestamp t0) s3) \<noteq> Ok None" for m
  proof -
    let ?u = "u\<lparr>t_symbol_id := 0\<rparr>"
    obtain d1 where d1: "get_or_insert dict_new m = (d1, 0)" "get_id d1 m = Some 0"
      by (simp add: get_or_insert_def dict_new_def get_id_def Let_def)
    obtain mt2 where mt2: "sl_insert mt ?u = Some mt2" "sl_rep mt2 (tick_insert ?u (tick_insert_all [] us))"
      using sl.ins_rep [OF mt] by blast
    have "length us = Suc (length ws)" using length_resolve [of dict_new "(n0, t0) # ws"] d by simp
    then have "length (tick_insert_all [] us) \<le> Suc (length ws)" using length_insert_all_le [of "[]" us] by simp
    then have ins: "lsm_insert ev m u ?s = (Ok (), after_writes ev d1 [?u] mt2 ?s)"
      using assms(2,4,7) mt mt2(1) d1(1) by (intro lsm_insert_run) auto
    have "lsm_get ev m (t_timestamp t0) (after_writes ev d1 [?u] mt2 ?s)
        = (Ok (tick_lookup (tick_insert ?u (tick_insert_all [] us)) (Key 0 (t_timestamp t0))), after_writes ev d1 [?u] mt2 ?s)"
      using mt2(2) d1(2) by (subst lsm_get_run) auto
    also have "tick_lookup (tick_insert ?u (tick_insert_all [] us)) (Key 0 (t_timestamp t0)) = last_write us (Key 0 (t_timestamp t0))"
      using assms(8) sl.rep_sorted [OF mt] tick_lookup_writes by (subst tick_lookup_insert) (auto simp: tick_key_def)
    finally show ?thesis using ins found by auto
  qed
  moreover have "lsm_get ev n k ?s = (Err (SymbolNotFound n), ?s)" for n k
    using lsm_get_run [of ?s, OF _ _ ] mt none by simp
  ultimately show ?thesis unfolding old using r by blast
qed


theorem restart_aliases_symbols_witness:
  "\<exists>s s' s'' s3. insert_each example_env [(''A'', example_tick 9 5)] s = (Ok (), s') \<and>
    restart example_env config_default s' = Ok s'' \<and> lsm_insert example_env ''B'' (example_tick 9 6) s'' = (Ok (), s3) \<and>
    fst (lsm_get example_env ''B'' 5 s3) = fst (lsm_get example_env ''A'' 5 s') \<and> fst (lsm_get example_env ''B'' 5 s3) \<noteq> Ok None"
proof -
  have "length [(''A'', example_tick 9 5)] < 10000" by simp
  then obtain s s' where s: "fresh_open example_env ''d'' config_default example_world s"
    "insert_each example_env [(''A'', example_tick 9 5)] s = (Ok (), s')" by (rule example_written)
  have t: "t_timestamp (example_tick 9 5) = 5" "t_timestamp (example_tick 9 6) = 6" by (simp_all add: example_tick_def)
  from restart_aliases_symbols [OF s(1) _ _ _ _ s(2), of "example_tick 9 6"] s(2) show ?thesis
    unfolding t by (simp add: config_default_def MEMTABLE_FLUSH_THRESHOLD_def) blast
qed

end
