(* ===== verification/LsmReplication.thy ===== *)
theory LsmReplication
  imports LsmCorrect
begin

text \<open>
  Replication end to end: a replica that applies the primary's feed answers like the primary.
  And the streaming scan of the engine against its materializing scan.
\<close>

subsection \<open>The streaming scan\<close>

lemma lsm_scan_stream_run:
  assumes "ls_held s = []" "sl_rep (ls_memtable s) ts" "no_tables s"
    and "scan_symbol_id symbol s = (Ok i, s)"
  obtains st where "lsm_scan_stream symbol t1 t2 cols s = (Ok st, s)"
    "stream_view st = (filter (scan_wants i t1 t2) ts, [], [])" "ss_last_key st = None"
proof -
  let ?p = "\<lparr>sp_symbol_id = i, sp_symbol_name = symbol, sp_t1 = t1, sp_t2 = t2, sp_columns = cols\<rparr>"
  have p: "make_scan_params symbol t1 t2 cols s = (Ok ?p, s)"
    by (simp add: make_scan_params_def assms(4) ret_def)
  have tables: "select_paths d q (concat (map lv_tables (cm_levels (en_cm s)))) = Some []" for d q
    using no_tables_concat(2) [OF assms(3)] by (metis select_paths.simps(1))
  obtain st where st: "stream_new (ls_memtable s) (en_cm s) (ls_symbol_dict s) ?p = Some st" "ss_sstable_paths st = []"
    using sl.iter_rep [OF assms(2)] by (simp add: stream_new_def tables)
  have "scan_wants i t1 t2 = in_scan ?p" by (auto simp: scan_wants_def in_scan_def fun_eq_iff)
  then have "stream_view st = (filter (scan_wants i t1 t2) ts, [], [])" "ss_last_key st = None"
    using stream_new_view [OF st(1) assms(2)] st(2) by simp_all
  moreover have "lsm_scan_stream symbol t1 t2 cols s = (Ok st, s)"
    using p st(1) assms(1) by (simp add: lsm_scan_stream_def locked_def blocked_def)
  ultimately show ?thesis using that by blast
qed

lemma collect_scan_run:
  assumes "ls_held s = []" "sl_rep (ls_memtable s) ts" "no_tables s"
    and "scan_symbol_id symbol s = (Ok i, s)"
  obtains st where "lsm_scan_stream symbol t1 t2 cols s = (Ok st, s)"
    "collect_stream (engine_loader ev (ss_params st)) st s
      = (Ok (filter (scan_wants i t1 t2) ts) :: (tick list, lsm_error) outcome, s)"
proof -
  obtain st where st: "lsm_scan_stream symbol t1 t2 cols s = (Ok st, s)"
    "stream_view st = (filter (scan_wants i t1 t2) ts, [], [])" "ss_last_key st = None"
    by (rule lsm_scan_stream_run [OF assms])
  have "tick_sorted (filter (scan_wants i t1 t2) ts)" using sl.rep_sorted [OF assms(2)] by (rule tick_sorted_filter)
  then have "collect_stream (engine_loader ev (ss_params st)) st s
      = (Ok (filter (scan_wants i t1 t2) ts) :: (tick list, lsm_error) outcome, s)"
    using collect_view [OF st(2), of _ "\<lambda>_. []"] st(3) by (simp add: loads_def)
  with st(1) show ?thesis by (rule that)
qed

text \<open>
  C29. Streaming and materializing scans agree as long as all data is in the memtable: on an engine
  without tables whose locks are free, draining the stream of any scan gives the same ticks, in the
  same order, or the same error, as \<open>scan\<close>, and neither changes the engine.  With tables they
  differ: see \<open>scan_stream_unsorted\<close> and \<open>scan_stream_stops_early\<close>.
\<close>

theorem scan_stream_equals_scan:
  assumes "ls_held s = []" and "sl_rep (ls_memtable s) ts" and "no_tables s"
  shows "bind_eff (lsm_scan_stream symbol t1 t2 cols) (\<lambda>st. collect_stream (engine_loader ev (ss_params st)) st) s
    = lsm_scan ev symbol t1 t2 cols s"
proof (cases "fst (scan_symbol_id symbol s)")
  case (Ok i)
  then have i: "scan_symbol_id symbol s = (Ok i, s)"
    by (auto simp: scan_symbol_id_run [OF assms(1)] split: option.splits)
  obtain st where "lsm_scan_stream symbol t1 t2 cols s = (Ok st, s)"
    "collect_stream (engine_loader ev (ss_params st)) st s
      = (Ok (filter (scan_wants i t1 t2) ts) :: (tick list, lsm_error) outcome, s)"
    by (rule collect_scan_run [OF assms i, of t1 t2 cols ev])
  then show ?thesis
    using i by (auto simp: lsm_scan_run [OF assms] scan_symbol_id_run [OF assms(1)] split: option.splits)
next
  case (Err e)
  then have e: "scan_symbol_id symbol s = (Err e, s)"
    by (auto simp: scan_symbol_id_run [OF assms(1)] split: option.splits)
  then show ?thesis by (simp add: lsm_scan_stream_def make_scan_params_def lsm_scan_def bind_eff_def)
qed (auto simp: scan_symbol_id_run [OF assms(1)] split: option.splits)

theorem scan_stream_equals_scan_witness:
  "\<exists>s ts. length ts = 2 \<and> lsm_scan example_env None 0 9 [] s = (Ok ts, s) \<and>
    bind_eff (lsm_scan_stream None 0 9 []) (\<lambda>st. collect_stream (engine_loader example_env (ss_params st)) st) s
      = lsm_scan example_env None 0 9 [] s"
proof -
  let ?ws = "[(''A'', example_tick 9 5), (''B'', example_tick 9 5)]"
  have "length ?ws < 10000" by simp
  then obtain s0 s where s: "fresh_open example_env ''d'' config_default example_world s0"
    "insert_each example_env ?ws s0 = (Ok (), s)" by (rule example_written)
  have r: "resolve_writes dict_new ?ws = (fst (resolve_writes dict_new ?ws), [example_tick 0 5, example_tick 1 5])"
    by (simp add: get_or_insert_def dict_new_def Let_def example_tick_def)
  have ts: "tick_insert_all [] [example_tick 0 5, example_tick 1 5] = [example_tick 0 5, example_tick 1 5]"
    by code_simp
  have c: "node_role_cfg config_default = Primary" "length ?ws < memtable_flush_threshold config_default"
    "\<forall>(n, t) \<in> set ?ws. storable_tick example_env t"
    by (simp_all add: config_default_def MEMTABLE_FLUSH_THRESHOLD_def)
  have e: "ls_held s = []" "sl_rep (ls_memtable s) [example_tick 0 5, example_tick 1 5]" "no_tables s"
    by (rule restart_run [OF s(1) c(1,3,2) r s(2), unfolded ts], assumption)+
  have f: "filter (scan_wants None 0 9) [example_tick 0 5, example_tick 1 5] = [example_tick 0 5, example_tick 1 5]"
    by (simp add: scan_wants_def example_tick_def)
  have "lsm_scan example_env None 0 9 [] s = (Ok [example_tick 0 5, example_tick 1 5], s)"
    unfolding lsm_scan_run [OF e, of example_env None 0 9 "[]"] option.case f ..
  then show ?thesis
    by (intro exI [of _ s] exI [of _ "[example_tick 0 5, example_tick 1 5]"] conjI scan_stream_equals_scan [OF e]) simp_all
qed

subsection \<open>The feed of a primary\<close>

lemma resolve_entries_feed:
  assumes "resolve_writes (ls_symbol_dict s) ws = (d, us)" "dict_inv (ls_symbol_dict s)"
    and "dict_len (ls_symbol_dict s) + length ws \<le> 2 ^ 16"
    and "\<And>n i. get_id d n = Some i \<Longrightarrow> get_id d' n = Some i" "dict_inv d'"
  shows "resolve_entries (map (replication_entry_of d') (wal_entries seq (map WInsert us))) s
    = (Ok us, s\<lparr>ls_symbol_dict := d\<rparr>)"
  using assms(1-4)
proof (induction ws arbitrary: s us seq)
  case Nil
  then show ?case by (auto simp: ret_def)
next
  case (Cons w ws)
  obtain n t where w: "w = (n, t)" by fastforce
  obtain d1 i where i: "get_or_insert (ls_symbol_dict s) n = (d1, i)" by fastforce
  have "dict_len (ls_symbol_dict s) < 2 ^ 16" using Cons.prems(3) by simp
  note one = get_or_insert_step [OF Cons.prems(2) this i]
  obtain us' where us: "us = t\<lparr>t_symbol_id := i\<rparr> # us'" "resolve_writes d1 ws = (d, us')"
    using Cons.prems(1) i w by (auto split: prod.splits)
  have room: "dict_len d1 + length ws \<le> 2 ^ 16" using one(2) Cons.prems(3) by simp
  have "get_id d n = Some i" using resolve_spec [OF one(1) room us(2)] one(3) by blast
  then have "get_symbol d' i = Some n" using Cons.prems(4) dict_id_iff [OF assms(5)] by blast
  moreover have "resolve_entries (map (replication_entry_of d') (wal_entries (seq + 1) (map WInsert us')))
      (s\<lparr>ls_symbol_dict := d1\<rparr>) = (Ok us', s\<lparr>ls_symbol_dict := d\<rparr>)"
    using Cons.IH [of "s\<lparr>ls_symbol_dict := d1\<rparr>" us' "seq + 1"] us(2) one(1) room Cons.prems(4) by simp
  ultimately show ?case
    using i us(1) by (simp add: replication_entry_of_def dict_get_or_insert_def bind_eff_def eff_simps)
qed

lemma apply_ticks_run:
  "insert_all sl_insert (ls_memtable s) us = Some mt \<Longrightarrow>
    for_eff us apply_tick s = (Ok (), s\<lparr>ls_memtable := mt, ls_total_rows := ls_total_rows s + of_nat (length us)\<rparr>)"
proof (induction us arbitrary: s)
  case (Cons u us)
  then obtain mt1 where mt1: "sl_insert (ls_memtable s) u = Some mt1" "insert_all sl_insert mt1 us = Some mt"
    by (auto simp: bind_eq_Some_conv)
  let ?s = "s\<lparr>ls_memtable := mt1, ls_total_rows := ls_total_rows s + 1\<rparr>"
  have "for_eff us apply_tick ?s = (Ok (), ?s\<lparr>ls_memtable := mt, ls_total_rows := ls_total_rows ?s + of_nat (length us)\<rparr>)"
    using mt1(2) by (intro Cons.IH) simp
  moreover have "apply_tick u s = (Ok (), ?s)" using mt1(1) by (simp add: apply_tick_def lsm_run)
  ultimately show ?case by (simp add: add.assoc)
qed (simp add: ret_def)

text \<open>Applying a feed of inserts on a replica that has room.\<close>

lemma apply_batch_run:
  assumes "ls_held s = []" "ls_role s = Replica" "sl_rep (ls_memtable s) ts" "entries \<noteq> []"
    and "resolve_entries entries (s\<lparr>ls_held := [(DictLock, WriteGuard)]\<rparr>) = (Ok us, s\<lparr>ls_held := [(DictLock, WriteGuard)], ls_symbol_dict := d\<rparr>)"
    and "\<forall>t \<in> set us. storable_tick ev t" "insert_all sl_insert (ls_memtable s) us = Some mt"
    and "length ts + length us < memtable_flush_threshold (ls_config s)" "rep_lossless (ev_rep ev)"
  shows "\<exists>tr. apply_replication_batch ev entries s = (Ok (of_nat (length entries)), (after_writes ev d us mt s)\<lparr>ls_replication := tr\<rparr>) \<and>
    last_primary_sequence tr = max (Max (set (map re_sequence entries))) (last_primary_sequence (ls_replication s)) \<and>
    last_applied tr = Some (last_primary_sequence tr)"
proof -
  let ?m = "Max (set (map re_sequence entries))"
  have w: "wal_append_batch (ev_fmt ev) (ls_wal s) (map WInsert us)
      = (Ok (w_sequence (ls_wal s) + of_nat (length us)), wal_after ev (ls_wal s) us)"
    using wal_append_batch_all [of "map WInsert us" "ev_fmt ev" "ls_wal s"] assms(6) storable_tick_self
    by (auto simp: wal_after_def)
  have len: "sl_len mt < memtable_flush_threshold (ls_config s)"
    using below_threshold_len [OF assms(3,7)] assms(8) by simp
  obtain b where "rf_ser (ev_rep ev) (Some ?m) = Some b"
    using assms(9) by (auto simp: rep_lossless_def split: option.splits)
  then have "fst (tracker_advance (ev_rep ev) ?m (ls_replication s)) = Ok ()"
    "last_primary_sequence (snd (tracker_advance (ev_rep ev) ?m (ls_replication s)))
      = max ?m (last_primary_sequence (ls_replication s))"
    "last_applied (snd (tracker_advance (ev_rep ev) ?m (ls_replication s)))
      = Some (last_primary_sequence (snd (tracker_advance (ev_rep ev) ?m (ls_replication s))))"
    by (auto simp: tracker_advance_def last_primary_sequence_def last_applied_def Let_def max_def split: option.splits)
  then obtain tr where tr: "tracker_advance (ev_rep ev) ?m (ls_replication s) = (Ok (), tr)"
    "last_primary_sequence tr = max ?m (last_primary_sequence (ls_replication s))"
    "last_applied tr = Some (last_primary_sequence tr)"
    by (metis prod.collapse)
  have "apply_replication_batch ev entries s = (Ok (of_nat (length entries)), (after_writes ev d us mt s)\<lparr>ls_replication := tr\<rparr>)"
    using assms(1,2,4,5) w len tr(1) apply_ticks_run [of _ us mt] assms(7)
    by (simp add: apply_replication_batch_def lsm_run tracker_call_def after_writes_def)
  then show ?thesis using tr(2,3) by blast
qed

text \<open>The feed of a primary that has been written to.\<close>

lemma primary_feed:
  assumes "fresh_open ev path config w p" "node_role_cfg config = Primary"
    and "\<forall>(n, t) \<in> set ws. storable_tick ev t" "length ws < memtable_flush_threshold config"
    and "resolve_writes dict_new ws = (d, us)" "insert_each ev ws p = (Ok (), p')"
  shows "read_wal_for_replication ev after limit p'
    = (Ok (map (replication_entry_of d) (take limit (filter (feed_includes after) (wal_entries 0 (map WInsert us))))), p')"
proof -
  obtain mt0 mt where p: "p = fresh_lsm ev path config w mt0 empty_wal \<lparr>rt_file = None, rt_state = None\<rparr>"
    and mt: "insert_each ev ws p = (Ok (), after_writes ev d us mt p)" "\<forall>t \<in> set us. storable_tick ev t"
    using fresh_writes [OF assms(1-5)] by metis
  have p': "p' = after_writes ev d us mt p" using mt(1) assms(6) by simp
  have "w_file (wal_after ev empty_wal us) = wal_frames (ev_fmt ev) 0 (map WInsert us)"
    using append_all_file [of "map WInsert us" "ev_fmt ev" empty_wal] mt(2) storable_tick_self
    by (simp add: wal_after_def empty_wal_def)
  then have "wal_read_for_replication (ev_fmt ev) (ls_wal p') after limit
      = Ok (take limit (filter (feed_includes after) (wal_entries 0 (map WInsert us))))"
    using wal_read_from_frames [of "map WInsert us" "ev_fmt ev" after limit 0 0 0] mt(2) storable_tick_self
    by (simp add: wal_read_for_replication_def p' p)
  then show ?thesis by (simp add: read_wal_for_replication_def lsm_run p' p)
qed

lemma feed_last_sequence:
  assumes "rs \<noteq> []" "length rs \<le> 65536"
  shows "Max (fst ` set (wal_entries 0 rs)) = of_nat (length rs - 1)"
proof (rule Max_eqI)
  let ?l = "of_nat (length rs - 1) :: u64"
  have "unat ?l = length rs - 1" using assms(2) by (intro unat_of_nat_u64) simp
  then have "filter (feed_includes (Some ?l)) (wal_entries 0 rs) = []" using assms(1) by (intro feed_beyond) simp
  then show "\<And>x. x \<in> fst ` set (wal_entries 0 rs) \<Longrightarrow> x \<le> ?l" by (auto simp: filter_empty_conv feed_includes_def not_less)
  have "wal_entries 0 rs \<noteq> []" using assms(1) length_wal_entries [of 0 rs] by (metis length_0_conv)
  then show "?l \<in> fst ` set (wal_entries 0 rs)" using last_wal_entries [OF assms(1), of 0] by (metis add_0 imageI last_in_set)
qed simp

text \<open>
  A replica converges: the feed of a primary, read from the start with a large enough limit,
  applies on a new replica without error, after which every lookup on the replica has the
  outcome it has on the primary, errors included, and the replica's position is the last entry.
\<close>

lemma feed_converges:
  assumes "fresh_open ev path config w p" and "node_role_cfg config = Primary"
    and "fresh_open ev' path' config' w' r" and "node_role_cfg config' = Replica"
    and "ws \<noteq> []" and "\<forall>(n, t) \<in> set ws. storable_tick ev t \<and> storable_tick ev' t"
    and "length ws < memtable_flush_threshold config" "length ws < memtable_flush_threshold config'"
    and "length ws \<le> 65536" "length ws \<le> limit" and "rep_lossless (ev_rep ev')"
    and "insert_each ev ws p = (Ok (), p')"
  shows "\<exists>entries r'. read_wal_for_replication ev None limit p' = (Ok entries, p') \<and>
    apply_replication_batch ev' entries r = (Ok (of_nat (length ws)), r') \<and>
    (\<forall>n k. fst (lsm_get ev' n k r') = fst (lsm_get ev n k p')) \<and>
    ls_held r' = [] \<and> last_applied (ls_replication r') = Some (of_nat (length ws - 1))"
proof -
  obtain d us where d: "resolve_writes dict_new ws = (d, us)" by fastforce
  have st: "\<forall>(n, t) \<in> set ws. storable_tick ev t" "\<forall>(n, t) \<in> set ws. storable_tick ev' t" using assms(6) by auto
  obtain mt0 mt where p: "p = fresh_lsm ev path config w mt0 empty_wal \<lparr>rt_file = None, rt_state = None\<rparr>"
    and mt: "sl_rep mt (tick_insert_all [] us)" "insert_each ev ws p = (Ok (), after_writes ev d us mt p)"
      "\<forall>t \<in> set us. storable_tick ev t"
    using fresh_writes [OF assms(1,2) st(1) assms(7) d] by metis
  have p': "p' = after_writes ev d us mt p" using mt(2) assms(12) by simp
  have us: "length us = length ws" using length_resolve [of dict_new ws] d by simp
  have room: "dict_len dict_new + length ws \<le> 2 ^ 16" using assms(9) by (simp add: dict_len_def dict_new_def)
  note rs = resolve_spec [OF dict_inv_new room d]
  let ?es = "map (replication_entry_of d) (wal_entries 0 (map WInsert us))"
  have all: "filter (feed_includes None) es = es" for es by (simp add: feed_includes_def)
  have read: "read_wal_for_replication ev None limit p' = (Ok ?es, p')"
    using primary_feed [OF assms(1,2) st(1) assms(7) d assms(12), of None limit] us assms(10)
    by (simp add: all length_wal_entries)
  obtain mr0 where r: "r = fresh_lsm ev' path' config' w' mr0 empty_wal \<lparr>rt_file = None, rt_state = None\<rparr>" and mr0: "sl_rep mr0 []"
    using lsm_create_run [of config' w' ev' path' r] assms(3) by (auto simp: fresh_open_def empty_wal_def)
  obtain mr where mr: "insert_all sl_insert mr0 us = Some mr" "sl_rep mr (tick_insert_all [] us)"
    using sl.insert_all_rep [OF mr0] by blast
  have ne: "?es \<noteq> []" using us assms(5) by (cases us) auto
  have res: "resolve_entries ?es (r\<lparr>ls_held := [(DictLock, WriteGuard)]\<rparr>)
      = (Ok us, r\<lparr>ls_held := [(DictLock, WriteGuard)], ls_symbol_dict := d\<rparr>)"
    using rs d room by (subst resolve_entries_feed [where ws = ws and d = d]) (simp_all add: r dict_inv_new)
  have st': "\<forall>t \<in> set us. storable_tick ev' t"
    using resolve_storable [of ws "storable_tick ev'" dict_new] st(2) d by auto
  obtain tr where tr: "apply_replication_batch ev' ?es r
      = (Ok (of_nat (length ?es)), (after_writes ev' d us mr r)\<lparr>ls_replication := tr\<rparr>)"
    "last_applied tr = Some (max (Max (set (map re_sequence ?es))) (last_primary_sequence (ls_replication r)))"
    using apply_batch_run [OF _ _ _ ne res st', of "[]" mr] mr mr0 us assms(4,8,11) by (auto simp: r)
  let ?r = "(after_writes ev' d us mr r)\<lparr>ls_replication := tr\<rparr>"
  have "no_tables ?r" "no_tables p'" using no_tables_after by (simp_all add: no_tables_def r p p' fresh_lsm_def cm_new_def level_new_def)
  then have "fst (lsm_get ev' n k ?r) = fst (lsm_get ev n k p')" for n k
    using lsm_get_run [of ?r "tick_insert_all [] us" ev' n k] lsm_get_run [of p' "tick_insert_all [] us" ev n k] mr(2) mt(1)
    by (simp add: r p' p)
  moreover have "us \<noteq> []" using us assms(5) by auto
  then have "last_applied tr = Some (of_nat (length ws - 1))"
    using tr(2) feed_last_sequence [of "map WInsert us"] us assms(9)
    by (simp add: r last_primary_sequence_def image_image replication_entry_of_def split_beta)
  ultimately show ?thesis
    using read tr(1) us by (intro exI [of _ ?es] exI [of _ ?r]) (simp add: length_wal_entries r)
qed

lemma example_replica:
  "\<exists>r. fresh_open example_env ''e'' (config_default\<lparr>node_role_cfg := Replica\<rparr>) example_world r"
proof -
  have c: "cold_tier_uri (config_default\<lparr>node_role_cfg := Replica\<rparr>) = None" "no_sst_files example_world"
    by (simp_all add: config_default_def no_sst_files_def example_world_def)
  have w: "wal_open (ev_fmt example_env) [] = Ok empty_wal"
    using wal_open_frames [of "[]" "ev_fmt example_env" 0] by (simp add: empty_wal_def)
  have t: "tracker_open (ev_rep example_env) None = Ok \<lparr>rt_file = None, rt_state = None\<rparr>"
    by (simp add: tracker_open_def)
  show ?thesis
    by (rule lsm_open_run [OF c(1) w t c(2), of "''e''"]) (use c in \<open>auto simp: fresh_open_def\<close>)
qed

end
