(* ===== verification/LsmFaults.thy ===== *)
theory LsmFaults
  imports LsmReplication
begin

text \<open>
  What goes wrong in the engine outside the locks: after a flush, with ragged batches, and with
  writes on a replica.
\<close>

subsection \<open>After a flush\<close>

lemma sst_path_extension: "has_sst_extension (sst_path dir lvl n)"
proof -
  let ?d = "pad_left 6 (decimal n)"
  have "decimal n \<noteq> [] \<and> last (decimal n) \<noteq> CHR ''/''"
  proof (induction n rule: decimal.induct)
    case (1 n)
    have digit: "(char_of (48 + m) :: char) \<noteq> CHR ''/''" if "m < 10" for m :: nat
    proof -
      have "m \<in> {0, 1, 2, 3, 4, 5, 6, 7, 8, 9}" using that by auto
      then show ?thesis by (auto simp: char_of_def)
    qed
    show ?case
    proof (cases "n < 10")
      case True
      then have "decimal n = [char_of (48 + n)]" by (subst decimal.simps) simp
      then show ?thesis using digit [OF True] by simp
    next
      case False
      then have "decimal n = decimal (n div 10) @ [char_of (48 + n mod 10)]" by (subst decimal.simps) simp
      then show ?thesis using digit [of "n mod 10"] by simp
    qed
  qed
  then have d: "?d \<noteq> [] \<and> last ?d \<noteq> CHR ''/''" by (simp add: pad_left_def)
  have ext: "has_sst_extension (q @ ''.sst'')" if "q \<noteq> []" "last q \<noteq> CHR ''/''" for q
    using that by (simp add: has_sst_extension_def nth_append last_conv_nth)
  have "sst_path dir lvl n = (dir @ ''/L'' @ decimal lvl @ ''_'' @ ?d) @ ''.sst''" by (simp add: sst_path_def)
  then show ?thesis using ext [of "dir @ ''/L'' @ decimal lvl @ ''_'' @ ?d"] d by simp
qed

text \<open>The state after a flush that finds its locks free.\<close>

lemma flush_run:
  assumes "ls_held s = []" "sl_rep (ls_memtable s) ts" "ts \<noteq> []" "cm_levels (en_cm s) = l0 # ls"
  shows "\<exists>table path tid s'. flush_memtable ev s = (Ok (), s') \<and> has_sst_extension path \<and> st_path table = path \<and>
    sst_write (ev_ln ev) (ev_cz ev) tid path ts 0 (ls_symbol_dict s) = Ok table \<and>
    sl_rep (ls_memtable s') [] \<and> cm_levels (en_cm s') = add_table table l0 # ls \<and>
    wd_fs (en_world s') = fs_write path (st_file table) (wd_fs (en_world s)) \<and> ls_held s' = [] \<and>
    ls_symbol_dict s' = ls_symbol_dict s \<and> ls_wal s' = wal_truncate (ls_wal s) \<and> ls_data_dir s' = ls_data_dir s \<and>
    ls_replication s' = ls_replication s"
proof -
  obtain mt where mt: "sl_drain (ls_memtable s) = Some (ts, mt)" "sl_rep mt []"
    using sl.drain_rep [OF assms(2)] by blast
  let ?path = "sst_path (ls_data_dir s) 0 (ev_now ev (wd_reads (en_world s)))"
  let ?tid = "wd_next_id (en_world s)"
  obtain table where t: "sst_write (ev_ln ev) (ev_cz ev) ?tid ?path ts 0 (ls_symbol_dict s) = Ok table"
    using sst_write_total by blast
  let ?s = "s\<lparr>ls_memtable := mt, en_world := (en_world s)\<lparr>wd_reads := Suc (wd_reads (en_world s)),
      wd_next_id := ?tid + 1, wd_fs := fs_write ?path (st_file table) (wd_fs (en_world s))\<rparr>,
      en_cm := (en_cm s)\<lparr>cm_levels := add_table table l0 # ls\<rparr>, ls_wal := wal_truncate (ls_wal s)\<rparr>"
  have "flush_memtable ev s = (Ok (), ?s)"
    using assms(1,3,4) mt(1) t by (simp add: flush_memtable_def memtable_drain_def bind_eff_def locked_def blocked_def
        eff_simps in_world_def world_now_def map_err_eff_def engine_write_def world_write_def Let_def upd_cm_def wal_call_def)
  then show ?thesis
    using t mt(2) sst_write_fields(3) [OF t] sst_path_extension assms(1)
    by (intro exI [of _ table] exI [of _ ?path] exI [of _ ?tid] exI [of _ ?s]) simp
qed


definition unopenable :: "env \<Rightarrow> world \<Rightarrow> string \<Rightarrow> bool" where
  "unopenable ev w path \<longleftrightarrow> (\<exists>b. map_of (wd_fs w) path = Some b \<and> (\<forall>tid. sst_open (ev_lossy ev) tid path b = Panic))"

lemma open_unopenable: "unopenable ev (en_world s) path \<Longrightarrow> fst (open_sstable ev path s) = Panic"
  by (auto simp: unopenable_def open_sstable_def engine_ensure_def map_err_eff_def bind_eff_def engine_open_def
      in_world_def world_open_def Let_def split: option.split)

text \<open>A point lookup that has to open a table panics; otherwise the tables give nothing.\<close>

lemma get_tables_unopenable:
  assumes "unopenable ev (en_world s) (st_path t)"
  shows "fst (get_tables ev i k [t] s) = Panic \<or> fst (get_tables ev i k [t] s) = Ok None"
proof (cases "may_contain_key t (Key i k)")
  case (Some hit)
  let ?s1 = "s\<lparr>ls_bloom_checks := ls_bloom_checks s + 1\<rparr>"
  let ?s2 = "?s1\<lparr>ls_bloom_hits := ls_bloom_hits ?s1 + 1\<rparr>"
  have "fst (open_sstable ev (st_path t) ?s2) = Panic" using assms by (intro open_unopenable) simp
  then obtain s3 where "open_sstable ev (st_path t) ?s2 = (Panic, s3)" by (metis prod.collapse)
  then show ?thesis using Some
    by (simp add: count_bloom_check_def count_bloom_hit_def bind_eff_def eff_simps)
qed (simp add: count_bloom_check_def bind_eff_def eff_simps)

lemma load_unopenable:
  assumes "unopenable ev (en_world s) path" "has_sst_extension path" "\<forall>p \<in> set ps. \<not> has_sst_extension p"
  shows "fst (for_eff (ps @ [path]) (load_sstable ev) s) = Panic"
  using assms(3)
proof (induction ps)
  case Nil
  have "fst (open_sstable ev path s) = Panic" using assms(1) by (rule open_unopenable)
  then obtain s' where "open_sstable ev path s = (Panic, s')" by (metis prod.collapse)
  then show ?case using assms(2) by (simp add: load_sstable_def)
next
  case (Cons p ps)
  then have "load_sstable ev p s = (Ok (), s)" by (simp add: load_sstable_def ret_def)
  then show ?case using Cons by simp
qed

lemma open_with_unopenable:
  assumes "cold_tier_uri config = None" "wal_open (ev_fmt ev) wal_file = Ok wl" "tracker_open (ev_rep ev) rep_file = Ok tr"
    and "map fst (wd_fs w) = ps @ [path]" "\<forall>p \<in> set ps. \<not> has_sst_extension p" "has_sst_extension path" "unopenable ev w path"
  shows "lsm_open ev dir config wal_file rep_file w = Panic"
proof -
  obtain mt where mt: "insert_all sl_insert (sl_new (ev_rng ev)) (inserted_ticks (w_replayed wl)) = Some mt"
    using sl.insert_all_rep [OF sl_rep_new] by blast
  have "fst (for_eff (ps @ [path]) (load_sstable ev) s) = Panic" if "en_world s = w" for s
    using assms(5-7) that by (intro load_unopenable) simp_all
  then have load: "\<exists>s'. for_eff (ps @ [path]) (load_sstable ev) s = (Panic, s')" if "en_world s = w" for s
    using that by (metis prod.collapse)
  let ?s = "fresh_lsm ev dir config w mt wl tr"
  obtain s' where "for_eff (ps @ [path]) (load_sstable ev) (?s\<lparr>ls_held := [(CompactionLock, WriteGuard)]\<rparr>) = (Panic, s')"
    using load [of "?s\<lparr>ls_held := [(CompactionLock, WriteGuard)]\<rparr>"] by auto
  then show ?thesis
    using assms(1-4) recover_records_run [of _ "w_replayed wl" mt] mt
    by (simp add: lsm_open_def lsm_new_def recover_from_wal_def load_sstables_def bind_eff_def locked_def blocked_def
        eff_simps fresh_lsm_def)
qed

lemma fs_write_new: "p \<notin> fst ` set fs \<Longrightarrow> fs_write p b fs = fs @ [(p, b)]"
  by (simp add: fs_write_def map_of_eq_None_iff)

subsection \<open>Properties\<close>

text \<open>
  C6. A flush of an engine without tables loses the data (1 to 1048560 ticks): it reports success, empties the memtable and truncates the log,
  but the table it wrote cannot be opened.  From then on no lookup returns any tick (it panics
  when it opens the table, or finds nothing), and the database cannot be reopened: opening the
  directory panics on the table.
\<close>

theorem flush_loses_ticks:
  assumes "ls_held s = []" and "sl_rep (ls_memtable s) ts" and "ts \<noteq> []" "length ts \<le> 1048560"
    and "cm_levels (en_cm s) = [level_new 0]" and "no_sst_files (en_world s)"
    and "\<forall>path tid table. sst_write (ev_ln ev) (ev_cz ev) tid path ts 0 (ls_symbol_dict s) = Ok table \<longrightarrow>
      length (st_file table) < 2 ^ 63"
    and "cold_tier_uri config = None" and "tracker_open (ev_rep ev) (rt_file (ls_replication s)) = Ok tr"
  shows "\<exists>s'. flush_memtable ev s = (Ok (), s') \<and> w_file (ls_wal s') = [] \<and>
    (\<forall>n k. fst (lsm_get ev n k s') \<in> {Err (SymbolNotFound n), Ok None, Panic}) \<and> restart ev config s' = Panic"
proof -
  obtain table path tid s' where f: "flush_memtable ev s = (Ok (), s')" "has_sst_extension path" "st_path table = path"
    and t: "sst_write (ev_ln ev) (ev_cz ev) tid path ts 0 (ls_symbol_dict s) = Ok table"
    and s': "sl_rep (ls_memtable s') []" "cm_levels (en_cm s') = add_table table (level_new 0) # []"
      "wd_fs (en_world s') = fs_write path (st_file table) (wd_fs (en_world s))" "ls_held s' = []"
      "ls_symbol_dict s' = ls_symbol_dict s" "ls_wal s' = wal_truncate (ls_wal s)" "ls_data_dir s' = ls_data_dir s"
      "ls_replication s' = ls_replication s"
    using flush_run [OF assms(1-3,5)] by metis
  have new: "path \<notin> fst ` set (wd_fs (en_world s))" using assms(6) f(2) by (auto simp: no_sst_files_def)
  have un: "unopenable ev (en_world s') path"
    using open_written [OF t assms(3,4)] assms(7) t by (auto simp: unopenable_def s'(3))
  have gt: "fst (lsm_get ev n k s') \<in> {Err (SymbolNotFound n), Ok None, Panic}" for n k
  proof (cases "get_id (ls_symbol_dict s') n")
    case (Some i)
    let ?s = "s'\<lparr>ls_held := [(CompactionLock, ReadGuard), (DictLock, ReadGuard)]\<rparr>"
    have "fst (get_tables ev i k [table] ?s) = Panic \<or> fst (get_tables ev i k [table] ?s) = Ok None"
      using un by (intro get_tables_unopenable) (simp add: f(3))
    then obtain s3 where "get_tables ev i k [table] ?s = (Panic, s3) \<or> get_tables ev i k [table] ?s = (Ok None, s3)"
      by (metis prod.collapse)
    moreover have "concat (map (\<lambda>l. rev (lv_tables l)) (cm_levels (en_cm s'))) = [table]"
      by (simp add: s'(2) add_table_def level_new_def)
    ultimately show ?thesis
      using Some sl.get_rep [OF s'(1), of "Key i k"] s'(4)
      by (auto simp: lsm_get_def symbol_id_of_def memtable_get_def bind_eff_def locked_def blocked_def eff_simps
          simp del: get_tables.simps)
  qed (use s'(4) in \<open>simp add: lsm_get_def symbol_id_of_def bind_eff_def locked_def blocked_def\<close>)
  have "restart ev config s' = Panic"
    unfolding restart_def
  proof (rule open_with_unopenable)
    show "wal_open (ev_fmt ev) (w_file (ls_wal s')) = Ok empty_wal"
      using wal_open_frames [of "[]" "ev_fmt ev" 0] by (simp add: s'(6) wal_truncate_def empty_wal_def)
    show "map fst (wd_fs (en_world s')) = map fst (wd_fs (en_world s)) @ [path]"
      using new by (simp add: s'(3) fs_write_new)
  qed (use assms(6,8,9) f(2) un s'(8) in \<open>auto simp: no_sst_files_def\<close>)
  then show ?thesis using f(1) gt s'(6) by (auto simp: wal_truncate_def)
qed


theorem flush_loses_ticks_witness:
  "\<exists>s s'. sl_rep (ls_memtable s) [example_tick 0 5] \<and> flush_memtable example_env s = (Ok (), s') \<and>
    restart example_env config_default s' = Panic"
proof -
  obtain mt where mt: "sl_rep mt (tick_insert (example_tick 0 5) [])"
    using sl.ins_rep [OF sl_rep_new] by blast
  let ?s = "example_state\<lparr>ls_memtable := mt, ls_symbol_dict := example_dict\<rparr>"
  have small: "\<forall>path tid table. sst_write (ev_ln example_env) (ev_cz example_env) tid path [example_tick 0 5] 0
      (ls_symbol_dict ?s) = Ok table \<longrightarrow> length (st_file table) < 2 ^ 63"
    using example_file_small by (simp add: example_env_def)
  have s: "cm_levels (en_cm ?s) = [level_new 0]" "no_sst_files (en_world ?s)" "ls_held ?s = []"
    "sl_rep (ls_memtable ?s) [example_tick 0 5]"
    using mt by (simp_all add: example_state_def fresh_lsm_def cm_new_def no_sst_files_def example_world_def)
  have "\<exists>tr. tracker_open (ev_rep example_env) (rt_file (ls_replication ?s)) = Ok tr"
    by (simp add: example_state_def fresh_lsm_def tracker_open_def)
  then obtain tr where "tracker_open (ev_rep example_env) (rt_file (ls_replication ?s)) = Ok tr" by blast
  from flush_loses_ticks [OF s(3,4) _ _ s(1,2) small _ this, of config_default] show ?thesis
    using s(4) by - (rule exI [of _ ?s], auto simp: config_default_def)
qed

lemma batch_rows_panic:
  assumes "\<forall>k < j. \<exists>t. tick_at b k i = Some t" "tick_at b j i = None" "insert_all sl_insert (ls_memtable s)
      (map (\<lambda>k. the (tick_at b k i)) [m ..< j]) = Some mt" "m \<le> j"
  shows "\<exists>s'. batch_rows b i ([m ..< j] @ j # rest) s = (Panic, s') \<and> ls_memtable s' = mt \<and> ls_wal s' = ls_wal s"
  using assms(3,4)
proof (induction "j - m" arbitrary: m s)
  case 0
  then show ?case using assms(2) by (simp add: bind_eff_def eff_simps)
next
  case (Suc d)
  then have m: "m < j" "[m ..< j] = m # [Suc m ..< j]" by (simp_all add: upt_conv_Cons)
  obtain t where t: "tick_at b m i = Some t" using assms(1) m(1) by blast
  obtain mt1 where mt1: "sl_insert (ls_memtable s) t = Some mt1"
    "insert_all sl_insert mt1 (map (\<lambda>k. the (tick_at b k i)) [Suc m ..< j]) = Some mt"
    using Suc.prems(1) t unfolding m(2) by (auto simp: bind_eq_Some_conv)
  let ?s = "s\<lparr>ls_memtable := mt1, ls_total_rows := ls_total_rows s + 1\<rparr>"
  have "d = j - Suc m" "Suc m \<le> j" using Suc.hyps(2) m(1) by simp_all
  then obtain s' where "batch_rows b i ([Suc m ..< j] @ j # rest) ?s = (Panic, s')" "ls_memtable s' = mt" "ls_wal s' = ls_wal ?s"
    using Suc.hyps(1) [of "Suc m" ?s] mt1(2) by auto
  then show ?case using t mt1(1) unfolding m(2) by (simp add: lsm_run)
qed

text \<open>
  A batch with a column that is too short panics half way: the rows before the first
  incomplete one are already in the memtable, visible to readers and counted, but nothing has
  been logged, so they vanish at a restart; the locks are released and the engine goes on.
\<close>

theorem ragged_batch_panics:
  assumes "ls_held s = []" and "sl_rep (ls_memtable s) ts" and "j < batch_len b"
    and "\<forall>k < j. tick_at b k 0 \<noteq> None" and "tick_at b j 0 = None"
    and "get_or_insert (ls_symbol_dict s) symbol = (d, i)"
  shows "\<exists>s'. insert_batch ev symbol b s = (Panic, s') \<and> ls_wal s' = ls_wal s \<and> ls_held s' = [] \<and>
    sl_rep (ls_memtable s') (tick_insert_all ts (map (\<lambda>k. the (tick_at b k i)) [0 ..< j]))"
proof -
  let ?us = "map (\<lambda>k. the (tick_at b k i)) [0 ..< j]"
  obtain mt where mt: "insert_all sl_insert (ls_memtable s) ?us = Some mt" "sl_rep mt (tick_insert_all ts ?us)"
    using sl.insert_all_rep [OF assms(2)] by blast
  have ok: "\<forall>k < j. \<exists>t. tick_at b k i = Some t" "tick_at b j i = None"
    using assms(4,5) tick_at_id [of i b _ 0] by (metis map_option_is_None not_None_eq)+
  let ?s = "s\<lparr>ls_symbol_dict := d, ls_held := [(MemtableLock, WriteGuard), (DictLock, WriteGuard)]\<rparr>"
  have split: "[0 ..< batch_len b] = [0 ..< j] @ j # [Suc j ..< batch_len b]"
    using assms(3) upt_add_eq_append [of 0 j "batch_len b - j"] upt_conv_Cons [of j "batch_len b"] by simp
  obtain s' where "batch_rows b i [0 ..< batch_len b] ?s = (Panic, s')" "ls_memtable s' = mt" "ls_wal s' = ls_wal ?s"
    using batch_rows_panic [OF ok, of ?s 0 mt] mt(1) unfolding split by auto
  moreover have "\<not> batch_is_empty b" using assms(3) by (auto simp: batch_is_empty_def batch_len_def)
  ultimately show ?thesis
    using assms(1,6) mt(2) by (simp add: insert_batch_def write_rows_then_log_def lsm_run)
qed

theorem ragged_batch_panics_witness:
  "\<exists>s' i. insert_batch example_env ''A'' (example_batch\<lparr>b_opens := [0]\<rparr>) example_state = (Panic, s') \<and>
    ls_wal s' = empty_wal \<and> sl_rep (ls_memtable s') [the (tick_at (example_batch\<lparr>b_opens := [0]\<rparr>) 0 i)]"
proof -
  obtain d i where i: "get_or_insert (ls_symbol_dict example_state) ''A'' = (d, i)" by fastforce
  show ?thesis
    using ragged_batch_panics [OF _ _ _ _ _ i, of "[]" 1 "example_batch\<lparr>b_opens := [0]\<rparr>" example_env]
    by (auto simp: example_batch_def batch_len_def tick_at_def)
qed

text \<open>
  A replica is not read-only: \<open>insert\<close> refuses with \<open>NotPrimary\<close> and changes nothing, but the
  bulk inserts do not look at the role and do on a replica what they do on a primary.
\<close>

theorem replica_accepts_bulk_writes:
  assumes "ls_held s = []" and "ls_role s = Replica" and "sl_rep (ls_memtable s) ts"
    and "resolve_writes (ls_symbol_dict s) (map (\<lambda>t. (st_symbol t, to_tick t 0)) rows) = (d, us)"
    and "\<forall>t \<in> set rows. storable_tick ev (to_tick t 0)"
    and "length ts + length rows < memtable_flush_threshold (ls_config s)"
  shows "lsm_insert ev n t s = (Err (LsmReplication NotPrimary), s) \<and>
    (\<exists>mt. insert_multi ev rows s = (Ok (), after_writes ev d us mt s) \<and> sl_rep mt (tick_insert_all ts us))"
proof -
  obtain mt where mt: "insert_all sl_insert (ls_memtable s) us = Some mt" "sl_rep mt (tick_insert_all ts us)"
    using sl.insert_all_rep [OF assms(3)] by blast
  show ?thesis
    using insert_multi_run [OF assms(1,3,4,5) mt(1) assms(6)] mt(2) assms(2)
    by (auto simp: lsm_insert_def eff_simps)
qed

theorem replica_accepts_bulk_writes_witness:
  "\<exists>d us mt. insert_multi example_env [\<lparr>st_symbol = ''A'', st_timestamp = 5, st_open = 0, st_high = 0, st_low = 0,
      st_close = 0, st_volume = 1\<rparr>] (example_state\<lparr>ls_role := Replica\<rparr>)
    = (Ok (), after_writes example_env d us mt (example_state\<lparr>ls_role := Replica\<rparr>))"
proof -
  let ?rows = "[\<lparr>st_symbol = ''A'', st_timestamp = 5, st_open = 0, st_high = 0, st_low = 0, st_close = 0, st_volume = 1\<rparr>]"
  obtain d us where "resolve_writes (ls_symbol_dict (example_state\<lparr>ls_role := Replica\<rparr>))
      (map (\<lambda>t. (st_symbol t, to_tick t 0)) ?rows) = (d, us)" by fastforce
  from replica_accepts_bulk_writes [OF _ _ _ this, of "[]" example_env "''A''" "example_tick 0 5"] show ?thesis
    by simp blast
qed

end
