(* ===== verification/LockOrder.thy ===== *)
theory LockOrder
  imports Lsm "HOL-Library.Sublist"
begin

text \<open>
  The locks of \<^verbatim>\<open>graphite-core/src/lsm.rs\<close> under several threads.  A thread is the guards it
  holds and the acquisitions and releases it has still to make; each operation of the engine is the
  list of those it makes, in the order of its source, with the place where every guard is dropped.
  Which thread moves next is not determined, so the pool of threads is a step relation.

  A read of \<^verbatim>\<open>parking_lot\<close> may also have to wait for a writer that is queued.  \<open>step False\<close> lets
  every acquisition pass that no guard forbids, \<open>step True\<close> only those that no queued writer
  holds up either; the lock behaves somewhere between the two.
\<close>

datatype action = Acquire lock guard | Release lock guard

type_synonym thread = "(lock \<times> guard) list \<times> action list"

subsection \<open>The acquisitions of each operation\<close>

text \<open>A block that runs under a guard.\<close>

definition under :: "lock \<Rightarrow> guard \<Rightarrow> action list \<Rightarrow> action list" where
  "under l g body = Acquire l g # body @ [Release l g]"

definition flush_locks :: "bool \<Rightarrow> action list" where
  "flush_locks some_ticks =
     under MemtableLock WriteGuard [] @
     (if some_ticks then under DictLock ReadGuard [] @ under CompactionLock WriteGuard [] @ under WalLock WriteGuard []
      else [])"

definition insert_locks :: "bool \<Rightarrow> action list" where
  "insert_locks full =
     under DictLock WriteGuard (
       under WalLock WriteGuard [] @ under MemtableLock WriteGuard [] @ under MemtableLock ReadGuard [] @
       (if full then flush_locks True else []))"

definition insert_batch_locks :: "bool \<Rightarrow> action list" where
  "insert_batch_locks full =
     under DictLock WriteGuard (
       under MemtableLock WriteGuard (under WalLock WriteGuard []) @
       (if full then flush_locks True else []))"

definition insert_multi_locks :: "bool \<Rightarrow> action list" where
  "insert_multi_locks full =
     under DictLock WriteGuard (
       under MemtableLock WriteGuard (under WalLock WriteGuard []) @
       (if full then flush_locks True else []))"

definition needs_compaction_locks :: "action list" where
  "needs_compaction_locks = under CompactionLock ReadGuard []"

definition get_locks :: "bool \<Rightarrow> action list" where
  "get_locks in_memtable =
     under DictLock ReadGuard (
       under MemtableLock ReadGuard [] @ (if in_memtable then [] else under CompactionLock ReadGuard []))"

text \<open>A scan for one symbol looks its name up again for every table in the range.\<close>

definition scan_locks :: "bool \<Rightarrow> nat \<Rightarrow> action list" where
  "scan_locks one_symbol tables =
     (if one_symbol then under DictLock ReadGuard [] else []) @
     under MemtableLock ReadGuard [] @
     under CompactionLock ReadGuard
       (if one_symbol then concat (replicate tables (under DictLock ReadGuard [])) else [])"

text \<open>The three guards of \<open>ScanStream::new\<close>'s arguments live to the end of the call.\<close>

definition scan_stream_locks :: "bool \<Rightarrow> action list" where
  "scan_stream_locks one_symbol =
     (if one_symbol then under DictLock ReadGuard [] else []) @
     under CompactionLock ReadGuard (under MemtableLock ReadGuard (under DictLock ReadGuard []))"

definition compact_locks :: "action list" where
  "compact_locks = under CompactionLock WriteGuard []"

definition background_locks :: "bool \<Rightarrow> action list" where
  "background_locks needed = needs_compaction_locks @ (if needed then compact_locks else [])"

definition stats_locks :: "action list" where
  "stats_locks = under CompactionLock ReadGuard []"

definition get_symbol_locks :: "action list" where
  "get_symbol_locks = under DictLock ReadGuard []"

definition sync_cold_tier_locks :: "action list" where
  "sync_cold_tier_locks = under CompactionLock ReadGuard []"

definition read_wal_locks :: "action list" where
  "read_wal_locks = under WalLock ReadGuard [] @ under DictLock ReadGuard []"

definition apply_replication_locks :: "bool \<Rightarrow> action list" where
  "apply_replication_locks full =
     under DictLock WriteGuard [] @ under WalLock WriteGuard [] @ under MemtableLock WriteGuard [] @
     (if full then flush_locks True else []) @ under ReplicationLock WriteGuard []"

definition replication_status_locks :: "action list" where
  "replication_status_locks = under WalLock ReadGuard [] @ under ReplicationLock ReadGuard []"

definition last_applied_locks :: "action list" where
  "last_applied_locks = under ReplicationLock ReadGuard []"

datatype operation = InsertOp bool | InsertBatchOp bool | InsertMultiOp bool | NeedsCompactionOp | GetOp bool |
  ScanOp bool nat | ScanStreamOp bool | FlushOp bool | CompactOp | BackgroundOp bool | StatsOp | GetSymbolOp |
  SyncColdTierOp | ReadWalOp | ApplyReplicationOp bool | ReplicationStatusOp | LastAppliedOp

primrec locks_of :: "operation \<Rightarrow> action list" where
  "locks_of (InsertOp full) = insert_locks full"
| "locks_of (InsertBatchOp full) = insert_batch_locks full"
| "locks_of (InsertMultiOp full) = insert_multi_locks full"
| "locks_of NeedsCompactionOp = needs_compaction_locks"
| "locks_of (GetOp in_memtable) = get_locks in_memtable"
| "locks_of (ScanOp one_symbol tables) = scan_locks one_symbol tables"
| "locks_of (ScanStreamOp one_symbol) = scan_stream_locks one_symbol"
| "locks_of (FlushOp some_ticks) = flush_locks some_ticks"
| "locks_of CompactOp = compact_locks"
| "locks_of (BackgroundOp needed) = background_locks needed"
| "locks_of StatsOp = stats_locks"
| "locks_of GetSymbolOp = get_symbol_locks"
| "locks_of SyncColdTierOp = sync_cold_tier_locks"
| "locks_of ReadWalOp = read_wal_locks"
| "locks_of (ApplyReplicationOp full) = apply_replication_locks full"
| "locks_of ReplicationStatusOp = replication_status_locks"
| "locks_of LastAppliedOp = last_applied_locks"

lemmas lock_scripts = under_def flush_locks_def insert_locks_def insert_batch_locks_def insert_multi_locks_def
  needs_compaction_locks_def get_locks_def scan_locks_def scan_stream_locks_def compact_locks_def
  background_locks_def stats_locks_def get_symbol_locks_def sync_cold_tier_locks_def read_wal_locks_def
  apply_replication_locks_def replication_status_locks_def last_applied_locks_def

text \<open>
  An early return, a \<open>?\<close> or a panic after the first \<open>n\<close> actions drops the guards held then,
  the newest first; an operation that runs to its end is the case of a large \<open>n\<close>.
\<close>

fun cut_after :: "(lock \<times> guard) list \<Rightarrow> nat \<Rightarrow> action list \<Rightarrow> action list" where
  "cut_after held (Suc n) (Acquire l g # as) = Acquire l g # cut_after ((l, g) # held) n as"
| "cut_after held (Suc n) (Release l g # as) = Release l g # cut_after (remove1 (l, g) held) n as"
| "cut_after held n as = map (\<lambda>(l, g). Release l g) held"

definition thread_of :: "operation \<times> nat \<Rightarrow> thread" where
  "thread_of c = ([], cut_after [] (snd c) (locks_of (fst c)))"

subsection \<open>The pool of threads\<close>

fun writer_queued :: "lock \<Rightarrow> thread \<Rightarrow> bool" where
  "writer_queued l (held, Acquire k WriteGuard # as) = (k = l)"
| "writer_queued l t = False"

definition may_acquire :: "bool \<Rightarrow> lock \<Rightarrow> guard \<Rightarrow> thread list \<Rightarrow> bool" where
  "may_acquire strict l g ts \<longleftrightarrow> list_all (\<lambda>t. \<not> blocked l g (fst t)) ts \<and>
     (strict \<and> g = ReadGuard \<longrightarrow> \<not> list_ex (writer_queued l) ts)"

inductive step :: "bool \<Rightarrow> thread list \<Rightarrow> thread list \<Rightarrow> bool" for strict where
  acquire: "i < length ts \<Longrightarrow> ts ! i = (held, Acquire l g # as) \<Longrightarrow> may_acquire strict l g ts \<Longrightarrow>
     step strict ts (ts[i := ((l, g) # held, as)])"
| release: "i < length ts \<Longrightarrow> ts ! i = (held, Release l g # as) \<Longrightarrow>
     step strict ts (ts[i := (remove1 (l, g) held, as)])"

definition finished :: "thread list \<Rightarrow> bool" where
  "finished ts \<longleftrightarrow> list_all (\<lambda>t. snd t = []) ts"

definition actions_left :: "thread list \<Rightarrow> nat" where
  "actions_left ts = sum_list (map (length \<circ> snd) ts)"

lemma moves_cases [case_names acquire release finish]:
  obtains held l g as where "t = (held, Acquire l g # as)" | held l g as where "t = (held, Release l g # as)" |
    held where "t = (held, [])"
  by (metis surj_pair neq_Nil_conv action.exhaust)

text \<open>Whether a thread can move, as a function.\<close>

fun can_move :: "bool \<Rightarrow> thread list \<Rightarrow> thread \<Rightarrow> bool" where
  "can_move strict ts (held, Acquire l g # as) = may_acquire strict l g ts"
| "can_move strict ts (held, Release l g # as) = True"
| "can_move strict ts (held, []) = False"

definition stuck :: "bool \<Rightarrow> thread list \<Rightarrow> bool" where
  "stuck strict ts \<longleftrightarrow> list_all (\<lambda>t. \<not> can_move strict ts t) ts"

lemma stuck_iff: "stuck strict ts \<longleftrightarrow> \<not> (\<exists>ts'. step strict ts ts')"
proof
  assume "stuck strict ts"
  then have no: "\<not> can_move strict ts (ts ! i)" if "i < length ts" for i
    using that by (simp add: stuck_def list_all_length)
  show "\<not> (\<exists>ts'. step strict ts ts')"
  proof
    assume "\<exists>ts'. step strict ts ts'"
    then obtain ts' where "step strict ts ts'" ..
    then show False by cases (use no in fastforce)+
  qed
next
  assume no: "\<not> (\<exists>ts'. step strict ts ts')"
  have "\<not> can_move strict ts (ts ! i)" if "i < length ts" for i
  proof
    assume "can_move strict ts (ts ! i)"
    then show False using acquire [OF that] release [OF that] no by (cases "ts ! i" rule: moves_cases) auto
  qed
  then show "stuck strict ts" by (simp add: stuck_def list_all_length)
qed


text \<open>A schedule names the thread that moves next.\<close>

definition move :: "thread list \<Rightarrow> nat \<Rightarrow> thread list" where
  "move ts i = (case ts ! i of
      (held, Acquire l g # as) \<Rightarrow> ts[i := ((l, g) # held, as)]
    | (held, Release l g # as) \<Rightarrow> ts[i := (remove1 (l, g) held, as)]
    | (held, []) \<Rightarrow> ts)"

fun schedule :: "bool \<Rightarrow> thread list \<Rightarrow> nat list \<Rightarrow> thread list option" where
  "schedule strict ts [] = Some ts"
| "schedule strict ts (i # is) =
     (if i < length ts \<and> can_move strict ts (ts ! i) then schedule strict (move ts i) is else None)"

lemma step_move: "i < length ts \<Longrightarrow> can_move strict ts (ts ! i) \<Longrightarrow> step strict ts (move ts i)"
  by (cases "ts ! i" rule: moves_cases) (auto simp: move_def intro: acquire release)

lemma schedule_steps: "schedule strict ts sched = Some ts' \<Longrightarrow> (step strict)\<^sup>*\<^sup>* ts ts'"
  by (induction sched arbitrary: ts)
    (auto split: if_splits intro: step_move converse_rtranclp_into_rtranclp)

lemmas pool_eval = lock_scripts move_def may_acquire_def blocked_def stuck_def finished_def numeral_2_eq_2 numeral_3_eq_3

subsection \<open>A writer is alone\<close>

definition exclusive :: "thread list \<Rightarrow> bool" where
  "exclusive ts \<longleftrightarrow> (\<forall>i < length ts. \<forall>j < length ts. i \<noteq> j \<longrightarrow>
     (\<forall>l. (l, WriteGuard) \<in> set (fst (ts ! i)) \<longrightarrow> l \<notin> fst ` set (fst (ts ! j))))"

lemma set_remove1_sub: "x \<in> set (remove1 a xs) \<Longrightarrow> x \<in> set xs"
  using set_remove1_subset by fastforce

lemma may_acquireD:
  "may_acquire strict l g ts \<Longrightarrow> j < length ts \<Longrightarrow> (l, WriteGuard) \<notin> set (fst (ts ! j))"
  "may_acquire strict l WriteGuard ts \<Longrightarrow> j < length ts \<Longrightarrow> l \<notin> fst ` set (fst (ts ! j))"
  by (cases g; force simp: may_acquire_def blocked_def list_all_length)
    (force simp: may_acquire_def blocked_def list_all_length)

lemma exclusive_step: "step strict ts ts' \<Longrightarrow> exclusive ts \<Longrightarrow> exclusive ts'"
proof (induction rule: step.induct)
  case (acquire i ts held l g as)
  have held: "fst (ts ! i) = held" using acquire.hyps(2) by simp
  show ?case unfolding exclusive_def
  proof (intro allI impI)
    fix a b k
    assume ab: "a < length (ts[i := ((l, g) # held, as)])" "b < length (ts[i := ((l, g) # held, as)])" "a \<noteq> b"
      and w: "(k, WriteGuard) \<in> set (fst (ts[i := ((l, g) # held, as)] ! a))"
    have old: "k \<notin> fst ` set (fst (ts ! b))" if "(k, WriteGuard) \<in> set (fst (ts ! a))"
      using acquire.prems that ab by (auto simp: exclusive_def)
    show "k \<notin> fst ` set (fst (ts[i := ((l, g) # held, as)] ! b))"
      using w ab held old may_acquireD(1) [OF acquire.hyps(3), of a] may_acquireD(2) [of strict l ts b] acquire.hyps(3)
      by (cases "a = i"; cases "b = i") auto
  qed
next
  case (release i ts held l g as)
  let ?ts = "ts[i := (remove1 (l, g) held, as)]"
  have sub: "set (fst (?ts ! a)) \<subseteq> set (fst (ts ! a))" for a
    using release.hyps by (cases "a = i") (auto dest: set_remove1_sub)
  show ?case unfolding exclusive_def
  proof (intro allI impI)
    fix a b k
    assume "a < length ?ts" "b < length ?ts" "a \<noteq> b" "(k, WriteGuard) \<in> set (fst (?ts ! a))"
    then have "k \<notin> fst ` set (fst (ts ! b))" using release.prems sub [of a] by (auto simp: exclusive_def)
    then show "k \<notin> fst ` set (fst (?ts ! b))" using sub [of b] by blast
  qed
qed

lemma exclusive_steps: "(step strict)\<^sup>*\<^sup>* ts ts' \<Longrightarrow> exclusive ts \<Longrightarrow> exclusive ts'"
  by (induction rule: rtranclp_induct) (auto intro: exclusive_step)

lemma exclusive_start: "exclusive (map thread_of ops)"
  by (simp add: exclusive_def thread_of_def)

text \<open>The locks of the model exclude: the holder of a write guard is alone.\<close>

lemma writer_excludes:
  assumes "(step strict)\<^sup>*\<^sup>* (map thread_of ops) ts"
    and "i < length ts" and "j < length ts" and "i \<noteq> j" and "(l, WriteGuard) \<in> set (fst (ts ! i))"
  shows "(l, g) \<notin> set (fst (ts ! j))"
  using exclusive_steps [OF assms(1) exclusive_start] assms(2-) by (force simp: exclusive_def)

subsection \<open>Threads that take their locks in one order finish\<close>

primrec rank :: "lock \<Rightarrow> nat" where
  "rank DictLock = 0"
| "rank MemtableLock = 1"
| "rank WalLock = 2"
| "rank CompactionLock = 3"
| "rank ReplicationLock = 4"

text \<open>Every lock is above those held when it is asked for, and every guard is dropped.\<close>

fun in_order :: "(lock \<times> guard) list \<Rightarrow> action list \<Rightarrow> bool" where
  "in_order held (Acquire l g # as) = (list_all (\<lambda>h. rank (fst h) < rank l) held \<and> in_order ((l, g) # held) as)"
| "in_order held (Release l g # as) = ((l, g) \<in> set held \<and> in_order (remove1 (l, g) held) as)"
| "in_order held [] = (held = [])"

definition ordered_pool :: "thread list \<Rightarrow> bool" where
  "ordered_pool ts = list_all (\<lambda>t. in_order (fst t) (snd t)) ts"

lemma in_order_drops: "in_order held (map (\<lambda>(l, g). Release l g) held)"
  by (induction held) auto

lemma in_order_cut: "in_order held as \<Longrightarrow> in_order held (cut_after held n as)"
  by (induction held n as rule: cut_after.induct) (auto simp: in_order_drops)

lemma ordered_step: "step strict ts ts' \<Longrightarrow> ordered_pool ts \<Longrightarrow> ordered_pool ts'"
  by (induction rule: step.induct) (force simp: ordered_pool_def list_all_length nth_list_update)+

text \<open>The lock a thread waits for.\<close>

definition wanted :: "thread \<Rightarrow> lock" where
  "wanted t = (case snd t of Acquire l g # as \<Rightarrow> l | _ \<Rightarrow> DictLock)"

lemma holder_wants_above:
  assumes "ordered_pool ts" "stuck strict ts" "t \<in> set ts" "(l, g) \<in> set (fst t)"
  shows "rank l < rank (wanted t)"
  using assms by (cases t rule: moves_cases)
    (fastforce simp: ordered_pool_def list_all_iff wanted_def stuck_def)+

lemma ordered_not_stuck:
  assumes "ordered_pool ts" "stuck strict ts"
  shows "finished ts"
proof (rule ccontr)
  assume "\<not> finished ts"
  let ?W = "{t \<in> set ts. snd t \<noteq> []}"
  obtain t0 where "t0 \<in> ?W" using \<open>\<not> finished ts\<close> unfolding finished_def list_all_iff by blast
  then have "?W \<noteq> {}" by blast
  moreover have fin: "finite ?W" by simp
  ultimately obtain t where t: "t \<in> ?W" and "Max ((\<lambda>t. rank (wanted t)) ` ?W) = rank (wanted t)"
    using obtains_MAX [of ?W "\<lambda>t. rank (wanted t)"] by blast
  then have top: "rank (wanted u) \<le> rank (wanted t)" if "u \<in> ?W" for u
    using Max_ge [of "(\<lambda>t. rank (wanted t)) ` ?W" "rank (wanted u)"] fin that by simp
  let ?l = "wanted t"
  have free: "?l \<notin> fst ` set (fst u)" if "u \<in> set ts" for u
  proof
    assume "?l \<in> fst ` set (fst u)"
    then obtain g where g: "(?l, g) \<in> set (fst u)" by auto
    have "rank ?l < rank (wanted u)" using holder_wants_above [OF assms that g] .
    moreover have "snd u \<noteq> []" using assms(1) that g by (cases u) (auto simp: ordered_pool_def list_all_iff)
    ultimately show False using top [of u] that by auto
  qed
  have unblocked: "list_all (\<lambda>u. \<not> blocked ?l g (fst u)) ts" for g
    using free by (force simp: list_all_iff blocked_def split: guard.split)
  have stuck: "\<not> can_move strict ts u" if "u \<in> set ts" for u
    using assms(2) that by (simp add: stuck_def list_all_iff)
  have acq: "\<exists>held g as. u = (held, Acquire (wanted u) g # as)" if "u \<in> ?W" for u
    using stuck [of u] that by (cases u rule: moves_cases) (auto simp: wanted_def)
  show False
  proof (cases "list_ex (writer_queued ?l) ts")
    case True
    then obtain u where u: "u \<in> set ts" "writer_queued ?l u" by (auto simp: list_ex_iff)
    then obtain held as where "u = (held, Acquire ?l WriteGuard # as)"
      by (cases "(?l, u)" rule: writer_queued.cases) auto
    then show False using stuck [OF u(1)] unblocked [of WriteGuard] by (simp add: may_acquire_def)
  next
    case False
    obtain held l g as where eq: "t = (held, Acquire l g # as)" using acq [OF t] by blast
    then have "?l = l" by (simp add: wanted_def)
    then have "can_move strict ts t" using eq unblocked [of g] False by (simp add: may_acquire_def)
    then show False using stuck [of t] t by blast
  qed
qed

lemma actions_left_step: "step strict ts ts' \<Longrightarrow> Suc (actions_left ts') = actions_left ts"
proof (induction rule: step.induct)
  case (acquire i ts held l g as)
  then show ?case by (subst (2) id_take_nth_drop [OF acquire.hyps(1)]) (simp add: actions_left_def upd_conv_take_nth_drop)
next
  case (release i ts held l g as)
  then show ?case by (subst (2) id_take_nth_drop [OF release.hyps(1)]) (simp add: actions_left_def upd_conv_take_nth_drop)
qed

lemma actions_left_steps: "(step strict ^^ k) ts ts' \<Longrightarrow> k + actions_left ts' = actions_left ts"
  by (induction k arbitrary: ts') (fastforce dest: actions_left_step)+

lemma ordered_steps: "(step strict ^^ k) ts ts' \<Longrightarrow> ordered_pool ts \<Longrightarrow> ordered_pool ts'"
  by (induction k arbitrary: ts') (auto intro: ordered_step)

primrec ordered_operation :: "operation \<Rightarrow> bool" where
  "ordered_operation (InsertOp full) = (\<not> full)"
| "ordered_operation (InsertBatchOp full) = (\<not> full)"
| "ordered_operation (InsertMultiOp full) = (\<not> full)"
| "ordered_operation NeedsCompactionOp = True"
| "ordered_operation (GetOp in_memtable) = True"
| "ordered_operation (ScanOp one_symbol tables) = (one_symbol \<longrightarrow> tables = 0)"
| "ordered_operation (ScanStreamOp one_symbol) = False"
| "ordered_operation (FlushOp some_ticks) = True"
| "ordered_operation CompactOp = True"
| "ordered_operation (BackgroundOp needed) = True"
| "ordered_operation StatsOp = True"
| "ordered_operation GetSymbolOp = True"
| "ordered_operation SyncColdTierOp = True"
| "ordered_operation ReadWalOp = True"
| "ordered_operation (ApplyReplicationOp full) = True"
| "ordered_operation ReplicationStatusOp = True"
| "ordered_operation LastAppliedOp = True"

lemma ordered_locks: "ordered_operation op \<Longrightarrow> in_order [] (locks_of op)"
  by (cases op) (auto simp: lock_scripts)

lemma ordered_start: "list_all (\<lambda>c. ordered_operation (fst c)) ops \<Longrightarrow> ordered_pool (map thread_of ops)"
  by (auto simp: ordered_pool_def list_all_iff thread_of_def intro!: in_order_cut ordered_locks)



text \<open>
  C14. A pool of operations that take their locks in order (everything but a write that fills the
  memtable, a scan of tables for one symbol and a streaming scan), each cut short anywhere,
  never deadlocks: every run is finite, and where it is not over some thread can move, whatever
  writers are queued; when it is over, no guard is held.
\<close>

theorem no_deadlock:
  assumes "list_all (\<lambda>c. ordered_operation (fst c)) ops" and "(step False ^^ k) (map thread_of ops) ts"
  shows "k \<le> actions_left (map thread_of ops) \<and>
    ((\<exists>ts'. step True ts ts') \<or> finished ts \<and> list_all (\<lambda>t. fst t = []) ts)"
proof (intro conjI)
  show "k \<le> actions_left (map thread_of ops)" using actions_left_steps [OF assms(2)] by simp
  have ord: "ordered_pool ts" using ordered_steps [OF assms(2) ordered_start [OF assms(1)]] .
  then have "list_all (\<lambda>t. fst t = []) ts" if "finished ts"
    using that by (fastforce simp: finished_def ordered_pool_def list_all_iff)
  then show "(\<exists>ts'. step True ts ts') \<or> finished ts \<and> list_all (\<lambda>t. fst t = []) ts"
    using ordered_not_stuck [OF ord] stuck_iff by blast
qed

theorem no_deadlock_witness:
  "let ts = move (map thread_of [(GetOp False, 9), (InsertOp False, 3), (CompactOp, 9)]) 0
   in (\<exists>ts'. step True ts ts') \<or> finished ts \<and> list_all (\<lambda>t. fst t = []) ts"
proof -
  let ?ops = "[(GetOp False, 9), (InsertOp False, 3), (CompactOp, 9)]"
  have "step False (map thread_of ?ops) (move (map thread_of ?ops) 0)"
    by (rule step_move) (simp_all add: pool_eval thread_of_def eval_nat_numeral)
  then have "(step False ^^ 1) (map thread_of ?ops) (move (map thread_of ?ops) 0)" by (simp only: relpowp_1)
  from no_deadlock [OF _ this] show ?thesis by (simp add: Let_def)
qed

subsection \<open>Deadlocks\<close>

definition deadlock_reachable :: "bool \<Rightarrow> operation list \<Rightarrow> bool" where
  "deadlock_reachable strict ops \<longleftrightarrow> (\<exists>ts. (step False)\<^sup>*\<^sup>* (map (\<lambda>op. ([], locks_of op)) ops) ts \<and>
     stuck strict ts \<and> \<not> finished ts)"

lemma deadlock_by_schedule:
  assumes "(case schedule False (map (\<lambda>op. ([], locks_of op)) ops) sched of
      Some ts \<Rightarrow> stuck strict ts \<and> \<not> finished ts | None \<Rightarrow> False)"
  shows "deadlock_reachable strict ops"
  using assms schedule_steps unfolding deadlock_reachable_def by (fastforce split: option.splits)

text \<open>
  C15. A streaming scan takes the memtable's guard before the dictionary's, every write the
  dictionary's before the memtable's: run together they can deadlock, the scan holding the
  memtable and waiting for the dictionary, the write the other way round.  No queued writer is
  needed, and no row needs to be flushed.
\<close>

theorem scan_stream_deadlock:
  "deadlock_reachable False [ScanStreamOp True, InsertOp False] \<and>
   deadlock_reachable False [ScanStreamOp True, InsertBatchOp False] \<and>
   deadlock_reachable False [ScanStreamOp True, InsertMultiOp False]"
proof (intro conjI)
  show "deadlock_reachable False [ScanStreamOp True, InsertOp False]"
    by (rule deadlock_by_schedule [where sched = "[0, 0, 0, 0, 1, 1, 1]"]) (simp add: pool_eval)
  show "deadlock_reachable False [ScanStreamOp True, InsertBatchOp False]"
    by (rule deadlock_by_schedule [where sched = "[0, 0, 0, 0, 1]"]) (simp add: pool_eval)
  show "deadlock_reachable False [ScanStreamOp True, InsertMultiOp False]"
    by (rule deadlock_by_schedule [where sched = "[0, 0, 0, 0, 1]"]) (simp add: pool_eval)
qed

text \<open>
  A scan for one symbol looks the name up in the dictionary while it holds the levels, a get
  asks for the levels while it holds the dictionary; with a compaction and an insert queued behind
  them all four wait for each other.
\<close>

theorem scan_get_deadlock:
  "deadlock_reachable True [ScanOp True 1, GetOp False, CompactOp, InsertOp False]"
  by (rule deadlock_by_schedule [where sched = "[0, 0, 0, 0, 0, 1, 1, 1]"]) (simp add: pool_eval)

text \<open>A write that fills the memtable needs no second thread.\<close>

lemma insert_full_deadlock: "deadlock_reachable False [InsertOp True]"
  by (rule deadlock_by_schedule [where sched = "[0, 0, 0, 0, 0, 0, 0, 0, 0]"]) (simp add: pool_eval)


end
