(* ===== verification/LockTrace.thy ===== *)
theory LockTrace
  imports LockOrder
begin

text \<open>
  The lists of acquisitions of \<open>LockOrder\<close> are those of the engine's operations in \<open>Lsm\<close>: an
  operation that runs while other threads hold \<open>H\<close> stops at the acquisition at which its list first
  meets a guard it has to wait for, holding then what the list has acquired and not released, and
  returns only along a list that meets none.
\<close>

subsection \<open>Running a list\<close>

text \<open>Where a list stops: the guards held there, the newest first, and the acquisition it waits for.\<close>

fun blocks_at :: "(lock \<times> guard) list \<Rightarrow> action list \<Rightarrow> ((lock \<times> guard) list \<times> (lock \<times> guard) option) option" where
  "blocks_at H [] = None"
| "blocks_at H (Acquire l g # as) = (if blocked l g H then Some (H, Some (l, g)) else blocks_at ((l, g) # H) as)"
| "blocks_at H (Release l g # as) = blocks_at (remove1 (l, g) H) as"

fun held_after :: "(lock \<times> guard) list \<Rightarrow> action list \<Rightarrow> (lock \<times> guard) list" where
  "held_after H [] = H"
| "held_after H (Acquire l g # as) = held_after ((l, g) # H) as"
| "held_after H (Release l g # as) = held_after (remove1 (l, g) H) as"

definition balanced :: "action list \<Rightarrow> bool" where
  "balanced p \<longleftrightarrow> (\<forall>H. held_after H p = H)"

lemma blocks_at_append: "blocks_at H (p @ q) = (case blocks_at H p of None \<Rightarrow> blocks_at (held_after H p) q | Some r \<Rightarrow> Some r)"
  by (induction H p rule: blocks_at.induct) (auto split: option.split)

lemma held_after_append: "held_after H (p @ q) = held_after (held_after H p) q"
  by (induction H p rule: held_after.induct) auto

lemma balanced_Nil: "balanced []"
  by (simp add: balanced_def)

lemma balanced_append: "balanced p \<Longrightarrow> balanced q \<Longrightarrow> balanced (p @ q)"
  by (simp add: balanced_def held_after_append)

lemma balanced_under: "balanced p \<Longrightarrow> balanced (under l g p)"
  by (simp add: balanced_def under_def held_after_append)

lemma balanced_concat: "(\<And>p. p \<in> set ps \<Longrightarrow> balanced p) \<Longrightarrow> balanced (concat ps)"
  by (induction ps) (simp_all add: balanced_Nil balanced_append)

lemmas balanced_intros = balanced_Nil balanced_append balanced_under

lemma blocks_pieces [simp]:
  "balanced p \<Longrightarrow> blocks_at H (under l g p) = (if blocked l g H then Some (H, Some (l, g)) else blocks_at ((l, g) # H) p)"
  "balanced p \<Longrightarrow> blocks_at H (p @ q) = (case blocks_at H p of None \<Rightarrow> blocks_at H q | Some r \<Rightarrow> Some r)"
  by (simp_all add: balanced_def blocks_at_append under_def split: option.split)

subsection \<open>Operations that take no lock\<close>

definition lock_free :: "(lsm, 'a, 'e) eff \<Rightarrow> bool" where
  "lock_free m \<longleftrightarrow> (\<forall>s. fst (m s) \<noteq> Deadlock \<and> ls_held (snd (m s)) = ls_held s)"

named_theorems lock_free_rules "operations that take no lock"

lemma lock_free_basic [lock_free_rules]:
  "lock_free (ret x)" "lock_free (fail_with e)" "lock_free (get_eff g)"
  "(\<And>s. ls_held (f s) = ls_held s) \<Longrightarrow> lock_free (upd_eff f)" "lock_free (upd_cm h)"
  "lock_free (lift_outcome (or_panic y))"
  by (auto simp: lock_free_def eff_simps upd_cm_def or_panic_def split: option.split)

lemma lock_free_bind [lock_free_rules]:
  "lock_free m \<Longrightarrow> (\<And>x. lock_free (f x)) \<Longrightarrow> lock_free (bind_eff m f)"
  by (auto simp: lock_free_def bind_eff_def split: outcome.splits prod.splits) (metis fst_conv snd_conv)+

lemma lock_free_for [lock_free_rules]: "(\<And>x. lock_free (f x)) \<Longrightarrow> lock_free (for_eff xs f)"
  by (induction xs) (simp_all add: lock_free_basic lock_free_bind)

lemma map_err_Deadlock [simp]: "map_err f r = Deadlock \<longleftrightarrow> r = Deadlock"
  by (cases r) auto

lemma lock_free_map_err [lock_free_rules]: "lock_free m \<Longrightarrow> lock_free (map_err_eff f m)"
  by (auto simp: lock_free_def map_err_eff_def split: prod.splits) (metis fst_conv snd_conv)+

lemma lock_free_if [lock_free_rules]: "lock_free m \<Longrightarrow> lock_free n \<Longrightarrow> lock_free (if b then m else n)"
  by simp

subsection \<open>Operations along a set of lists\<close>

text \<open>
  \<open>follows_from I m P J\<close>: from a state in \<open>I\<close> the operation \<open>m\<close> runs along a list of \<open>P\<close>, and when it
  returns a value \<open>x\<close> the state is in \<open>J x\<close>.  It blocks at the acquisition at which a list of \<open>P\<close>
  does, with the guards of that list; it returns only when a list of \<open>P\<close> meets no guard; and unless
  it blocks it drops every guard it took.
\<close>

definition follows_from :: "(lsm \<Rightarrow> bool) \<Rightarrow> (lsm, 'a, 'e) eff \<Rightarrow> action list set \<Rightarrow> ('a \<Rightarrow> lsm \<Rightarrow> bool) \<Rightarrow> bool" where
  "follows_from I m P J \<longleftrightarrow> (\<forall>s. I s \<longrightarrow> (case m s of
      (Ok x, s') \<Rightarrow> ls_held s' = ls_held s \<and> J x s' \<and> (\<exists>p \<in> P. blocks_at (ls_held s) p = None)
    | (Err e, s') \<Rightarrow> ls_held s' = ls_held s
    | (Panic, s') \<Rightarrow> ls_held s' = ls_held s
    | (Deadlock, s') \<Rightarrow> \<exists>p \<in> P. blocks_at (ls_held s) p = Some (ls_held s', ls_waits_for s')))"

abbreviation follows :: "(lsm, 'a, 'e) eff \<Rightarrow> action list set \<Rightarrow> bool" where
  "follows m P \<equiv> follows_from (\<lambda>_. True) m P (\<lambda>_ _. True)"

lemma follows_fromI [case_names Ok Err Panic Deadlock]:
  assumes "\<And>s x s'. I s \<Longrightarrow> m s = (Ok x, s') \<Longrightarrow> ls_held s' = ls_held s \<and> J x s' \<and> (\<exists>p \<in> P. blocks_at (ls_held s) p = None)"
    and "\<And>s e s'. I s \<Longrightarrow> m s = (Err e, s') \<Longrightarrow> ls_held s' = ls_held s"
    and "\<And>s s'. I s \<Longrightarrow> m s = (Panic, s') \<Longrightarrow> ls_held s' = ls_held s"
    and "\<And>s s'. I s \<Longrightarrow> m s = (Deadlock, s') \<Longrightarrow> \<exists>p \<in> P. blocks_at (ls_held s) p = Some (ls_held s', ls_waits_for s')"
  shows "follows_from I m P J"
  using assms unfolding follows_from_def by (simp split: prod.split outcome.split)

lemma follows_fromD:
  assumes "follows_from I m P J" "I s"
  shows "m s = (Ok x, s') \<Longrightarrow> ls_held s' = ls_held s \<and> J x s' \<and> (\<exists>p \<in> P. blocks_at (ls_held s) p = None)"
    "m s = (Err e, s') \<Longrightarrow> ls_held s' = ls_held s"
    "m s = (Panic, s') \<Longrightarrow> ls_held s' = ls_held s"
    "m s = (Deadlock, s') \<Longrightarrow> \<exists>p \<in> P. blocks_at (ls_held s) p = Some (ls_held s', ls_waits_for s')"
  using assms(1) [unfolded follows_from_def, rule_format, OF assms(2)] by simp_all

lemma lock_freeD: "lock_free m \<Longrightarrow> m s = (r, s') \<Longrightarrow> r \<noteq> Deadlock \<and> ls_held s' = ls_held s"
  unfolding lock_free_def by (metis fst_conv snd_conv)

lemma follows_from_free:
  "lock_free m \<Longrightarrow> (\<And>s x s'. I s \<Longrightarrow> m s = (Ok x, s') \<Longrightarrow> J x s') \<Longrightarrow> follows_from I m {[]} J"
  by (rule follows_fromI) (auto dest: lock_freeD)

lemma follows_free: "lock_free m \<Longrightarrow> follows m {[]}"
  by (rule follows_from_free) simp_all

lemma follows_from_weaken:
  assumes "follows_from I m P J" "\<And>s. I' s \<Longrightarrow> I s" "\<And>p. p \<in> P \<Longrightarrow> \<exists>q \<in> Q. \<forall>H. blocks_at H q = blocks_at H p"
    and "\<And>x s. J x s \<Longrightarrow> J' x s"
  shows "follows_from I' m Q J'"
proof (rule follows_fromI)
  fix s x s' assume "I' s" "m s = (Ok x, s')"
  then show "ls_held s' = ls_held s \<and> J' x s' \<and> (\<exists>p \<in> Q. blocks_at (ls_held s) p = None)"
    using follows_fromD(1) [OF assms(1)] assms(2-) by metis
next
  fix s s' assume "I' s" "m s = (Deadlock, s')"
  then show "\<exists>p \<in> Q. blocks_at (ls_held s) p = Some (ls_held s', ls_waits_for s')"
    using follows_fromD(4) [OF assms(1)] assms(2-) by metis
qed (use follows_fromD(2,3) [OF assms(1)] assms(2) in blast)+

lemma follows_weaken:
  "follows_from I m P J \<Longrightarrow> (\<And>p. p \<in> P \<Longrightarrow> \<exists>q \<in> Q. \<forall>H. blocks_at H q = blocks_at H p) \<Longrightarrow> follows_from I m Q J"
  by (rule follows_from_weaken [where I = I and J = J])

lemma follows_locked:
  assumes "follows_from I m P J" "\<forall>p \<in> P. balanced p" "P \<noteq> {}"
    and "\<And>s h. I (s\<lparr>ls_held := h\<rparr>) = I s" "\<And>x s h. J x (s\<lparr>ls_held := h\<rparr>) = J x s"
  shows "follows_from I (locked l g m) (under l g ` P) J"
proof -
  obtain p0 where p0: "p0 \<in> P" using assms(3) by blast
  have b: "blocks_at H (under l g p) = (if blocked l g H then Some (H, Some (l, g)) else blocks_at ((l, g) # H) p)"
    if "p \<in> P" for H p using assms(2) that by simp
  have run: "(r, s') = (Deadlock, s\<lparr>ls_waits_for := Some (l, g)\<rparr>) \<and> blocked l g (ls_held s) \<or>
      (\<exists>s1. m (s\<lparr>ls_held := (l, g) # ls_held s\<rparr>) = (r, s1) \<and> \<not> blocked l g (ls_held s) \<and>
        s' = (if r = Deadlock then s1 else s1\<lparr>ls_held := ls_held s\<rparr>))"
    if "locked l g m s = (r, s')" for s r s'
    using that by (cases "m (s\<lparr>ls_held := (l, g) # ls_held s\<rparr>)"; cases "fst (m (s\<lparr>ls_held := (l, g) # ls_held s\<rparr>))")
      (auto simp: locked_def split: if_splits)
  show ?thesis
  proof (rule follows_fromI)
    fix s x s' assume I: "I s" and m: "locked l g m s = (Ok x, s')"
    have I': "I (s\<lparr>ls_held := (l, g) # ls_held s\<rparr>)" using I assms(4) by blast
    show "ls_held s' = ls_held s \<and> J x s' \<and> (\<exists>p \<in> under l g ` P. blocks_at (ls_held s) p = None)"
      using run [OF m] follows_fromD(1) [OF assms(1) I'] assms(5) b by fastforce
  next
    fix s s' assume I: "I s" and m: "locked l g m s = (Deadlock, s')"
    have I': "I (s\<lparr>ls_held := (l, g) # ls_held s\<rparr>)" using I assms(4) by blast
    show "\<exists>p \<in> under l g ` P. blocks_at (ls_held s) p = Some (ls_held s', ls_waits_for s')"
      using run [OF m] follows_fromD(4) [OF assms(1) I'] b p0 by fastforce
  qed (use run in force)+
qed

lemma follows_bind:
  assumes "follows_from I m P J" "\<And>x. follows_from (J x) (f x) Q K" "\<forall>p \<in> P. balanced p" "Q \<noteq> {}"
  shows "follows_from I (bind_eff m f) {p @ q | p q. p \<in> P \<and> q \<in> Q} K"
proof -
  let ?PQ = "{p @ q | p q. p \<in> P \<and> q \<in> Q}"
  have b: "blocks_at H (p @ q) = (case blocks_at H p of None \<Rightarrow> blocks_at H q | Some r \<Rightarrow> Some r)"
    if "p \<in> P" for H p q using assms(3) that by simp
  have run: "(\<exists>x s1. m s = (Ok x, s1) \<and> f x s1 = (r, s')) \<or> (r = Panic \<and> m s = (Panic, s')) \<or>
      (r = Deadlock \<and> m s = (Deadlock, s')) \<or> (\<exists>e. r = Err e \<and> m s = (Err e, s'))" if "bind_eff m f s = (r, s')" for s r s'
    using that by (cases "m s"; cases "fst (m s)") (auto simp: bind_eff_def)
  show ?thesis
  proof (rule follows_fromI)
    fix s x s' assume I: "I s" and m: "bind_eff m f s = (Ok x, s')"
    obtain y s1 where y: "m s = (Ok y, s1)" "f y s1 = (Ok x, s')" using run [OF m] by auto
    obtain p where p: "p \<in> P" "blocks_at (ls_held s) p = None" "ls_held s1 = ls_held s" "J y s1"
      using follows_fromD(1) [OF assms(1) I y(1)] by blast
    obtain q where q: "q \<in> Q" "blocks_at (ls_held s) q = None" "ls_held s' = ls_held s" "K x s'"
      using follows_fromD(1) [OF assms(2) [of y] p(4) y(2)] p(3) by auto
    have "blocks_at (ls_held s) (p @ q) = None" using b [OF p(1)] p(2) q(2) by simp
    then show "ls_held s' = ls_held s \<and> K x s' \<and> (\<exists>p \<in> ?PQ. blocks_at (ls_held s) p = None)" using p(1) q by blast
  next
    fix s s' assume I: "I s" and m: "bind_eff m f s = (Deadlock, s')"
    show "\<exists>p \<in> ?PQ. blocks_at (ls_held s) p = Some (ls_held s', ls_waits_for s')"
    proof (cases "\<exists>x s1. m s = (Ok x, s1)")
      case True
      then obtain y s1 where y: "m s = (Ok y, s1)" "f y s1 = (Deadlock, s')" using run [OF m] by auto
      obtain p where p: "p \<in> P" "blocks_at (ls_held s) p = None" "ls_held s1 = ls_held s" "J y s1"
        using follows_fromD(1) [OF assms(1) I y(1)] by blast
      obtain q where q: "q \<in> Q" "blocks_at (ls_held s) q = Some (ls_held s', ls_waits_for s')"
        using follows_fromD(4) [OF assms(2) [of y] p(4) y(2)] p(3) by auto
      have "blocks_at (ls_held s) (p @ q) = Some (ls_held s', ls_waits_for s')" using b [OF p(1)] p(2) q(2) by simp
      then show ?thesis using p(1) q(1) by blast
    next
      case False
      then have "m s = (Deadlock, s')" using run [OF m] by auto
      then obtain p where p: "p \<in> P" "blocks_at (ls_held s) p = Some (ls_held s', ls_waits_for s')"
        using follows_fromD(4) [OF assms(1) I] by blast
      obtain q where "q \<in> Q" using assms(4) by blast
      moreover have "blocks_at (ls_held s) (p @ q) = Some (ls_held s', ls_waits_for s')" using b [OF p(1)] p(2) by simp
      ultimately show ?thesis using p(1) by blast
    qed
  next
    fix s e s' assume I: "I s" and m: "bind_eff m f s = (Err e, s')"
    show "ls_held s' = ls_held s"
      using run [OF m] follows_fromD(1,2) [OF assms(1) I] follows_fromD(2) [OF assms(2)] by fastforce
  next
    fix s s' assume I: "I s" and m: "bind_eff m f s = (Panic, s')"
    show "ls_held s' = ls_held s"
      using run [OF m] follows_fromD(1,3) [OF assms(1) I] follows_fromD(3) [OF assms(2)] by fastforce
  qed
qed

subsection \<open>The calls of the components\<close>

lemma bind_outcome_Deadlock: "bind_outcome r f = Deadlock \<longleftrightarrow> r = Deadlock \<or> (\<exists>x. r = Ok x \<and> f x = Deadlock)"
  by (cases r) auto

lemma or_panic_Deadlock [simp]: "or_panic x \<noteq> Deadlock"
  by (cases x) auto

named_theorems no_deadlock_rules "calls of the components that do not block"

lemma wal_no_deadlock [no_deadlock_rules]:
  "fst (wal_append fmt w r) \<noteq> Deadlock" "fst (wal_append_batch fmt w rs) \<noteq> Deadlock"
  "wal_read_for_replication fmt w a n \<noteq> Deadlock"
proof -
  show "fst (wal_append fmt w r) \<noteq> Deadlock" by (simp add: wal_append_def Let_def split: option.split)
  show "fst (wal_append_batch fmt w rs) \<noteq> Deadlock"
    by (induction fmt w rs rule: wal_append_batch.induct) (auto simp: Let_def split: option.split)
  have f: "wal_read_frame fmt off d \<noteq> Deadlock" for off d
    by (auto simp: wal_read_frame_def Let_def)
  have "wal_read_from fmt a n k off d \<noteq> Deadlock" for k off d
  proof (induction "length d" arbitrary: k off d rule: less_induct)
    case less
    have IH: "wal_read_from fmt a n k' off' rest \<noteq> Deadlock"
      if "wal_read_frame fmt off d = Ok (Some (sq, payload, rest))" for k' off' rest sq payload
      using less wal_read_frame_shorter that by blast
    show ?case using f IH
      by (subst wal_read_from.simps) (auto simp: Let_def bind_outcome_Deadlock split: outcome.split option.split)
  qed
  then show "wal_read_for_replication fmt w a n \<noteq> Deadlock" by (simp add: wal_read_for_replication_def)
qed

lemma sst_no_deadlock [no_deadlock_rules]:
  "sst_open lossy tid path b \<noteq> Deadlock" "sst_write ln cz tid path ticks lvl dict \<noteq> Deadlock"
proof -
  have r: "read_at b i n \<noteq> Deadlock" for i n by (simp add: read_at_def)
  show "sst_open lossy tid path b \<noteq> Deadlock"
    using r by (auto simp: sst_open_def read_footer_def read_metadata_def read_index_def read_bloom_def
        read_symbol_dict_def bind_outcome_Deadlock Let_def split: if_splits option.splits)
  show "sst_write ln cz tid path ticks lvl dict \<noteq> Deadlock"
    by (auto simp: sst_write_def bind_outcome_Deadlock Let_def split: prod.splits)
qed

lemma cold_no_deadlock [no_deadlock_rules]:
  "fst (ensure_local ev path cw) \<noteq> Deadlock" "fst (sync_tables ev ts cw) \<noteq> Deadlock"
proof -
  show "fst (ensure_local ev path cw) \<noteq> Deadlock"
    by (simp add: ensure_local_def split: prod.split option.split)
  have t: "fst (sync_table ev t cw) \<noteq> Deadlock" for t cw
    by (simp add: sync_table_def Let_def split: prod.split option.split)
  have bind: "fst (bind_eff m f x) \<noteq> Deadlock" if "fst (m x) \<noteq> Deadlock" "\<And>y x. fst (f y x) \<noteq> Deadlock"
    for m :: "('a, 'e) cold_eff" and f :: "'a \<Rightarrow> ('b, 'e) cold_eff" and x
    using that by (auto simp: bind_eff_def split: prod.split outcome.split)
  have l: "fst (sync_loop ev ts k cw) \<noteq> Deadlock" for k cw
    by (induction ts arbitrary: k cw) (simp_all add: ret_def bind t)
  show "fst (sync_tables ev ts cw) \<noteq> Deadlock"
    unfolding sync_tables_def by (intro bind l) (simp add: bind ret_def save_manifest_def split: prod.split option.split)
qed

lemma lock_free_world [lock_free_rules]:
  "(\<And>w. fst (m w) \<noteq> Deadlock) \<Longrightarrow> lock_free (in_world m)"
  by (auto simp: lock_free_def in_world_def split: prod.split) (metis fst_conv)

lemma lock_free_engine [lock_free_rules]:
  "lock_free (engine_open ev path)" "lock_free (engine_write ev path ticks lvl dict)"
  "lock_free (engine_ensure ev path)" "lock_free (engine_scan ev t i t1 t2)"
  "lock_free (in_world (\<lambda>w. case world_now ev w of (n, w') \<Rightarrow> (Ok n, w')))"
proof -
  show "lock_free (engine_open ev path)" unfolding engine_open_def
    by (rule lock_free_world) (simp add: world_open_def Let_def sst_no_deadlock split: option.split)
  show "lock_free (engine_write ev path ticks lvl dict)" unfolding engine_write_def
    using sst_no_deadlock(2) by (intro lock_free_world) (auto simp: world_write_def Let_def split: outcome.split)
  have "r \<noteq> Deadlock" if "ensure_local ev path x = (r, y)" for r x y
    using cold_no_deadlock(1) [of ev path x] that by simp
  then show "lock_free (engine_ensure ev path)"
    by (auto simp: lock_free_def engine_ensure_def bind_outcome_Deadlock split: option.split prod.split)
  show "lock_free (engine_scan ev t i t1 t2)"
    by (auto simp: lock_free_def engine_scan_def split: option.split prod.split)
  show "lock_free (in_world (\<lambda>w. case world_now ev w of (n, w') \<Rightarrow> (Ok n, w')))"
    by (rule lock_free_world) (simp split: prod.split)
qed

lemma lock_free_compact [lock_free_rules]: "lock_free (compact ev)"
proof -
  have i: "lock_free (compact_inputs ev ps)" for ps
    by (induction ps) (auto simp: compact_input_def intro!: lock_free_rules)
  have "lock_free (compact_output ev n chunk)" for n chunk
    unfolding compact_output_def by (intro lock_free_rules)
  then have "lock_free (compact_level ev n)" for n
    unfolding compact_level_def Let_def by (auto intro!: lock_free_rules i)
  then show ?thesis unfolding compact_def by (auto intro!: lock_free_rules)
qed

lemma lock_free_calls [lock_free_rules]:
  "(\<And>w. fst (f w) \<noteq> Deadlock) \<Longrightarrow> lock_free (wal_call f)" "lock_free (memtable_insert t)"
  "lock_free memtable_drain" "lock_free (dict_get_or_insert n)" "lock_free count_row" "lock_free count_bloom_check"
  "lock_free count_bloom_hit" "lock_free (open_sstable ev path)" "lock_free (symbol_id_of n)"
  "lock_free (memtable_get k)" "lock_free (tracker_call (tracker_advance rf sq))"
  "lock_free (cold_call (sync_tables ev ts))"
proof -
  show "lock_free (wal_call f)" if "\<And>w. fst (f w) \<noteq> Deadlock"
    using that by (auto simp: lock_free_def wal_call_def split: prod.split) (metis fst_conv)
  have "fst (tracker_advance rf sq t) \<noteq> Deadlock" for t
    by (simp add: tracker_advance_def Let_def split: option.split)
  then show "lock_free (tracker_call (tracker_advance rf sq))"
    by (auto simp: lock_free_def tracker_call_def split: prod.split) (metis fst_conv)
  have "r \<noteq> Deadlock" if "sync_tables ev ts x = (r, y)" for r x y
    using cold_no_deadlock(2) [of ev ts x] that by simp
  then show "lock_free (cold_call (sync_tables ev ts))"
    by (auto simp: lock_free_def cold_call_def split: prod.split option.split)
  show "lock_free (open_sstable ev path)" unfolding open_sstable_def by (intro lock_free_rules)
qed (auto simp: lock_free_def memtable_insert_def memtable_drain_def dict_get_or_insert_def count_row_def
    count_bloom_check_def count_bloom_hit_def symbol_id_of_def memtable_get_def upd_eff_def split: option.split prod.split)


subsection \<open>The operations of the engine\<close>

lemma follows_from_bind:
  "follows_from I m {[]} J \<Longrightarrow> (\<And>x. follows_from (J x) (f x) Q K) \<Longrightarrow> Q \<noteq> {} \<Longrightarrow> follows_from I (bind_eff m f) Q K"
  using follows_bind [of I m "{[]}" J f Q K] by (simp add: balanced_Nil)

lemma follows_free_bind: "lock_free m \<Longrightarrow> (\<And>x. follows (f x) Q) \<Longrightarrow> Q \<noteq> {} \<Longrightarrow> follows (bind_eff m f) Q"
  by (rule follows_from_bind [OF follows_free])

lemma follows_seq:
  assumes "follows_from I m {p} J" "balanced p" "\<And>x. follows_from (J x) (f x) Q K" "Q \<noteq> {}"
  shows "follows_from I (bind_eff m f) ((@) p ` Q) K"
proof -
  have "{p' @ q | p' q. p' \<in> {p} \<and> q \<in> Q} = (@) p ` Q" by blast
  then show ?thesis using follows_bind [of I m "{p}" J f Q K] assms by simp
qed

lemma follows_from_guard:
  assumes "follows_from I m {[]} J" "\<And>s h. I (s\<lparr>ls_held := h\<rparr>) = I s" "\<And>x s h. J x (s\<lparr>ls_held := h\<rparr>) = J x s"
  shows "follows_from I (locked l g m) {under l g []} J"
  using follows_locked [OF assms(1) _ _ assms(2,3)] by (simp add: balanced_Nil)

lemma follows_guard: "lock_free m \<Longrightarrow> follows (locked l g m) {under l g []}"
  by (intro follows_from_guard follows_free) simp_all

lemma follows_under: "follows m {p} \<Longrightarrow> balanced p \<Longrightarrow> follows (locked l g m) {under l g p}"
  using follows_locked [of "\<lambda>_. True" m "{p}" "\<lambda>_ _. True"] by simp

lemma bind_eff_ret: "bind_eff (ret x) f = f x"
  by (rule ext) simp

lemma follows_fail: "follows_from I (fail_with e) P J"
  by (simp add: follows_from_def eff_simps)

lemma follows_ret: "follows (ret x) {[]}"
  by (simp add: follows_from_def eff_simps)

lemma follows_subset: "follows m P \<Longrightarrow> P \<subseteq> Q \<Longrightarrow> follows m Q"
  by (rule follows_weaken) blast+

lemma follows_branch: "follows m P \<Longrightarrow> follows n Q \<Longrightarrow> follows (if b then m else n) (P \<union> Q)"
  by (cases b) (auto elim: follows_subset)

lemma follows_choice: "follows_from I m P J \<Longrightarrow> follows_from I n Q J \<Longrightarrow> follows_from I (if b then m else n) (if b then P else Q) J"
  by simp

lemma follows_fail_branch: "follows_from I n Q J \<Longrightarrow> follows_from I (if b then fail_with e else n) Q J"
  by (simp add: follows_fail)

abbreviation flushes :: "action list set" where
  "flushes \<equiv> {flush_locks False, flush_locks True}"

lemma balanced_flush: "balanced (flush_locks b)"
  by (simp add: flush_locks_def balanced_intros)

lemma follows_flush: "follows (flush_memtable ev) flushes"
proof -
  have add: "lock_free (\<lambda>s. case cm_levels (en_cm s) of [] \<Rightarrow> (Panic, s)
      | l0 # ls \<Rightarrow> upd_cm (\<lambda>cm. cm\<lparr>cm_levels := add_table table l0 # ls\<rparr>) s)" for table
    by (auto simp: lock_free_def upd_cm_def eff_simps split: list.split)
  show ?thesis unfolding flush_memtable_def
    by (rule follows_weaken [OF follows_seq [OF follows_guard _ follows_branch [OF follows_ret
        follows_free_bind [OF _ follows_free_bind [OF _ follows_seq [OF follows_guard _ follows_free_bind [OF _
          follows_seq [OF follows_guard _ follows_guard]]]]]]]])
      (auto simp: flush_locks_def balanced_intros intro!: lock_free_rules add)
qed

lemma follows_flush_when_full: "follows (flush_when_full ev n) (insert [] flushes)"
  unfolding flush_when_full_def
  by (rule follows_weaken [OF follows_free_bind [OF _ follows_branch [OF follows_flush follows_ret]]])
    (auto intro!: lock_free_rules)

lemmas follows_intros = lock_free_rules no_deadlock_rules balanced_intros balanced_flush

text \<open>The flush of an empty memtable takes a guard that was free a moment before.\<close>

lemma empty_flush:
  "blocks_at H (under DictLock WriteGuard (under WalLock WriteGuard [] @ under MemtableLock WriteGuard [] @
      under MemtableLock ReadGuard [] @ flush_locks False)) = blocks_at H (insert_locks False)"
  "blocks_at H (under DictLock WriteGuard (under MemtableLock WriteGuard (under WalLock WriteGuard []) @ flush_locks False))
    = blocks_at H (insert_batch_locks False)"
  "blocks_at H (under DictLock WriteGuard (under MemtableLock WriteGuard (under WalLock WriteGuard []) @ flush_locks False))
    = blocks_at H (insert_multi_locks False)"
  "blocks_at H (under DictLock WriteGuard [] @ under WalLock WriteGuard [] @ under MemtableLock WriteGuard [] @
      flush_locks False @ under ReplicationLock WriteGuard []) = blocks_at H (apply_replication_locks False)"
  by (simp_all add: lock_scripts blocked_def split: guard.split)

lemma follows_insert: "follows (lsm_insert ev n t) {insert_locks False, insert_locks True}"
  unfolding lsm_insert_def Let_def
  by (rule follows_weaken [OF follows_free_bind [OF _ follows_fail_branch [OF follows_locked [OF
      follows_free_bind [OF _ follows_seq [OF follows_guard _ follows_seq [OF follows_guard _
        follows_free_bind [OF _ follows_seq [OF follows_guard _ follows_flush_when_full]]]]]]]]])
    (auto simp: empty_flush(1) insert_locks_def simp del: blocks_pieces intro!: follows_intros)

lemma lock_free_rows: "lock_free (batch_rows b i ks)" "lock_free (multi_rows ts)"
proof -
  show "lock_free (batch_rows b i ks)" by (induction ks) (auto intro!: lock_free_rules)
  show "lock_free (multi_rows ts)" by (induction ts) (auto simp: Let_def intro!: lock_free_rules)
qed

lemma follows_rows:
  assumes "lock_free rows"
  shows "follows (write_rows_then_log ev rows) {under MemtableLock WriteGuard (under WalLock WriteGuard [])}"
  unfolding write_rows_then_log_def
  by (rule follows_weaken [OF follows_locked [OF follows_free_bind [OF assms
      follows_seq [OF follows_guard _ follows_free]]]])
    (auto intro!: follows_intros)

lemma follows_insert_batch:
  "follows (insert_batch ev n b) (if batch_is_empty b then {[]} else {insert_batch_locks False, insert_batch_locks True})"
  unfolding insert_batch_def
  by (rule follows_choice [OF follows_ret follows_weaken [OF follows_locked [OF follows_free_bind [OF _
      follows_seq [OF follows_rows [OF lock_free_rows(1)] _ follows_flush_when_full]]]]])
    (auto simp: empty_flush(2) insert_batch_locks_def simp del: blocks_pieces intro!: follows_intros)

lemma follows_insert_multi:
  "follows (insert_multi ev ts) (if ts = [] then {[]} else {insert_multi_locks False, insert_multi_locks True})"
  unfolding insert_multi_def
  by (rule follows_choice [OF follows_ret follows_weaken [OF follows_locked [OF
      follows_seq [OF follows_rows [OF lock_free_rows(2)] _ follows_flush_when_full]]]])
    (auto simp: empty_flush(3) insert_multi_locks_def simp del: blocks_pieces intro!: follows_intros)

lemma lock_free_get_tables: "lock_free (get_tables ev i k ts)"
  by (induction ts) (auto intro!: lock_free_rules split: list.split)

lemma follows_found: "(\<And>y. follows (m y) P) \<Longrightarrow> follows n Q \<Longrightarrow> follows (case z of Some y \<Rightarrow> m y | None \<Rightarrow> n) (P \<union> Q)"
  by (cases z) (auto intro: follows_subset)

lemma follows_get: "follows (lsm_get ev n k) {get_locks True, get_locks False}"
  unfolding lsm_get_def
  by (rule follows_weaken [OF follows_locked [OF follows_free_bind [OF _ follows_seq [OF follows_guard _
      follows_found [OF follows_ret follows_guard]]]]])
    (auto simp: lock_scripts balanced_def intro!: follows_intros lock_free_get_tables)

lemma follows_scan_symbol_id:
  "follows (scan_symbol_id symbol) {if symbol = None then [] else under DictLock ReadGuard []}"
  unfolding scan_symbol_id_def
  by (cases symbol) (auto intro!: follows_ret follows_guard lock_free_rules)

lemma follows_scan_selects:
  "follows (scan_selects i t1 t2 t) (if i = None then {[]} else {[], under DictLock ReadGuard []})"
proof (cases i)
  case None
  then show ?thesis by (simp add: scan_selects_def follows_ret)
next
  case (Some sid)
  have "follows (scan_selects i t1 t2 t) ({[]} \<union> (@) (under DictLock ReadGuard []) ` {[]})"
    unfolding scan_selects_def Some option.case
    by (rule follows_branch [OF follows_ret follows_free_bind [OF _ follows_seq [OF follows_guard _ follows_free]]])
      (auto intro!: follows_intros)
  then show ?thesis using Some by (simp add: insert_commute)
qed

definition table_locks :: "u16 option \<Rightarrow> nat \<Rightarrow> action list" where
  "table_locks i n = (if i = None then [] else concat (replicate n (under DictLock ReadGuard [])))"

lemma balanced_tables: "balanced (table_locks i n)"
  by (auto simp: table_locks_def intro!: balanced_intros balanced_concat)

lemma follows_scan_tables: "follows (scan_tables ev i t1 t2 ts) (range (table_locks i))"
proof (induction ts)
  case Nil
  have "table_locks i 0 = []" by (simp add: table_locks_def)
  then show ?case by (simp, intro follows_weaken [OF follows_ret]) (metis rangeI singletonD)+
next
  case (Cons t ts)
  have more: "follows (bind_eff (open_sstable ev path) (\<lambda>t. bind_eff (engine_scan ev t i t1 t2) (\<lambda>ticks.
      bind_eff (scan_tables ev i t1 t2 ts) (\<lambda>more. ret (ticks @ more))))) (range (table_locks i))" for path
    by (rule follows_weaken [OF follows_free_bind [OF _ follows_free_bind [OF _ follows_bind [OF Cons.IH follows_ret]]]])
      (auto simp: balanced_tables intro!: lock_free_rules)
  have r: "table_locks i (Suc n) = (if i = None then [] else under DictLock ReadGuard []) @ table_locks i n" for n
    by (simp add: table_locks_def)
  show ?case unfolding scan_tables.simps
    by (rule follows_weaken [OF follows_bind [OF follows_scan_selects follows_branch [OF Cons.IH more]]])
      (auto simp: balanced_tables balanced_intros table_locks_def split: if_splits intro: exI [of _ "Suc _"])
qed


lemma follows_scan_tables_any:
  "follows (scan_tables ev i t1 t2 ts) (range (\<lambda>n. concat (replicate n (under DictLock ReadGuard []))))"
  by (rule follows_subset [OF follows_scan_tables]) (auto simp: table_locks_def intro: image_eqI [of _ _ 0])

lemma follows_scan: "follows (lsm_scan ev symbol t1 t2 cols) (range (scan_locks (symbol \<noteq> None)))"
proof (cases symbol)
  case None
  have iter: "lock_free (\<lambda>s. (or_panic (sl_iter (ls_memtable s)), s))" by (simp add: lock_free_def)
  show ?thesis unfolding lsm_scan_def None scan_symbol_id_def option.case bind_eff_ret
    by (rule follows_weaken [OF follows_seq [OF follows_guard _ follows_locked [OF
        follows_free_bind [OF _ follows_bind [OF follows_scan_tables follows_ret]]]]])
      (auto simp: lock_scripts table_locks_def balanced_def intro!: follows_intros iter)
next
  case (Some n)
  have b: "balanced (concat (replicate k (under DictLock ReadGuard [])))" for k
    by (auto intro!: balanced_concat balanced_intros)
  have iter: "lock_free (\<lambda>s. (or_panic (sl_iter (ls_memtable s)), s))" by (simp add: lock_free_def)
  show ?thesis unfolding lsm_scan_def Some scan_symbol_id_def option.case
    by (rule follows_weaken [OF follows_seq [OF follows_guard _ follows_seq [OF follows_guard _ follows_locked [OF
        follows_free_bind [OF _ follows_bind [OF follows_scan_tables_any follows_ret]]]]]])
      (auto simp: scan_locks_def b intro!: follows_intros iter)
qed

lemma follows_scan_stream: "follows (lsm_scan_stream symbol t1 t2 cols) {scan_stream_locks (symbol \<noteq> None)}"
proof -
  have new: "lock_free (\<lambda>s. (or_panic (stream_new (ls_memtable s) (en_cm s) (ls_symbol_dict s) params), s))" for params
    by (simp add: lock_free_def)
  have "follows (make_scan_params symbol t1 t2 cols) {if symbol = None then [] else under DictLock ReadGuard []}"
    unfolding make_scan_params_def
    by (rule follows_weaken [OF follows_bind [OF follows_scan_symbol_id follows_ret]]) (auto intro!: follows_intros)
  from follows_seq [OF this _ follows_under [OF follows_under [OF follows_guard [OF new]]]]
  show ?thesis unfolding lsm_scan_stream_def
    by (rule follows_weaken) (auto simp: scan_stream_locks_def simp del: blocks_pieces intro!: follows_intros)
qed

lemma follows_needs_compaction: "follows lsm_needs_compaction {needs_compaction_locks}"
  unfolding lsm_needs_compaction_def needs_compaction_locks_def by (intro follows_guard lock_free_rules)

lemma follows_compact: "follows (lsm_compact ev) {compact_locks}"
  unfolding lsm_compact_def compact_locks_def by (intro follows_guard lock_free_rules)

lemma follows_stats: "follows lsm_stats {stats_locks}"
  unfolding lsm_stats_def stats_locks_def by (intro follows_guard lock_free_rules)

lemma follows_get_symbol: "follows (lsm_get_symbol i) {get_symbol_locks}" "follows lsm_symbol_dict {get_symbol_locks}"
  unfolding lsm_get_symbol_def lsm_symbol_dict_def get_symbol_locks_def by (intro follows_guard lock_free_rules)+

lemma follows_sync_cold_tier: "follows (sync_cold_tier ev) {sync_cold_tier_locks}"
  unfolding sync_cold_tier_def sync_cold_tier_locks_def
  by (rule follows_free_bind [OF _ follows_fail_branch [OF follows_guard]]) (auto intro!: lock_free_rules)

lemma follows_read_wal: "follows (read_wal_for_replication ev a n) {read_wal_locks}"
  unfolding read_wal_for_replication_def read_wal_locks_def
  by (rule follows_weaken [OF follows_seq [OF follows_guard _ follows_guard]])
    (auto simp: no_deadlock_rules intro!: follows_intros)

lemma lock_free_resolve: "lock_free (resolve_entries es)"
  by (induction es) (auto intro!: lock_free_rules split: wal_record.split option.split)

lemma follows_apply_replication:
  "follows (apply_replication_batch ev es)
    (if es = [] then {[]} else {apply_replication_locks False, apply_replication_locks True})"
  unfolding apply_replication_batch_def Let_def
  by (rule follows_choice [OF follows_ret follows_weaken [OF follows_free_bind [OF _ follows_fail_branch [OF
      follows_seq [OF follows_guard _ follows_seq [OF follows_guard _ follows_seq [OF follows_guard _
        follows_bind [OF follows_flush_when_full follows_seq [OF follows_guard _ follows_ret]]]]]]]]])
    (auto simp: apply_tick_def empty_flush(4) apply_replication_locks_def simp del: blocks_pieces
      intro!: follows_intros lock_free_resolve)

lemma follows_replication_status: "follows lsm_replication_status {replication_status_locks}"
  unfolding lsm_replication_status_def replication_status_locks_def
  by (rule follows_weaken [OF follows_seq [OF follows_guard _ follows_guard]])
    (auto simp: Let_def intro!: follows_intros)

lemma follows_last_applied: "follows replication_last_applied {last_applied_locks}"
  unfolding replication_last_applied_def last_applied_locks_def by (intro follows_guard lock_free_rules)

text \<open>The background thread drops the error of a compaction, which held its guard all the same.\<close>

lemma follows_background: "follows (background_tick ev) {background_locks False, background_locks True}"
proof -
  let ?m = "\<lambda>s. case lsm_compact ev s of (Err _, s') \<Rightarrow> (Ok (), s') | r \<Rightarrow> r"
  note c = follows_fromD [OF follows_compact [of ev] TrueI]
  have "follows ?m {compact_locks}"
  proof (rule follows_fromI)
    fix s x s' assume m: "?m s = (Ok x, s')"
    have "blocks_at (ls_held s) compact_locks = None" if "lsm_compact ev s = (Err e, s')" for e
      using that by (auto simp: lsm_compact_def locked_def lock_scripts split: if_splits)
    then show "ls_held s' = ls_held s \<and> True \<and> (\<exists>p \<in> {compact_locks}. blocks_at (ls_held s) p = None)"
      using m c(1,2) by (auto split: prod.splits outcome.splits)
  qed (use c in \<open>auto split: prod.splits outcome.splits\<close>)
  from follows_seq [OF follows_needs_compaction _ follows_branch [OF this follows_ret]]
  show ?thesis unfolding background_tick_def
    by (rule follows_weaken) (auto simp: background_locks_def needs_compaction_locks_def simp del: blocks_pieces intro!: follows_intros)
qed

subsection \<open>Inserts with room below the threshold\<close>

definition room :: "nat \<Rightarrow> lsm \<Rightarrow> bool" where
  "room k s \<longleftrightarrow> sl_len (ls_memtable s) + k < memtable_flush_threshold (ls_config s)"

lemma room_held [simp]: "room k (s\<lparr>ls_held := h\<rparr>) = room k s"
  by (simp add: room_def)

text \<open>The memtable grows by \<open>k\<close> at most.\<close>

definition grows_by :: "nat \<Rightarrow> (lsm, 'a, 'e) eff \<Rightarrow> bool" where
  "grows_by k m \<longleftrightarrow> (\<forall>s x s'. m s = (Ok x, s') \<longrightarrow>
     sl_len (ls_memtable s') \<le> sl_len (ls_memtable s) + k \<and> ls_config s' = ls_config s)"

lemma bind_Some_all: "(\<And>x. \<forall>y. f x = Some y \<longrightarrow> P y) \<Longrightarrow> \<forall>y. Option.bind m f = Some y \<longrightarrow> P y"
  by (cases m) auto

lemma sl_insert_len: "\<forall>l'. sl_insert l t = Some l' \<longrightarrow> sl_len l' \<le> Suc (sl_len l)"
  unfolding sl_insert_def Let_def case_prod_beta
  by (intro bind_Some_all) (auto simp: bind_eq_Some_conv split: option.splits if_splits)

lemma grows_by_calls:
  "grows_by 0 (ret x)" "grows_by 0 count_row" "grows_by 0 (dict_get_or_insert n)" "grows_by 0 (wal_call f)"
  "grows_by 0 (lift_outcome r)" "grows_by (Suc 0) (memtable_insert t)"
  by (auto simp: grows_by_def eff_simps count_row_def dict_get_or_insert_def wal_call_def memtable_insert_def
      dest: sl_insert_len [rule_format] split: prod.splits option.splits)

lemma grows_by_bind: "grows_by j m \<Longrightarrow> (\<And>x. grows_by k (f x)) \<Longrightarrow> grows_by (j + k) (bind_eff m f)"
  unfolding grows_by_def bind_eff_def
  by (fastforce split: prod.splits outcome.splits)

lemma grows_by_rows: "grows_by (length ks) (batch_rows b i ks)" "grows_by (length ts) (multi_rows ts)"
proof -
  show "grows_by (length ks) (batch_rows b i ks)"
  proof (induction ks)
    case (Cons k ks)
    have "grows_by (0 + (Suc 0 + (0 + (length ks + 0)))) (batch_rows b i (k # ks))"
      unfolding batch_rows.simps by (intro grows_by_bind grows_by_calls Cons)
    then show ?case by simp
  qed (simp add: grows_by_calls)
  show "grows_by (length ts) (multi_rows ts)"
  proof (induction ts)
    case (Cons t ts)
    have "grows_by (0 + (Suc 0 + (0 + (length ts + 0)))) (multi_rows (t # ts))"
      unfolding multi_rows.simps Let_def by (intro grows_by_bind grows_by_calls Cons)
    then show ?case by simp
  qed (simp add: grows_by_calls)
qed

lemma room_free: "lock_free m \<Longrightarrow> grows_by k m \<Longrightarrow> follows_from (room (k + j)) m {[]} (\<lambda>_. room j)"
  by (rule follows_from_free) (fastforce simp: grows_by_def room_def)+

lemma room_kept:
  assumes "lock_free m" "grows_by 0 m"
  shows "follows_from (room j) m {[]} (\<lambda>_. room j)" "follows_from (room j) (locked l g m) {under l g []} (\<lambda>_. room j)"
proof -
  show m: "follows_from (room j) m {[]} (\<lambda>_. room j)" using room_free [OF assms, of j] by simp
  show "follows_from (room j) (locked l g m) {under l g []} (\<lambda>_. room j)" by (intro follows_from_guard m) simp_all
qed

lemma room_insert: "follows_from (room (Suc j)) (locked l g (memtable_insert t)) {under l g []} (\<lambda>_. room j)"
  using room_free [OF lock_free_calls(2) grows_by_calls(6), of j t] by (intro follows_from_guard) simp_all

text \<open>A length that was read below the threshold does not flush.\<close>

definition below :: "nat \<Rightarrow> lsm \<Rightarrow> bool" where
  "below n s \<longleftrightarrow> n < memtable_flush_threshold (ls_config s)"

lemma below_held [simp]: "below n (s\<lparr>ls_held := h\<rparr>) = below n s"
  by (simp add: below_def)

lemma read_len: "follows_from (room 0) (get_eff (\<lambda>s. sl_len (ls_memtable s))) {[]} below"
  by (rule follows_from_free) (auto simp: eff_simps room_def below_def intro: lock_free_rules)

lemma no_flush: "follows_from (below n) (flush_when_full ev n) {[]} (\<lambda>_ _. True)"
  by (rule follows_fromI) (auto simp: flush_when_full_def bind_eff_def eff_simps below_def)

lemma len_then_flush:
  "follows_from (room 0) (bind_eff (locked MemtableLock ReadGuard (get_eff (\<lambda>s. sl_len (ls_memtable s)))) (flush_when_full ev))
    {under MemtableLock ReadGuard []} (\<lambda>_ _. True)"
  by (rule follows_weaken [OF follows_seq [OF follows_from_guard [OF read_len] _ no_flush]]) (auto intro!: balanced_intros)

lemma insert_with_room: "follows_from (room 1) (lsm_insert ev n t) {insert_locks False} (\<lambda>_ _. True)"
proof -
  have "follows_from (room 0) (bind_eff count_row (\<lambda>_. bind_eff (locked MemtableLock ReadGuard (get_eff (\<lambda>s. sl_len (ls_memtable s))))
      (flush_when_full ev))) {under MemtableLock ReadGuard []} (\<lambda>_ _. True)"
    by (rule follows_from_bind [OF room_kept(1) len_then_flush]) (auto intro!: lock_free_rules grows_by_calls)
  note 1 = follows_seq [OF room_insert _ this]
  have 2: "follows_from (room (Suc 0)) (bind_eff (locked WalLock WriteGuard (wal_call (\<lambda>w. wal_append (ev_fmt ev) w r)))
      (\<lambda>_. bind_eff (locked MemtableLock WriteGuard (memtable_insert u)) (\<lambda>_. bind_eff count_row (\<lambda>_.
        bind_eff (locked MemtableLock ReadGuard (get_eff (\<lambda>s. sl_len (ls_memtable s)))) (flush_when_full ev)))))
    {under WalLock WriteGuard [] @ under MemtableLock WriteGuard [] @ under MemtableLock ReadGuard []} (\<lambda>_ _. True)" for r u
    by (rule follows_weaken [OF follows_seq [OF room_kept(2) _ 1]])
      (auto intro!: follows_intros grows_by_calls simp del: blocks_pieces)
  have 3: "follows_from (room (Suc 0)) (get_eff ls_role) {[]} (\<lambda>_. room (Suc 0))"
    by (rule follows_from_free) (auto simp: eff_simps intro: lock_free_rules)
  show ?thesis unfolding lsm_insert_def Let_def One_nat_def
    by (rule follows_weaken [OF follows_from_bind [OF 3 follows_fail_branch [OF follows_locked [OF
        follows_from_bind [OF room_kept(1) 2]]]]])
      (auto simp: insert_locks_def intro!: follows_intros grows_by_calls simp del: blocks_pieces)
qed

lemma rows_with_room:
  assumes "lock_free rows" "grows_by k rows"
  shows "follows_from (room k) (bind_eff (write_rows_then_log ev rows) (flush_when_full ev))
    {under MemtableLock WriteGuard (under WalLock WriteGuard [])} (\<lambda>_ _. True)"
proof -
  have "follows_from (room 0) (bind_eff (locked WalLock WriteGuard (wal_call (\<lambda>w. wal_append_batch (ev_fmt ev) w rs)))
      (\<lambda>_. get_eff (\<lambda>s. sl_len (ls_memtable s)))) {under WalLock WriteGuard []} below" for rs
    by (rule follows_weaken [OF follows_seq [OF room_kept(2) _ read_len]])
      (auto intro!: follows_intros grows_by_calls simp del: blocks_pieces)
  note log = follows_from_bind [OF room_free [where j = 0, unfolded add_0_right, OF assms] this]
  show ?thesis unfolding write_rows_then_log_def
    by (rule follows_weaken [OF follows_seq [OF follows_weaken [OF follows_locked [OF log]] _ no_flush]])
      (auto intro!: follows_intros simp del: blocks_pieces)
qed

lemma insert_batch_with_room:
  "follows_from (room (batch_len b)) (insert_batch ev n b)
    (if batch_is_empty b then {[]} else {insert_batch_locks False}) (\<lambda>_ _. True)"
proof -
  have rows: "follows_from (room (batch_len b)) (bind_eff (write_rows_then_log ev (batch_rows b i [0 ..< batch_len b])) (flush_when_full ev))
    {under MemtableLock WriteGuard (under WalLock WriteGuard [])} (\<lambda>_ _. True)" for i
    using rows_with_room [OF lock_free_rows(1) grows_by_rows(1) [of "[0 ..< batch_len b]" b i], of ev] by simp
  show ?thesis unfolding insert_batch_def
    by (rule follows_choice [OF follows_from_weaken [OF follows_ret]
          follows_weaken [OF follows_locked [OF follows_from_bind [OF room_kept(1) rows]]]])
      (auto simp: insert_batch_locks_def intro!: follows_intros grows_by_calls simp del: blocks_pieces)
qed

lemma insert_multi_with_room:
  "follows_from (room (length rows)) (insert_multi ev rows)
    (if rows = [] then {[]} else {insert_multi_locks False}) (\<lambda>_ _. True)"
  unfolding insert_multi_def
  by (rule follows_choice [OF follows_from_weaken [OF follows_ret]
        follows_weaken [OF follows_locked [OF rows_with_room [OF lock_free_rows(2) grows_by_rows(2)]]]])
    (auto simp: insert_multi_locks_def intro!: follows_intros simp del: blocks_pieces)

subsection \<open>Property\<close>

text \<open>
  C16. The lists of acquisitions the deadlock results speak of are those of the engine.  From any
  state, whatever guards other threads hold, each operation of the model stops exactly at the
  acquisition at which its list first meets a guard that forbids it, holding the guards the list
  has acquired and not released by then; it returns only along a list that meets none; and unless
  it blocks it drops every guard it took, whether it returns, fails or panics.  As long as the rows
  leave the memtable below the threshold, an insert runs along the list without the flush.
\<close>

theorem operations_follow_locks:
  "follows (lsm_insert ev n t) {locks_of (InsertOp False), locks_of (InsertOp True)} \<and>
   follows_from (room 1) (lsm_insert ev n t) {locks_of (InsertOp False)} (\<lambda>_ _. True) \<and>
   follows (insert_batch ev n b)
     (if batch_is_empty b then {[]} else {locks_of (InsertBatchOp False), locks_of (InsertBatchOp True)}) \<and>
   follows_from (room (batch_len b)) (insert_batch ev n b)
     (if batch_is_empty b then {[]} else {locks_of (InsertBatchOp False)}) (\<lambda>_ _. True) \<and>
   follows (insert_multi ev rows)
     (if rows = [] then {[]} else {locks_of (InsertMultiOp False), locks_of (InsertMultiOp True)}) \<and>
   follows_from (room (length rows)) (insert_multi ev rows)
     (if rows = [] then {[]} else {locks_of (InsertMultiOp False)}) (\<lambda>_ _. True) \<and>
   follows lsm_needs_compaction {locks_of NeedsCompactionOp} \<and>
   follows (lsm_get ev n k) {locks_of (GetOp True), locks_of (GetOp False)} \<and>
   follows (lsm_scan ev symbol t1 t2 cols) (range (\<lambda>j. locks_of (ScanOp (symbol \<noteq> None) j))) \<and>
   follows (lsm_scan_stream symbol t1 t2 cols) {locks_of (ScanStreamOp (symbol \<noteq> None))} \<and>
   follows (flush_memtable ev) {locks_of (FlushOp False), locks_of (FlushOp True)} \<and>
   follows (lsm_compact ev) {locks_of CompactOp} \<and>
   follows (background_tick ev) {locks_of (BackgroundOp False), locks_of (BackgroundOp True)} \<and>
   follows lsm_stats {locks_of StatsOp} \<and>
   follows (lsm_get_symbol i) {locks_of GetSymbolOp} \<and> follows lsm_symbol_dict {locks_of GetSymbolOp} \<and>
   follows (sync_cold_tier ev) {locks_of SyncColdTierOp} \<and>
   follows (read_wal_for_replication ev after limit) {locks_of ReadWalOp} \<and>
   follows (apply_replication_batch ev es)
     (if es = [] then {[]} else {locks_of (ApplyReplicationOp False), locks_of (ApplyReplicationOp True)}) \<and>
   follows lsm_replication_status {locks_of ReplicationStatusOp} \<and>
   follows replication_last_applied {locks_of LastAppliedOp}"
  unfolding locks_of.simps
  by (intro conjI follows_insert follows_insert_batch follows_insert_multi insert_with_room insert_batch_with_room
      insert_multi_with_room follows_needs_compaction follows_get follows_scan follows_scan_stream follows_flush
      follows_compact follows_background follows_stats follows_get_symbol follows_sync_cold_tier follows_read_wal
      follows_apply_replication follows_replication_status follows_last_applied)

end
