(* ===== verification/GqlAst.thy ===== *)
theory GqlAst
  imports World
begin

text \<open>
  \<^verbatim>\<open>graphite/src/gql/ast.rs\<close>: the abstract syntax of queries and the nodes of an explained plan.
\<close>

datatype aggregate_fn = AggOhlcv | AggSum | AggCount | AggVwap

datatype interval = Sec1 | Min1 | Hour1

fun interval_nanos :: "interval \<Rightarrow> i64" where
  "interval_nanos Sec1 = 1000000000"
| "interval_nanos Min1 = 60000000000"
| "interval_nanos Hour1 = 3600000000000"

datatype price_predicate = PriceGreater f64 | PriceLess f64 | PriceGreaterEq f64 | PriceLessEq f64 | PriceEqual f64

record where_clause =
  wc_t1 :: i64
  wc_t2 :: i64
  wc_price_predicate :: "price_predicate option"

record group_by_clause =
  gb_interval :: interval
  gb_aggregate :: aggregate_fn

datatype select_columns = SelectAll | SelectCols "column list"

record query =
  q_explain :: bool
  q_columns :: select_columns
  q_symbol :: string
  q_where :: where_clause
  q_limit :: "u64 option"
  q_group_by :: "group_by_clause option"

datatype explain_node = ExplainNode (en_operator: string) (en_estimated_rows: u64) (en_children: "explain_node list")

text \<open>Decimal output of signed integers.\<close>

definition show_u64 :: "u64 \<Rightarrow> string" where
  "show_u64 w = decimal (unat w)"

definition show_i64 :: "i64 \<Rightarrow> string" where
  "show_i64 w = (if sint w < 0 then CHR ''-'' # decimal (nat (- sint w)) else decimal (nat (sint w)))"

text \<open>The plan as text, two blanks per level.\<close>

fun explain_format :: "explain_node \<Rightarrow> nat \<Rightarrow> string" where
  "explain_format (ExplainNode operator rows children) indent =
     concat (replicate indent ''  '') @ operator @ '' (est. '' @ show_u64 rows @ '' rows)'' @ [CHR 10] @
     concat (map (\<lambda>child. explain_format child (indent + 1)) children)"

end
