(* ===== verification/GqlExec.thy ===== *)
theory GqlExec
  imports Lsm GqlAst
begin

text \<open>
  \<^verbatim>\<open>graphite/src/gql/executor.rs\<close>: running a query on the engine.  Whether the processor has AVX2
  is the parameter \<open>avx2\<close>; the vector instructions of \<^verbatim>\<open>std::arch\<close> are functions on the four lanes.
  The arithmetic on volumes wraps round, as in a release build.
\<close>

datatype exec_error = ExecLsm lsm_error | ExecMessage string

record ohlcv_bar =
  ob_timestamp :: i64
  ob_open :: f64
  ob_high :: f64
  ob_low :: f64
  ob_close :: f64
  ob_volume :: u64

record result_row =
  rr_timestamp :: i64
  rr_symbol :: string
  rr_open :: f64
  rr_high :: f64
  rr_low :: f64
  rr_close :: f64
  rr_volume :: u64

record query_result =
  qr_rows :: "result_row list"
  qr_explain_plan :: "string option"

type_synonym 'a exec_eff = "(lsm, 'a, exec_error) eff"

subsection \<open>The price filter\<close>

datatype simd_op = SimdGreater | SimdLess

definition passes :: "simd_op \<Rightarrow> f64 \<Rightarrow> tick \<Rightarrow> bool" where
  "passes op threshold t = (case op of
      SimdGreater \<Rightarrow> f64_lt threshold (t_close t) | SimdLess \<Rightarrow> f64_lt (t_close t) threshold)"

definition scalar_filter_prices :: "tick list \<Rightarrow> f64 \<Rightarrow> simd_op \<Rightarrow> tick list" where
  "scalar_filter_prices ticks threshold op = filter (passes op threshold) ticks"

text \<open>A comparison fills the lanes where it holds with ones; \<open>movemask\<close> collects the top bits.\<close>

definition mm256_set1_pd :: "f64 \<Rightarrow> f64 list" where
  "mm256_set1_pd x = [x, x, x, x]"

definition mm256_cmp_pd :: "f64 list \<Rightarrow> f64 list \<Rightarrow> simd_op \<Rightarrow> u64 list" where
  "mm256_cmp_pd xs ys op = map2 (\<lambda>x y. if (case op of SimdGreater \<Rightarrow> f64_lt y x | SimdLess \<Rightarrow> f64_lt x y)
     then - 1 else 0) xs ys"

definition mm256_movemask_pd :: "u64 list \<Rightarrow> 32 word" where
  "mm256_movemask_pd ms = foldr (\<lambda>m r. push_bit 1 r + (if bit m 63 then 1 else 0)) ms 0"

text \<open>The four lanes that start at \<open>i\<close>.\<close>

definition simd_block :: "tick list \<Rightarrow> f64 \<Rightarrow> simd_op \<Rightarrow> nat \<Rightarrow> tick list" where
  "simd_block ticks threshold op i =
     (let mask_bits = mm256_movemask_pd (mm256_cmp_pd
          [t_close (ticks ! i), t_close (ticks ! (i + 1)), t_close (ticks ! (i + 2)), t_close (ticks ! (i + 3))]
          (mm256_set1_pd threshold) op)
      in map (\<lambda>j. ticks ! (i + j)) (filter (\<lambda>j. bit mask_bits j) [0, 1, 2, 3]))"

function simd_loop :: "tick list \<Rightarrow> f64 \<Rightarrow> simd_op \<Rightarrow> nat \<Rightarrow> tick list" where
  "simd_loop ticks threshold op i =
     (if i + 4 \<le> length ticks then simd_block ticks threshold op i @ simd_loop ticks threshold op (i + 4)
      else filter (passes op threshold) (drop i ticks))"
  by pat_completeness auto
termination
  by (relation "measure (\<lambda>(ticks, _, _, i). length ticks - i)") auto

declare simd_loop.simps [simp del]

definition simd_filter_avx2 :: "tick list \<Rightarrow> f64 \<Rightarrow> simd_op \<Rightarrow> tick list" where
  "simd_filter_avx2 ticks threshold op = simd_loop ticks threshold op 0"

definition simd_filter_prices :: "bool \<Rightarrow> tick list \<Rightarrow> f64 \<Rightarrow> simd_op \<Rightarrow> tick list" where
  "simd_filter_prices avx2 ticks threshold op =
     (if avx2 then simd_filter_avx2 ticks threshold op else scalar_filter_prices ticks threshold op)"

definition apply_price_filter :: "bool \<Rightarrow> tick list \<Rightarrow> price_predicate option \<Rightarrow> tick list" where
  "apply_price_filter avx2 ticks p = (case p of
      None \<Rightarrow> ticks
    | Some (PriceGreater x) \<Rightarrow> simd_filter_prices avx2 ticks x SimdGreater
    | Some (PriceLess x) \<Rightarrow> simd_filter_prices avx2 ticks x SimdLess
    | Some (PriceGreaterEq x) \<Rightarrow> filter (\<lambda>t. f64_le x (t_close t)) ticks
    | Some (PriceLessEq x) \<Rightarrow> filter (\<lambda>t. f64_le (t_close t) x) ticks
    | Some (PriceEqual x) \<Rightarrow> filter (\<lambda>t. f64_eq (t_close t) x) ticks)"

subsection \<open>Aggregation\<close>

text \<open>Signed division truncates toward zero.\<close>

definition i64_div :: "i64 \<Rightarrow> i64 \<Rightarrow> i64" where
  "i64_div a b = of_int (sgn (sint a) * sgn (sint b) * (\<bar>sint a\<bar> div \<bar>sint b\<bar>))"

definition bucket_of :: "interval \<Rightarrow> i64 \<Rightarrow> i64" where
  "bucket_of i ts = i64_div ts (interval_nanos i) * interval_nanos i"

definition bar_start :: "i64 \<Rightarrow> tick \<Rightarrow> ohlcv_bar" where
  "bar_start bucket t = \<lparr>ob_timestamp = bucket, ob_open = t_open t, ob_high = t_high t, ob_low = t_low t,
     ob_close = t_close t, ob_volume = t_volume t\<rparr>"

definition bar_extend :: "ohlcv_bar \<Rightarrow> tick \<Rightarrow> ohlcv_bar" where
  "bar_extend bar t = bar\<lparr>ob_high := f64_max (ob_high bar) (t_high t), ob_low := f64_min (ob_low bar) (t_low t),
     ob_close := t_close t, ob_volume := ob_volume bar + t_volume t\<rparr>"

definition add_to_bars :: "interval \<Rightarrow> tick \<Rightarrow> ohlcv_bar list \<Rightarrow> ohlcv_bar list" where
  "add_to_bars i t bars = (let bucket = bucket_of i (t_timestamp t) in
     if bars \<noteq> [] \<and> ob_timestamp (last bars) = bucket then butlast bars @ [bar_extend (last bars) t]
     else bars @ [bar_start bucket t])"

definition make_bars :: "interval \<Rightarrow> tick list \<Rightarrow> ohlcv_bar list" where
  "make_bars i ticks = fold (add_to_bars i) ticks []"

definition vwap_totals :: "tick list \<Rightarrow> f64 \<times> u64" where
  "vwap_totals ticks = fold (\<lambda>t (pv, vol). (f64_add pv (f64_mul (t_close t) (f64_of_u64 (t_volume t))), vol + t_volume t))
     ticks (f64_zero False, 0)"

definition F64_ONE :: f64 where "F64_ONE = 0x3FF0000000000000"

definition ohlcv_row :: "string \<Rightarrow> ohlcv_bar \<Rightarrow> result_row" where
  "ohlcv_row symbol b = \<lparr>rr_timestamp = ob_timestamp b, rr_symbol = symbol, rr_open = ob_open b, rr_high = ob_high b,
     rr_low = ob_low b, rr_close = ob_close b, rr_volume = ob_volume b\<rparr>"

definition sum_row :: "string \<Rightarrow> ohlcv_bar \<Rightarrow> result_row" where
  "sum_row symbol b = \<lparr>rr_timestamp = ob_timestamp b, rr_symbol = symbol, rr_open = f64_zero False, rr_high = f64_zero False,
     rr_low = f64_zero False, rr_close = f64_of_u64 (ob_volume b), rr_volume = ob_volume b\<rparr>"

definition count_row_of :: "string \<Rightarrow> ohlcv_bar \<Rightarrow> result_row" where
  "count_row_of symbol b = \<lparr>rr_timestamp = ob_timestamp b, rr_symbol = symbol, rr_open = f64_zero False,
     rr_high = f64_zero False, rr_low = f64_zero False, rr_close = F64_ONE, rr_volume = 1\<rparr>"

definition vwap_row :: "string \<Rightarrow> tick list \<Rightarrow> result_row" where
  "vwap_row symbol ticks = (case vwap_totals ticks of (total_pv, total_vol) \<Rightarrow>
     let vwap = (if 0 < total_vol then f64_div total_pv (f64_of_u64 total_vol) else f64_zero False)
     in \<lparr>rr_timestamp = (case ticks of [] \<Rightarrow> 0 | t # _ \<Rightarrow> t_timestamp t), rr_symbol = symbol, rr_open = vwap,
          rr_high = vwap, rr_low = vwap, rr_close = vwap, rr_volume = total_vol\<rparr>)"

definition aggregate :: "tick list \<Rightarrow> group_by_clause \<Rightarrow> string \<Rightarrow> result_row list" where
  "aggregate ticks group_by symbol = (let bars = make_bars (gb_interval group_by) ticks in
     case gb_aggregate group_by of
       AggOhlcv \<Rightarrow> map (ohlcv_row symbol) bars
     | AggSum \<Rightarrow> map (sum_row symbol) bars
     | AggCount \<Rightarrow> map (count_row_of symbol) bars
     | AggVwap \<Rightarrow> [vwap_row symbol ticks])"

definition tick_to_row :: "string \<Rightarrow> tick \<Rightarrow> result_row" where
  "tick_to_row symbol t = \<lparr>rr_timestamp = t_timestamp t, rr_symbol = symbol, rr_open = t_open t, rr_high = t_high t,
     rr_low = t_low t, rr_close = t_close t, rr_volume = t_volume t\<rparr>"

subsection \<open>Plans\<close>

definition debug_interval :: "interval \<Rightarrow> string" where
  "debug_interval i = (case i of Sec1 \<Rightarrow> ''Sec1'' | Min1 \<Rightarrow> ''Min1'' | Hour1 \<Rightarrow> ''Hour1'')"

definition debug_aggregate :: "aggregate_fn \<Rightarrow> string" where
  "debug_aggregate f = (case f of AggOhlcv \<Rightarrow> ''Ohlcv'' | AggSum \<Rightarrow> ''Sum'' | AggCount \<Rightarrow> ''Count'' | AggVwap \<Rightarrow> ''Vwap'')"

definition plan_of :: "u64 \<Rightarrow> u64 \<Rightarrow> query \<Rightarrow> explain_node" where
  "plan_of total_rows total_rows' q =
     (let est_rows = total_rows div 10;
          mem = ExplainNode ''MemTableScan'' (min total_rows' 10000) [];
          bloom = ExplainNode (''BloomFilterPushdown(t1='' @ show_i64 (wc_t1 (q_where q)) @ '', t2='' @
            show_i64 (wc_t2 (q_where q)) @ '')'') est_rows [mem];
          scan = ExplainNode (''SSTableScan(symbol='' @ q_symbol q @ '')'') est_rows [bloom];
          priced = (if wc_price_predicate (q_where q) = None then scan
            else ExplainNode ''SimdPriceFilter(AVX2)'' (est_rows div 2) [scan]);
          grouped = (case q_group_by q of None \<Rightarrow> priced
            | Some gb \<Rightarrow> ExplainNode (''StreamAggregate(interval='' @ debug_interval (gb_interval gb) @ '', fn='' @
                debug_aggregate (gb_aggregate gb) @ '')'') (est_rows div 100) [priced]);
          limited = (case q_limit q of None \<Rightarrow> grouped
            | Some n \<Rightarrow> ExplainNode (''Limit('' @ show_u64 n @ '')'') n [grouped])
      in ExplainNode ''QueryRoot'' (en_estimated_rows limited) [limited])"

definition build_explain_plan :: "query \<Rightarrow> explain_node lsm_eff" where
  "build_explain_plan q =
     bind_eff lsm_stats (\<lambda>stats.
     bind_eff lsm_stats (\<lambda>stats'.
     ret (plan_of (ds_total_rows stats) (ds_total_rows stats') q)))"

subsection \<open>Running a query\<close>

definition query_columns :: "query \<Rightarrow> column list" where
  "query_columns q = (case q_columns q of SelectAll \<Rightarrow> column_all | SelectCols cols \<Rightarrow> cols)"

definition rows_of :: "bool \<Rightarrow> query \<Rightarrow> tick list \<Rightarrow> result_row list" where
  "rows_of avx2 q ticks =
     (let filtered = apply_price_filter avx2 ticks (wc_price_predicate (q_where q));
          rows = (case q_group_by q of
            Some group_by \<Rightarrow> aggregate filtered group_by (q_symbol q)
          | None \<Rightarrow> map (tick_to_row (q_symbol q)) filtered)
      in case q_limit q of None \<Rightarrow> rows | Some n \<Rightarrow> take (unat n) rows)"

definition execute :: "env \<Rightarrow> bool \<Rightarrow> query \<Rightarrow> query_result exec_eff" where
  "execute ev avx2 q =
     (if q_explain q
      then bind_eff (map_err_eff ExecLsm (build_explain_plan q)) (\<lambda>plan.
        ret \<lparr>qr_rows = [], qr_explain_plan = Some (explain_format plan 0)\<rparr>)
      else bind_eff (map_err_eff ExecLsm
          (lsm_scan ev (Some (q_symbol q)) (wc_t1 (q_where q)) (wc_t2 (q_where q)) (query_columns q))) (\<lambda>ticks.
        ret \<lparr>qr_rows = rows_of avx2 q ticks, qr_explain_plan = None\<rparr>))"


subsection \<open>The vectorized filter\<close>

lemma simd_block_filter:
  assumes "i + 4 \<le> length ticks"
  shows "simd_block ticks threshold op i = filter (passes op threshold) (take 4 (drop i ticks))"
proof -
  have four: "take 4 (drop i ticks) = [ticks ! i, ticks ! (i + 1), ticks ! (i + 2), ticks ! (i + 3)]"
    using assms by (intro nth_equalityI) (auto simp: less_Suc_eq numeral_eq_Suc)
  have p: "(case op of SimdGreater \<Rightarrow> f64_lt threshold (t_close t) | SimdLess \<Rightarrow> f64_lt (t_close t) threshold)
      = passes op threshold t" for t
    by (simp add: passes_def)
  have top: "\<not> bit (0 :: u64) 63" "bit (- 1 :: u64) 63" by simp_all
  have mask: "mm256_movemask_pd [if a then - 1 else 0, if b then - 1 else 0, if c then - 1 else 0, if d then - 1 else 0]
      = (if a then 1 else 0) + (if b then 2 else 0) + (if c then 4 else 0) + (if d then 8 else 0)" for a b c d
    by (simp add: mm256_movemask_pd_def push_bit_eq_mult)
  have bits: "filter (bit ((if a then 1 else 0) + (if b then 2 else 0) + (if c then 4 else 0) + (if d then 8 else 0) :: 32 word)) [0, 1, 2, 3]
      = (if a then [0] else []) @ (if b then [1] else []) @ (if c then [2] else []) @ (if d then [3] else [])" for a b c d
    by (cases a; cases b; cases c; cases d) (simp_all add: bit_word_iff_drop_bit_and bit_1_iff)
  show ?thesis
    unfolding four simd_block_def Let_def mm256_set1_pd_def mm256_cmp_pd_def
    by (simp add: p mask bits)
qed

lemma simd_loop_filter: "simd_loop ticks threshold op i = filter (passes op threshold) (drop i ticks)"
proof (induction ticks threshold op i rule: simd_loop.induct)
  case (1 ticks threshold op i)
  have "take 4 (drop i ticks) @ drop (i + 4) ticks = drop i ticks"
    by (metis append_take_drop_id drop_drop add.commute)
  then have "filter (passes op threshold) (take 4 (drop i ticks)) @ filter (passes op threshold) (drop (i + 4) ticks)
      = filter (passes op threshold) (drop i ticks)"
    by (metis filter_append)
  then show ?case using 1 simd_block_filter by (subst simd_loop.simps) simp
qed

text \<open>C34. The vectorized price filter and the scalar one keep the same ticks, NaN prices included.\<close>

theorem simd_equals_scalar:
  "simd_filter_prices True ticks threshold op = simd_filter_prices False ticks threshold op"
  by (simp add: simd_filter_prices_def simd_filter_avx2_def simd_loop_filter scalar_filter_prices_def)


end
