(* ===== verification/GqlBars.thy ===== *)
theory GqlBars
  imports GqlExec
begin

text \<open>
  \<^verbatim>\<open>GROUP BY\<close>: the bars of a list of ticks in time order are one bar per bucket.
\<close>

subsection \<open>Buckets\<close>

definition nanos :: "interval \<Rightarrow> int" where
  "nanos i = (case i of Sec1 \<Rightarrow> 1000000000 | Min1 \<Rightarrow> 60000000000 | Hour1 \<Rightarrow> 3600000000000)"

lemma nanos_pos: "0 < nanos i" "sint (interval_nanos i) = nanos i" "interval_nanos i = of_int (nanos i)"
  by (cases i; simp add: nanos_def)+

text \<open>The start of a bucket: the multiple of the interval next to the timestamp on the side of zero.\<close>

lemma bucket_value: "sint (bucket_of i ts) = sgn (sint ts) * (\<bar>sint ts\<bar> div nanos i * nanos i)"
proof -
  let ?v = "sgn (sint ts) * (\<bar>sint ts\<bar> div nanos i * nanos i)"
  note p = nanos_pos [of i]
  have "0 \<le> \<bar>sint ts\<bar> div nanos i * nanos i" using p(1) by (simp add: pos_imp_zdiv_nonneg_iff)
  moreover have "\<bar>sint ts\<bar> div nanos i * nanos i \<le> \<bar>sint ts\<bar>"
    using div_mult_mod_eq [of "\<bar>sint ts\<bar>" "nanos i"] pos_mod_sign [OF p(1), of "\<bar>sint ts\<bar>"] by linarith
  moreover have "- (2 ^ 63) \<le> sint ts" "sint ts < 2 ^ 63"
    using sint_greater_eq [of ts] sint_less [of ts] by simp_all
  ultimately have r: "- (2 ^ 63) \<le> ?v" "?v < 2 ^ 63"
    by (auto simp: sgn_if)
  have "bucket_of i ts = of_int ?v"
    using p by (simp add: bucket_of_def i64_div_def mult.assoc flip: of_int_mult)
  then have "sint (bucket_of i ts) = signed_take_bit 63 ?v" by (simp only: signed_of_int) simp
  then show ?thesis using r by (simp only: signed_take_bit_int_eq_self)
qed

lemma bucket_mono:
  assumes "sint a \<le> sint b"
  shows "sint (bucket_of i a) \<le> sint (bucket_of i b)"
proof -
  have m: "x div nanos i * nanos i \<le> y div nanos i * nanos i" if "x \<le> y" for x y
    using that nanos_pos(1) [of i] by (simp add: zdiv_mono1)
  have n: "0 \<le> x div nanos i * nanos i" if "0 \<le> x" for x
    using that nanos_pos(1) [of i] by (simp add: pos_imp_zdiv_nonneg_iff)
  show ?thesis
    using assms m [of "sint a" "sint b"] m [of "- sint b" "- sint a"] n [of "- sint a"] n [of "sint b"]
    by (auto simp: bucket_value sgn_if)
qed

lemma bucket_eq_iff: "bucket_of i a = bucket_of i b \<longleftrightarrow> sint (bucket_of i a) = sint (bucket_of i b)"
proof
  assume "sint (bucket_of i a) = sint (bucket_of i b)"
  then show "bucket_of i a = bucket_of i b" by (rule signed_word_eqI)
qed simp

subsection \<open>Bars\<close>

definition bar_summary :: "i64 \<Rightarrow> tick list \<Rightarrow> ohlcv_bar" where
  "bar_summary bucket ts = \<lparr>ob_timestamp = bucket, ob_open = t_open (hd ts),
     ob_high = foldl f64_max (t_high (hd ts)) (map t_high (tl ts)),
     ob_low = foldl f64_min (t_low (hd ts)) (map t_low (tl ts)),
     ob_close = t_close (last ts), ob_volume = sum_list (map t_volume ts)\<rparr>"

definition in_bucket :: "interval \<Rightarrow> i64 \<Rightarrow> tick \<Rightarrow> bool" where
  "in_bucket i bucket t \<longleftrightarrow> bucket_of i (t_timestamp t) = bucket"

definition bucket_list :: "interval \<Rightarrow> tick list \<Rightarrow> i64 list" where
  "bucket_list i ticks = remdups_adj (map (\<lambda>t. bucket_of i (t_timestamp t)) ticks)"

definition in_time_order :: "tick list \<Rightarrow> bool" where
  "in_time_order ticks \<longleftrightarrow> sorted (map (\<lambda>t. sint (t_timestamp t)) ticks)"

lemma bar_summary_extend: "ts \<noteq> [] \<Longrightarrow> bar_extend (bar_summary k ts) t = bar_summary k (ts @ [t])"
  by (cases ts) (simp_all add: bar_extend_def bar_summary_def)

lemma bar_summary_start: "bar_start k t = bar_summary k [t]"
  by (simp add: bar_start_def bar_summary_def)

lemma make_bars_snoc: "make_bars i (ticks @ [t]) = add_to_bars i t (make_bars i ticks)"
  by (simp add: make_bars_def)

lemma bucket_list_snoc:
  "bucket_list i (ticks @ [t]) = (let k = bucket_of i (t_timestamp t) in
     if ticks \<noteq> [] \<and> bucket_of i (t_timestamp (last ticks)) = k then bucket_list i ticks else bucket_list i ticks @ [k])"
  by (cases ticks rule: rev_cases) (auto simp: bucket_list_def remdups_adj_append_two Let_def)

lemma in_time_order_snoc:
  "in_time_order (ticks @ [t]) \<longleftrightarrow> in_time_order ticks \<and> (\<forall>u \<in> set ticks. sint (t_timestamp u) \<le> sint (t_timestamp t))"
  by (auto simp: in_time_order_def sorted_append)

lemma set_bucket_list: "set (bucket_list i ticks) = (\<lambda>t. bucket_of i (t_timestamp t)) ` set ticks"
  by (simp add: bucket_list_def)

lemma last_bucket_list: "ticks \<noteq> [] \<Longrightarrow> last (bucket_list i ticks) = bucket_of i (t_timestamp (last ticks))"
  by (simp add: bucket_list_def last_map)

lemma bucket_list_ascending:
  "in_time_order ticks \<Longrightarrow> sorted_wrt (\<lambda>a b. sint a < sint b) (bucket_list i ticks)"
proof (induction ticks rule: rev_induct)
  case (snoc t ticks)
  let ?k = "bucket_of i (t_timestamp t)"
  have s: "sorted_wrt (\<lambda>a b. sint a < sint b) (bucket_list i ticks)" and
    le: "\<forall>u \<in> set ticks. sint (t_timestamp u) \<le> sint (t_timestamp t)" and o': "in_time_order ticks"
    using snoc by (simp_all add: in_time_order_snoc)
  show ?case
  proof (cases "ticks \<noteq> [] \<and> bucket_of i (t_timestamp (last ticks)) = ?k")
    case False
    have "sint b < sint ?k" if "b \<in> set (bucket_list i ticks)" for b
    proof -
      obtain u where u: "u \<in> set ticks" "b = bucket_of i (t_timestamp u)" using \<open>b \<in> _\<close> by (auto simp: set_bucket_list)
      then have ne: "ticks \<noteq> []" by auto
      have "sint (t_timestamp u) \<le> sint (t_timestamp (last ticks))"
        using o' u(1) ne by (cases ticks rule: rev_cases) (auto simp: in_time_order_snoc)
      then have "sint b \<le> sint (bucket_of i (t_timestamp (last ticks)))" unfolding u(2) by (rule bucket_mono)
      moreover have "sint (bucket_of i (t_timestamp (last ticks))) \<le> sint ?k"
        using le ne by (intro bucket_mono) auto
      moreover have "sint (bucket_of i (t_timestamp (last ticks))) \<noteq> sint ?k"
        using False ne by (auto simp: bucket_eq_iff)
      ultimately show ?thesis by linarith
    qed
    then show ?thesis using s False by (auto simp: bucket_list_snoc Let_def sorted_wrt_append)
  qed (use s in \<open>simp add: bucket_list_snoc Let_def\<close>)
qed (simp add: bucket_list_def)

text \<open>C33. One bar per bucket, in order, over the ticks of the bucket.\<close>

theorem bars_group_ticks:
  assumes "in_time_order ticks"
  shows "sorted_wrt (\<lambda>a b. sint a < sint b) (bucket_list i ticks) \<and>
    set (bucket_list i ticks) = (\<lambda>t. bucket_of i (t_timestamp t)) ` set ticks \<and>
    make_bars i ticks = map (\<lambda>k. bar_summary k (filter (in_bucket i k) ticks)) (bucket_list i ticks)"
proof -
  have "make_bars i ticks = map (\<lambda>k. bar_summary k (filter (in_bucket i k) ticks)) (bucket_list i ticks)"
    using assms
  proof (induction ticks rule: rev_induct)
    case Nil
    then show ?case by (simp add: make_bars_def bucket_list_def)
  next
    case (snoc t ticks)
    let ?k = "bucket_of i (t_timestamp t)" and ?b = "bucket_list i ticks"
    have o': "in_time_order ticks" using snoc.prems by (simp add: in_time_order_snoc)
    note IH = snoc.IH [OF o']
    have asc: "sorted_wrt (\<lambda>a b. sint a < sint b) (bucket_list i (ticks @ [t]))"
      by (rule bucket_list_ascending [OF snoc.prems])
    have same: "filter (in_bucket i k) (ticks @ [t]) = filter (in_bucket i k) ticks" if "k \<noteq> ?k" for k
      using that by (simp add: in_bucket_def)
    show ?case
    proof (cases "ticks \<noteq> [] \<and> bucket_of i (t_timestamp (last ticks)) = ?k")
      case True
      then have bl: "bucket_list i (ticks @ [t]) = ?b" and ne: "?b \<noteq> []" and l: "last ?b = ?k"
        by (simp_all add: bucket_list_snoc last_bucket_list) (auto simp: bucket_list_def)
      obtain ks where ks: "?b = ks @ [?k]" using ne l by (metis append_butlast_last_id)
      have "?k \<notin> set ks" using asc by (auto simp: bl ks sorted_wrt_append)
      then have k: "\<forall>k \<in> set ks. k \<noteq> ?k" by blast
      have "last ticks \<in> set (filter (in_bucket i ?k) ticks)" using True by (auto simp: in_bucket_def)
      then have f: "filter (in_bucket i ?k) ticks \<noteq> []" by (metis empty_iff list.set(1))
      have "ob_timestamp (bar_summary ?k xs) = ?k" for xs by (simp add: bar_summary_def)
      then show ?thesis
        using k f same by (simp add: make_bars_snoc IH bl ks add_to_bars_def Let_def bar_summary_extend)
          (simp add: in_bucket_def)
    next
      case False
      then have bl: "bucket_list i (ticks @ [t]) = ?b @ [?k]" by (auto simp: bucket_list_snoc Let_def)
      have new: "\<forall>k \<in> set ?b. k \<noteq> ?k" using asc by (auto simp: bl sorted_wrt_append)
      then have f: "filter (in_bucket i ?k) ticks = []"
        by (auto simp: set_bucket_list in_bucket_def filter_empty_conv)
      have "make_bars i ticks = [] \<or> ob_timestamp (last (make_bars i ticks)) \<noteq> ?k"
        using new by (cases ?b rule: rev_cases) (auto simp: IH bar_summary_def)
      then have "make_bars i (ticks @ [t]) = make_bars i ticks @ [bar_summary ?k [t]]"
        by (auto simp: make_bars_snoc add_to_bars_def Let_def bar_summary_start)
      moreover have "in_bucket i ?k t" by (simp add: in_bucket_def)
      ultimately show ?thesis using f same new by (simp add: IH bl)
    qed
  qed
  then show ?thesis using bucket_list_ascending [OF assms] by (simp add: set_bucket_list)
qed


lemma bars_group_ticks_witness:
  "make_bars Min1 [example_tick 0 1, example_tick 0 59000000000, example_tick 0 61000000000]
    = [bar_summary 0 [example_tick 0 1, example_tick 0 59000000000], bar_summary 60000000000 [example_tick 0 61000000000]]"
proof -
  let ?ts = "[example_tick 0 1, example_tick 0 59000000000, example_tick 0 61000000000]"
  have "in_time_order ?ts" by code_simp
  from bars_group_ticks [OF this, of Min1]
  have m: "make_bars Min1 ?ts = map (\<lambda>k. bar_summary k (filter (in_bucket Min1 k) ?ts)) (bucket_list Min1 ?ts)" by blast
  have "bucket_list Min1 ?ts = [0, 60000000000]" "filter (in_bucket Min1 0) ?ts = [example_tick 0 1, example_tick 0 59000000000]"
    "filter (in_bucket Min1 60000000000) ?ts = [example_tick 0 61000000000]"
    by code_simp+
  then show ?thesis unfolding m by simp
qed

text \<open>The bucket of zero is twice as wide as the others: it holds the ticks before and after zero.\<close>

lemma bucket_zero_double_width: "\<bar>sint ts\<bar> < nanos i \<Longrightarrow> bucket_of i ts = 0"
  using bucket_value [of i ts] by (intro signed_word_eqI) simp

text \<open>
  The rows of the other aggregates: a count is one for every bar, however many ticks it has, and
  the volume-weighted price is one row over all ticks, whatever the interval, also for no ticks.
\<close>

lemma count_is_one_per_bar:
  "aggregate ticks \<lparr>gb_interval = i, gb_aggregate = AggCount\<rparr> symbol = map (count_row_of symbol) (make_bars i ticks) \<and>
    (\<forall>r \<in> set (aggregate ticks \<lparr>gb_interval = i, gb_aggregate = AggCount\<rparr> symbol). rr_volume r = 1)"
  by (auto simp: aggregate_def count_row_of_def Let_def)

lemma vwap_ignores_interval:
  "aggregate ticks \<lparr>gb_interval = i, gb_aggregate = AggVwap\<rparr> symbol = aggregate ticks \<lparr>gb_interval = j, gb_aggregate = AggVwap\<rparr> symbol \<and>
    length (aggregate ticks \<lparr>gb_interval = i, gb_aggregate = AggVwap\<rparr> symbol) = 1"
  by (simp add: aggregate_def Let_def)


end
