(* ===== verification/F64Integers.thy ===== *)
theory F64Integers
  imports F64
begin

text \<open>
  Integers as binary64 values: a decimal integer below \<open>10\<^sup>1\<^sup>5\<close> is parsed exactly, is recognised as
  an integer and is truncated to itself; one at or above \<open>10\<^sup>1\<^sup>5\<close> is parsed to a value that is not
  below \<open>10\<^sup>1\<^sup>5\<close>.
\<close>

lemma bit_length_bounds: "0 < n \<Longrightarrow> 2 ^ (bit_length n - 1) \<le> n \<and> n < 2 ^ bit_length n \<and> 0 < bit_length n"
proof (induction n rule: bit_length.induct)
  case (1 n)
  show ?case
  proof (cases "n = 1")
    case True
    then show ?thesis by (simp add: bit_length.simps)
  next
    case False
    then have h: "0 < n div 2" using "1.prems" by simp
    with "1.IH" "1.prems" have b: "2 ^ (bit_length (n div 2) - 1) \<le> n div 2" "n div 2 < 2 ^ bit_length (n div 2)"
      "0 < bit_length (n div 2)" by auto
    have l: "bit_length n = Suc (bit_length (n div 2))" using "1.prems" by (subst bit_length.simps) simp
    have "(2::int) ^ bit_length (n div 2) = 2 * 2 ^ (bit_length (n div 2) - 1)"
      using b(3) by (metis Suc_diff_1 power_Suc)
    then show ?thesis using b l by (simp; linarith)
  qed
qed

definition f64_abs :: "f64 \<Rightarrow> f64" where
  "f64_abs x = take_bit 63 x"

text \<open>The bit pattern of a positive integer that fits in 53 bits.\<close>

definition int_pattern :: "int \<Rightarrow> int" where
  "int_pattern n = (let l = bit_length (2 * n) in int (1020 + l) * 2 ^ 52 + 2 * n * 2 ^ (53 - l))"

lemma f64_of_decimal_int:
  assumes "0 < n"
  shows "f64_of_decimal neg n 0 = f64_round neg (2 * n) 1 1073"
proof -
  have "bit_length 1 = 1" by (simp add: bit_length.simps)
  then show ?thesis using assms by (simp add: f64_of_decimal_def Let_def mult.commute)
qed

lemma f64_round_small:
  assumes "0 < n" "n < 2 ^ 52"
  shows "f64_round neg (2 * n) 1 1073 = (if neg then 0x8000000000000000 else 0) OR of_int (int_pattern n)"
proof -
  let ?l = "bit_length (2 * n)"
  have b: "2 ^ (?l - 1) \<le> 2 * n" "2 * n < 2 ^ ?l" "0 < ?l" using bit_length_bounds [of "2 * n"] assms(1) by auto
  have l: "?l \<le> 53"
  proof (rule ccontr)
    assume "\<not> ?l \<le> 53"
    then have "(2::int) ^ 53 \<le> 2 ^ (?l - 1)" by (intro power_increasing) auto
    also have "\<dots> \<le> 2 * n" by (rule b(1))
    finally show False using assms(2) by simp
  qed
  then have e: "int (1073 + (?l - 53) - min 1073 (53 - ?l)) = int (1020 + ?l)" by auto
  have lt: "2 * n * 2 ^ (53 - ?l) < 2 ^ 53"
  proof -
    have "2 * n * 2 ^ (53 - ?l) < 2 ^ ?l * 2 ^ (53 - ?l)" using b(2) by simp
    also have "\<dots> = 2 ^ 53" using l by (simp add: power_add [symmetric])
    finally show ?thesis .
  qed
  have "int_pattern n < 2047 * 2 ^ 52" using lt l by (simp add: int_pattern_def Let_def)
  then show ?thesis using l e by (simp add: f64_round_def Let_def int_pattern_def)
qed


lemma int_pattern_parts:
  assumes "0 < n" "n < 2 ^ 52"
  shows "2 ^ 52 \<le> 2 * n * 2 ^ (53 - bit_length (2 * n))" "2 * n * 2 ^ (53 - bit_length (2 * n)) < 2 ^ 53"
    "bit_length (2 * n) \<le> 53" "0 \<le> int_pattern n" "int_pattern n < 2 ^ 63"
proof -
  let ?l = "bit_length (2 * n)"
  have b: "2 ^ (?l - 1) \<le> 2 * n" "2 * n < 2 ^ ?l" "0 < ?l" using bit_length_bounds [of "2 * n"] assms(1) by auto
  show l: "?l \<le> 53"
  proof (rule ccontr)
    assume "\<not> ?l \<le> 53"
    then have "(2::int) ^ 53 \<le> 2 ^ (?l - 1)" by (intro power_increasing) auto
    also have "\<dots> \<le> 2 * n" by (rule b(1))
    finally show False using assms(2) by simp
  qed
  have "2 * n * 2 ^ (53 - ?l) < 2 ^ ?l * 2 ^ (53 - ?l)" using b(2) by simp
  also have "\<dots> = 2 ^ 53" using l by (simp add: power_add [symmetric])
  finally show hi: "2 * n * 2 ^ (53 - ?l) < 2 ^ 53" .
  have "(2::int) ^ 52 = 2 ^ (?l - 1) * 2 ^ (53 - ?l)" using l b(3) by (simp add: power_add [symmetric])
  also have "\<dots> \<le> 2 * n * 2 ^ (53 - ?l)" using b(1) by simp
  finally show "2 ^ 52 \<le> 2 * n * 2 ^ (53 - ?l)" .
  then show "0 \<le> int_pattern n" by (simp add: int_pattern_def Let_def)
  show "int_pattern n < 2 ^ 63" using hi l by (simp add: int_pattern_def Let_def)
qed

lemma signed_pattern_bits:
  fixes P :: int and x :: f64
  assumes "0 \<le> P" "P < 2 ^ 63" and x_def: "x = (if neg then 0x8000000000000000 else 0) OR of_int P"
  shows "uint (take_bit 63 x) = P" "f64_neg x = neg"
proof -
  have P: "\<not> bit P i" if "63 \<le> i" for i
    using assms(1,2) that by (metis bit_take_bit_iff linorder_not_less take_bit_int_eq_self)
  have si: "bit (0x8000000000000000 :: int) i \<longleftrightarrow> i = 63" for i
  proof -
    have e: "(0x8000000000000000 :: int) = push_bit 63 1" by simp
    show ?thesis unfolding e bit_push_bit_iff by (auto simp: bit_1_iff)
  qed
  have s: "bit (0x8000000000000000 :: f64) i \<longleftrightarrow> i = 63" for i
  proof -
    have e: "(0x8000000000000000 :: f64) = push_bit 63 1" by simp
    show ?thesis unfolding e bit_push_bit_iff by (auto simp: bit_1_iff)
  qed
  have "take_bit 63 x = of_int P"
    by (rule bit_eqI) (use P in \<open>auto simp: x_def bit_simps s si not_less [symmetric]\<close>)
  moreover have "uint (of_int P :: f64) = P" using assms(1,2) by (simp add: uint_word_of_int_eq take_bit_int_eq_self)
  ultimately show "uint (take_bit 63 x) = P" by simp
  show "f64_neg x = neg" using P [of 63] by (auto simp: f64_neg_def x_def bit_simps s si)
qed

lemma exp_frac_unique:
  assumes "uint (take_bit 63 x) = int e * 2 ^ 52 + f" "0 \<le> f" "f < 2 ^ 52"
  shows "f64_exp x = e" "f64_frac x = f"
proof -
  have eq: "int (f64_exp x) * 2 ^ 52 + f64_frac x = int e * 2 ^ 52 + f" using assms(1) f64_mag_bits by metis
  have d: "(int k * 2 ^ 52 + g) div 2 ^ 52 = int k" "(int k * 2 ^ 52 + g) mod 2 ^ 52 = g" if "0 \<le> g" "g < 2 ^ 52" for k g
    using that by auto
  have "int (f64_exp x) = int e" using d(1) [OF f64_frac_bounds, of "f64_exp x" x] d(1) [OF assms(2,3), of e] eq by metis
  then show "f64_exp x = e" by simp
  show "f64_frac x = f" using d(2) [OF f64_frac_bounds, of "f64_exp x" x] d(2) [OF assms(2,3), of e] eq by metis
qed

text \<open>The value of a decimal integer below \<open>2\<^sup>5\<^sup>2\<close>.\<close>

lemma decimal_int_value:
  assumes "0 < n" "n < 2 ^ 52" and x_def: "x = f64_of_decimal neg n 0"
  shows "f64_neg x = neg" "f64_man x = 2 * n * 2 ^ (53 - bit_length (2 * n))"
    "f64_scale x = 1020 + bit_length (2 * n)" "uint (take_bit 63 x) = int_pattern n" "f64_exp x \<noteq> 2047"
proof -
  let ?l = "bit_length (2 * n)"
  note p = int_pattern_parts [OF assms(1,2)]
  have x: "x = (if neg then 0x8000000000000000 else 0) OR of_int (int_pattern n)"
    using f64_of_decimal_int [OF assms(1)] f64_round_small [OF assms(1,2)] by (simp add: x_def)
  note sp = signed_pattern_bits [OF p(4,5) x]
  show "f64_neg x = neg" "uint (take_bit 63 x) = int_pattern n" using sp by simp_all
  have "uint (take_bit 63 x) = int (1021 + ?l) * 2 ^ 52 + (2 * n * 2 ^ (53 - ?l) - 2 ^ 52)"
    unfolding sp(1) by (simp add: int_pattern_def Let_def)
  from exp_frac_unique [OF this] p(1,2)
  have e: "f64_exp x = 1021 + ?l" "f64_frac x = 2 * n * 2 ^ (53 - ?l) - 2 ^ 52" by simp_all
  show "f64_man x = 2 * n * 2 ^ (53 - ?l)" "f64_scale x = 1020 + ?l" "f64_exp x \<noteq> 2047"
    using e p(3) by (simp_all add: f64_man_def f64_scale_def)
qed

lemma decimal_int_exact:
  assumes "0 \<le> n" "n < 2 ^ 52"
  shows "f64_fract_is_zero (f64_of_decimal neg n 0)"
    "f64_to_i64 (f64_of_decimal neg n 0) = (if neg then - of_int n else of_int n)"
proof -
  let ?x = "f64_of_decimal neg n 0"
  have "f64_fract_is_zero ?x \<and> f64_trunc ?x = (if neg then - n else n) \<and> \<not> f64_is_nan ?x"
  proof (cases "n = 0")
    case True
    then have x: "?x = f64_zero neg" by (simp add: f64_of_decimal_def)
    have "f64_fract_is_zero (f64_zero True) \<and> f64_trunc (f64_zero True) = 0 \<and> \<not> f64_is_nan (f64_zero True)"
      "f64_fract_is_zero (f64_zero False) \<and> f64_trunc (f64_zero False) = 0 \<and> \<not> f64_is_nan (f64_zero False)"
      by code_simp+
    then show ?thesis unfolding x using True by (cases neg) simp_all
  next
    case False
    let ?l = "bit_length (2 * n)"
    have n: "0 < n" using False assms(1) by simp
    note v = decimal_int_value [OF n assms(2) refl, of neg]
    note p = int_pattern_parts [OF n assms(2)]
    have s: "1020 + ?l - 1074 = 0" "1074 - (1020 + ?l) = 54 - ?l" using p(3) by auto
    have "(2::int) ^ (54 - ?l) = 2 * 2 ^ (53 - ?l)" using p(3) by (simp add: Suc_diff_le [symmetric] flip: power_Suc)
    then have m: "2 * n * 2 ^ (53 - ?l) = n * 2 ^ (54 - ?l)" by simp
    show ?thesis
      using v by (simp add: f64_fract_is_zero_def f64_trunc_def s m f64_is_nan_def Let_def)
  qed
  then show "f64_fract_is_zero ?x" "f64_to_i64 ?x = (if neg then - of_int n else of_int n)"
    using assms by (auto simp: f64_to_i64_def)
qed


subsection \<open>The bound \<open>10\<^sup>1\<^sup>5\<close>\<close>

definition F64_1E15 :: f64 where "F64_1E15 = 0x430C6BF526340000"

lemma int_pattern_strict_mono:
  assumes "0 < n" "n < m" "m < 2 ^ 52"
  shows "int_pattern n < int_pattern m"
proof -
  let ?ln = "bit_length (2 * n)" and ?lm = "bit_length (2 * m)"
  have n: "n < 2 ^ 52" "0 < m" using assms by simp_all
  note pn = int_pattern_parts [OF assms(1) n(1)] and pm = int_pattern_parts [OF n(2) assms(3)]
  have bn: "2 ^ (?ln - 1) \<le> 2 * n" "0 < ?ln" using bit_length_bounds [of "2 * n"] assms(1) by auto
  have bm: "2 * m < 2 ^ ?lm" using bit_length_bounds [of "2 * m"] n(2) by auto
  have "?ln \<le> ?lm"
  proof (rule ccontr)
    assume "\<not> ?ln \<le> ?lm"
    then have "(2::int) ^ ?lm \<le> 2 ^ (?ln - 1)" by (intro power_increasing) auto
    then show False using bn bm assms(2) by linarith
  qed
  then consider "?ln = ?lm" | "?ln < ?lm" by linarith
  then show ?thesis
  proof cases
    case 1
    then show ?thesis using assms(2) by (simp add: int_pattern_def Let_def)
  next
    case 2
    have "int_pattern n < int (1020 + ?ln) * 2 ^ 52 + 2 ^ 53" using pn(2) by (simp add: int_pattern_def Let_def)
    also have "\<dots> \<le> int (1020 + ?lm) * 2 ^ 52 + 2 ^ 52" using 2 by simp
    also have "\<dots> \<le> int_pattern m" using pm(1) by (simp add: int_pattern_def Let_def)
    finally show ?thesis .
  qed
qed

lemma int_pattern_1e15: "int_pattern 1000000000000000 = uint F64_1E15"
  by code_simp

lemma f64_lt_1e15:
  assumes "f64_exp x \<noteq> 2047"
  shows "f64_lt (f64_abs x) F64_1E15 \<longleftrightarrow> uint (take_bit 63 x) < uint F64_1E15"
proof -
  have e: "f64_exp (f64_abs x) = f64_exp x"
    by (rule exp_frac_unique(1) [OF _ f64_frac_bounds [of x]]) (simp add: f64_abs_def f64_mag_bits)
  have "\<not> f64_neg (f64_abs x)" by (simp add: f64_neg_def f64_abs_def bit_simps)
  then have k: "f64_key (f64_abs x) = uint (take_bit 63 x)" by (simp add: f64_key_def f64_abs_def)
  have "\<not> f64_is_nan F64_1E15 \<and> f64_key F64_1E15 = uint F64_1E15" by code_simp
  then show ?thesis using e k assms by (simp add: f64_lt_def f64_is_nan_def)
qed

lemma decimal_below_1e15:
  assumes "0 \<le> n" "n < 1000000000000000"
  shows "f64_lt (f64_abs (f64_of_decimal neg n 0)) F64_1E15"
proof (cases "n = 0")
  case True
  then have x: "f64_of_decimal neg n 0 = f64_zero neg" by (simp add: f64_of_decimal_def)
  have "f64_lt (f64_abs (f64_zero True)) F64_1E15" "f64_lt (f64_abs (f64_zero False)) F64_1E15" by code_simp+
  then show ?thesis unfolding x by (cases neg) simp_all
next
  case False
  then have n: "0 < n" "n < 2 ^ 52" using assms by simp_all
  note v = decimal_int_value [OF n refl, of neg]
  show ?thesis
    using f64_lt_1e15 [OF v(5)] int_pattern_strict_mono [OF n(1) assms(2)] int_pattern_1e15 v(4) by simp
qed

lemma f64_round_large:
  assumes "2 ^ 52 \<le> n"
  obtains P where "1075 * 2 ^ 52 \<le> P" "P < 2047 * 2 ^ 52"
      "f64_round neg (2 * n) 1 1073 = (if neg then 0x8000000000000000 else 0) OR of_int P"
    | "f64_round neg (2 * n) 1 1073 = f64_inf neg"
proof -
  let ?l = "bit_length (2 * n)"
  have b: "2 ^ (?l - 1) \<le> 2 * n" "2 * n < 2 ^ ?l" "0 < ?l" using bit_length_bounds [of "2 * n"] assms by auto
  have l: "54 \<le> ?l"
  proof (rule ccontr)
    assume "\<not> 54 \<le> ?l"
    then have "(2::int) ^ ?l \<le> 2 ^ 53" by (intro power_increasing) auto
    then show False using b(2) assms by simp
  qed
  let ?t = "2 * n div 2 ^ (?l - 53)" and ?r = "2 * n mod 2 ^ (?l - 53)"
  define P where "P = int (1073 + (?l - 53)) * 2 ^ 52
    + (if 2 * ?r > 2 ^ (?l - 53) \<or> (2 * ?r = 2 ^ (?l - 53) \<and> odd ?t) then ?t + 1 else ?t)"
  have "(2::int) ^ 52 = 2 ^ (?l - 1) div 2 ^ (?l - 53)" using l by (subst power_diff [symmetric]) auto
  also have "\<dots> \<le> ?t" using b(1) by (intro zdiv_mono1) auto
  finally have t: "2 ^ 52 \<le> ?t" .
  have "1075 * 2 ^ 52 \<le> P" using t l by (simp add: P_def)
  moreover have "f64_round neg (2 * n) 1 1073 = (if 2047 * 2 ^ 52 \<le> P then f64_inf neg
      else (if neg then 0x8000000000000000 else 0) OR of_int P)"
    using l by (simp add: f64_round_def Let_def P_def)
  ultimately show ?thesis using that by (cases "2047 * 2 ^ 52 \<le> P") auto
qed

lemma decimal_above_1e15:
  assumes "1000000000000000 \<le> n"
  shows "\<not> f64_lt (f64_abs (f64_of_decimal neg n 0)) F64_1E15"
proof (cases "n < 2 ^ 52")
  case True
  have n: "0 < n" using assms by simp
  note v = decimal_int_value [OF n True refl, of neg]
  have "int_pattern 1000000000000000 \<le> int_pattern n"
    using int_pattern_strict_mono [of 1000000000000000 n] assms True by (cases "n = 1000000000000000") auto
  then show ?thesis using f64_lt_1e15 [OF v(5)] int_pattern_1e15 v(4) by simp
next
  case False
  then have big: "2 ^ 52 \<le> n" "0 < n" by simp_all
  have e15: "uint F64_1E15 < 1075 * 2 ^ 52" by code_simp
  have x: "f64_of_decimal neg n 0 = f64_round neg (2 * n) 1 1073" by (rule f64_of_decimal_int [OF big(2)])
  from big(1) show ?thesis
  proof (rule f64_round_large [of n neg])
    fix P :: int
    assume P: "1075 * 2 ^ 52 \<le> P" "P < 2047 * 2 ^ 52"
      "f64_round neg (2 * n) 1 1073 = (if neg then 0x8000000000000000 else 0) OR of_int P"
    have r: "0 \<le> P" "P < 2 ^ 63" using P by simp_all
    have u: "uint (take_bit 63 (f64_of_decimal neg n 0)) = P"
      using signed_pattern_bits(1) [OF r P(3)] x by simp
    have "f64_exp (f64_of_decimal neg n 0) \<noteq> 2047"
    proof
      assume "f64_exp (f64_of_decimal neg n 0) = 2047"
      then show False
        using u P(2) f64_mag_bits [of "f64_of_decimal neg n 0"] f64_frac_bounds(1) [of "f64_of_decimal neg n 0"] by simp
    qed
    then show ?thesis using f64_lt_1e15 u P(1) e15 by simp
  next
    assume i: "f64_round neg (2 * n) 1 1073 = f64_inf neg"
    have "\<not> f64_lt (f64_abs (f64_inf True)) F64_1E15" "\<not> f64_lt (f64_abs (f64_inf False)) F64_1E15" by code_simp+
    then show ?thesis unfolding x i by (cases neg) simp_all
  qed
qed

end
