(* ===== verification/GqlLexer.thy ===== *)
theory GqlLexer
  imports GqlAst F64Integers
begin

text \<open>
  \<^verbatim>\<open>graphite/src/gql/parser.rs\<close>, the lexer.  A query is a string of ASCII characters, for which
  the Unicode predicates of \<^verbatim>\<open>char\<close> are the ones below.  The state of the lexer is its position
  and the characters from there on.  The formatted texts of an error are replaced by what they
  show.
\<close>

datatype token = TExplain | TSelect | TFrom | TWhere | TTimestamp | TBetween | TAnd | TPrice | TGreater | TLess |
  TGreaterEq | TLessEq | TEqual | TLimit | TGroupBy | TAggregate | TStar | TIdentifier string | TNumber f64 |
  TInteger i64 | TColon | TSec1 | TMin1 | THour1 | TOhlcv | TSum | TCount | TVwap

datatype expected = ExpectedToken token | ExpectedText string
datatype found = FoundToken "token option" | FoundChar char

datatype parse_error = UnexpectedToken nat expected found | ParseMessage nat string string | UnexpectedEof nat expected

subsection \<open>Characters\<close>

definition code_of :: "char \<Rightarrow> nat" where
  "code_of c = of_char c"

definition is_whitespace :: "char \<Rightarrow> bool" where
  "is_whitespace c \<longleftrightarrow> code_of c = 32 \<or> 9 \<le> code_of c \<and> code_of c \<le> 13"

definition is_digit :: "char \<Rightarrow> bool" where
  "is_digit c \<longleftrightarrow> 48 \<le> code_of c \<and> code_of c \<le> 57"

definition is_alphabetic :: "char \<Rightarrow> bool" where
  "is_alphabetic c \<longleftrightarrow> 65 \<le> code_of c \<and> code_of c \<le> 90 \<or> 97 \<le> code_of c \<and> code_of c \<le> 122"

definition is_ident_char :: "char \<Rightarrow> bool" where
  "is_ident_char c \<longleftrightarrow> is_alphabetic c \<or> is_digit c \<or> c = CHR ''_''"

definition to_uppercase :: "string \<Rightarrow> string" where
  "to_uppercase s = map (\<lambda>c. if 97 \<le> code_of c \<and> code_of c \<le> 122 then char_of (code_of c - 32) else c) s"

definition to_lowercase :: "string \<Rightarrow> string" where
  "to_lowercase s = map (\<lambda>c. if 65 \<le> code_of c \<and> code_of c \<le> 90 then char_of (code_of c + 32) else c) s"

subsection \<open>Scanning\<close>

type_synonym lexer = "nat \<times> string"

fun skip_whitespace :: "lexer \<Rightarrow> lexer" where
  "skip_whitespace (pos, []) = (pos, [])"
| "skip_whitespace (pos, c # cs) = (if is_whitespace c then skip_whitespace (Suc pos, cs) else (pos, c # cs))"

fun read_identifier :: "lexer \<Rightarrow> string \<times> lexer" where
  "read_identifier (pos, []) = ([], (pos, []))"
| "read_identifier (pos, c # cs) = (if is_ident_char c
     then (case read_identifier (Suc pos, cs) of (w, l) \<Rightarrow> (c # w, l)) else ([], (pos, c # cs)))"

text \<open>The loop of \<open>read_number\<close>: the text so far is not empty from the second character on.\<close>

fun number_text :: "bool \<Rightarrow> bool \<Rightarrow> lexer \<Rightarrow> string \<times> lexer" where
  "number_text has_dot is_start (pos, []) = ([], (pos, []))"
| "number_text has_dot is_start (pos, c # cs) =
     (if is_digit c then (case number_text has_dot False (Suc pos, cs) of (w, l) \<Rightarrow> (c # w, l))
      else if c = CHR ''.'' \<and> \<not> has_dot then (case number_text True False (Suc pos, cs) of (w, l) \<Rightarrow> (c # w, l))
      else if c = CHR ''-'' \<and> is_start then (case number_text has_dot False (Suc pos, cs) of (w, l) \<Rightarrow> (c # w, l))
      else ([], (pos, c # cs)))"

definition digits_value :: "string \<Rightarrow> int" where
  "digits_value s = foldl (\<lambda>n c. n * 10 + (int (code_of c) - 48)) 0 s"

text \<open>
  \<^verbatim>\<open>s.parse::<f64>()\<close> on the texts \<open>read_number\<close> builds: an optional sign, digits, and at most one
  dot with digits before or after it.
\<close>

definition parse_f64 :: "string \<Rightarrow> f64 option" where
  "parse_f64 s =
     (let neg = (s \<noteq> [] \<and> hd s = CHR ''-''); u = (if neg then tl s else s);
          whole = takeWhile (\<lambda>c. c \<noteq> CHR ''.'') u; frac = tl (dropWhile (\<lambda>c. c \<noteq> CHR ''.'') u)
      in if whole = [] \<and> frac = [] then None
         else Some (f64_of_decimal neg (digits_value (whole @ frac)) (length frac)))"

definition read_number :: "lexer \<Rightarrow> (f64, parse_error) outcome \<times> lexer" where
  "read_number l = (case number_text False True l of (s, l') \<Rightarrow>
     (case parse_f64 s of
        None \<Rightarrow> (Err (ParseMessage (fst l') ''invalid number: '' s), l')
      | Some x \<Rightarrow> (Ok x, l')))"

definition keyword_token :: "string \<Rightarrow> token option" where
  "keyword_token word = map_of [(''EXPLAIN'', TExplain), (''SELECT'', TSelect), (''FROM'', TFrom),
     (''WHERE'', TWhere), (''TIMESTAMP'', TTimestamp), (''BETWEEN'', TBetween), (''AND'', TAnd),
     (''PRICE'', TPrice), (''LIMIT'', TLimit), (''AGGREGATE'', TAggregate), (''OHLCV'', TOhlcv),
     (''SUM'', TSum), (''COUNT'', TCount), (''VWAP'', TVwap), (''1S'', TSec1), (''1M'', TMin1), (''1H'', THour1)]
     (to_uppercase word)"

text \<open>A number is an integer token when it is an integer below \<open>10\<^sup>1\<^sup>5\<close> in magnitude.\<close>

definition number_token :: "f64 \<Rightarrow> token" where
  "number_token x = (if f64_fract_is_zero x \<and> f64_lt (f64_abs x) F64_1E15 then TInteger (f64_to_i64 x) else TNumber x)"

definition word_token :: "lexer \<Rightarrow> (token, parse_error) outcome \<times> lexer" where
  "word_token l = (case read_identifier l of (word, l1) \<Rightarrow>
     if to_uppercase word = ''GROUP''
     then (case read_identifier (skip_whitespace l1) of (by_word, l2) \<Rightarrow>
       if to_uppercase by_word \<noteq> ''BY'' then (Err (ParseMessage (fst l2) ''expected BY after GROUP'' []), l2)
       else (Ok TGroupBy, l2))
     else (case keyword_token word of Some t \<Rightarrow> (Ok t, l1) | None \<Rightarrow> (Ok (TIdentifier word), l1)))"

text \<open>\<open>None\<close>: the input is at its end.\<close>

definition next_token :: "lexer \<Rightarrow> (token option, parse_error) outcome \<times> lexer" where
  "next_token l0 = (case skip_whitespace l0 of
      (pos, []) \<Rightarrow> (Ok None, (pos, []))
    | (pos, c # cs) \<Rightarrow>
        if c = CHR ''*'' then (Ok (Some TStar), (Suc pos, cs))
        else if c = CHR ''>'' then
          (case cs of d # ds \<Rightarrow> if d = CHR ''='' then (Ok (Some TGreaterEq), (Suc (Suc pos), ds)) else (Ok (Some TGreater), (Suc pos, cs))
           | [] \<Rightarrow> (Ok (Some TGreater), (Suc pos, cs)))
        else if c = CHR ''<'' then
          (case cs of d # ds \<Rightarrow> if d = CHR ''='' then (Ok (Some TLessEq), (Suc (Suc pos), ds)) else (Ok (Some TLess), (Suc pos, cs))
           | [] \<Rightarrow> (Ok (Some TLess), (Suc pos, cs)))
        else if c = CHR ''='' then (Ok (Some TEqual), (Suc pos, cs))
        else if c = CHR '':'' then (Ok (Some TColon), (Suc pos, cs))
        else if is_alphabetic c \<or> c = CHR ''_'' then
          (case word_token (pos, c # cs) of (r, l) \<Rightarrow> (bind_outcome r (\<lambda>t. Ok (Some t)), l))
        else if is_digit c \<or> c = CHR ''-'' then
          (case read_number (pos, c # cs) of (r, l) \<Rightarrow> (bind_outcome r (\<lambda>x. Ok (Some (number_token x))), l))
        else (Err (UnexpectedToken pos (ExpectedText ''valid token'') (FoundChar c)), (pos, c # cs)))"

subsection \<open>Every token consumes input\<close>

lemma char_class [simp]:
  "\<not> is_digit CHR ''-''" "\<not> is_digit CHR ''.''" "\<not> is_whitespace CHR ''-''" "is_whitespace CHR '' ''"
  "\<not> is_alphabetic CHR ''-''" "\<not> is_ident_char CHR '' ''" "\<not> is_digit CHR '' ''"
  by code_simp+

lemma skip_whitespace_le: "length (snd (skip_whitespace l)) \<le> length (snd l)"
  by (induction l rule: skip_whitespace.induct) auto

lemma read_identifier_le: "length (snd (snd (read_identifier l))) \<le> length (snd l)"
  by (induction l rule: read_identifier.induct) (auto split: prod.splits)

lemma number_text_le: "length (snd (snd (number_text d st l))) \<le> length (snd l)"
  by (induction d st l rule: number_text.induct) (auto simp: le_Suc_eq split: prod.splits)

lemma word_token_shorter:
  assumes "word_token (pos, c # cs) = (r, l)" "is_alphabetic c \<or> c = CHR ''_''"
  shows "length (snd l) < length (c # cs)"
proof -
  have c: "is_ident_char c" using assms(2) by (auto simp: is_ident_char_def)
  obtain w l1 where w: "read_identifier (Suc pos, cs) = (w, l1)" by (meson surj_pair)
  have "length (snd l1) \<le> length cs" using read_identifier_le [of "(Suc pos, cs)"] w by simp
  moreover have "length (snd (snd (read_identifier (skip_whitespace l1)))) \<le> length (snd l1)"
    using read_identifier_le [of "skip_whitespace l1"] skip_whitespace_le [of l1] by linarith
  ultimately show ?thesis
    using assms(1) c w by (auto simp: word_token_def split: prod.splits if_splits option.splits)
qed

lemma read_number_shorter:
  assumes "read_number (pos, c # cs) = (r, l)" "is_digit c \<or> c = CHR ''-''"
  shows "length (snd l) < length (c # cs)"
proof -
  obtain w l1 where w: "number_text False False (Suc pos, cs) = (w, l1)" by (meson surj_pair)
  have "length (snd l1) \<le> length cs" using number_text_le [of False False "(Suc pos, cs)"] w by simp
  then show ?thesis
    using assms w by (auto simp: read_number_def split: prod.splits if_splits option.splits)
qed

lemma next_token_shorter:
  assumes "next_token l0 = (Ok (Some t), l)"
  shows "length (snd l) < length (snd l0)"
proof (cases "skip_whitespace l0")
  case (Pair pos s)
  have le: "length s \<le> length (snd l0)" using skip_whitespace_le [of l0] Pair by simp
  show ?thesis
  proof (cases s)
    case Nil
    then show ?thesis using assms Pair by (simp add: next_token_def)
  next
    case (Cons c cs)
    obtain rw lw where w: "word_token (pos, c # cs) = (rw, lw)" by (meson surj_pair)
    obtain rn ln where n: "read_number (pos, c # cs) = (rn, ln)" by (meson surj_pair)
    note sw = word_token_shorter [OF w] and sn = read_number_shorter [OF n]
    have "length (snd l) < length (c # cs)"
    proof (cases "is_alphabetic c \<or> c = CHR ''_'' \<or> is_digit c \<or> c = CHR ''-''")
      case True
      have o: "c \<notin> {CHR ''*'', CHR ''>'', CHR ''<'', CHR ''='', CHR '':''}"
      proof
        assume "c \<in> {CHR ''*'', CHR ''>'', CHR ''<'', CHR ''='', CHR '':''}"
        then show False using True
          by (auto simp: is_alphabetic_def is_digit_def code_of_def)
      qed
      show ?thesis
        using assms Pair Cons True sw sn o
        by (cases "is_alphabetic c \<or> c = CHR ''_''") (auto simp: next_token_def w n)
    next
      case False
      then show ?thesis
        using assms Pair Cons by (auto simp: next_token_def split: if_splits list.splits)
    qed
    then show ?thesis using le Cons by simp
  qed
qed

function tokenize_from :: "lexer \<Rightarrow> (token list, parse_error) outcome" where
  "tokenize_from l = (case next_token l of
      (Ok None, _) \<Rightarrow> Ok []
    | (Ok (Some t), l') \<Rightarrow> bind_outcome (tokenize_from l') (\<lambda>ts. Ok (t # ts))
    | (Err e, _) \<Rightarrow> Err e | (Panic, _) \<Rightarrow> Panic | (Deadlock, _) \<Rightarrow> Deadlock)"
  by pat_completeness auto
termination
  by (relation "measure (\<lambda>l. length (snd l))") (auto dest!: next_token_shorter [OF sym])

declare tokenize_from.simps [simp del]

definition tokenize :: "string \<Rightarrow> (token list, parse_error) outcome" where
  "tokenize input = tokenize_from (0, input)"

end
