(* ===== verification/GqlText.thy ===== *)
theory GqlText
  imports GqlLexer
begin

text \<open>
  The text of a query and the lexer: tokens written one after the other with a blank between
  them are read back.
\<close>

subsection \<open>Decimal numbers\<close>

lemma digit_char: "m < 10 \<Longrightarrow> code_of (char_of (48 + m)) = 48 + m" for m :: nat
  by (simp add: code_of_def)

lemma decimal_digits: "decimal n \<noteq> [] \<and> (\<forall>c \<in> set (decimal n). is_digit c) \<and> digits_value (decimal n) = int n"
proof (induction n rule: decimal.induct)
  case (1 n)
  show ?case
  proof (cases "n < 10")
    case True
    then have "decimal n = [char_of (48 + n)]" by (subst decimal.simps) simp
    moreover have "n \<le> 9" using True by simp
    ultimately show ?thesis using digit_char [OF True] by (simp add: is_digit_def digits_value_def)
  next
    case False
    have d: "decimal n = decimal (n div 10) @ [char_of (48 + n mod 10)]" using False by (subst decimal.simps) simp
    have "digits_value (decimal n) = int (n div 10) * 10 + int (n mod 10)"
      using "1.IH" [OF False] digit_char [of "n mod 10"] unfolding d by (simp add: digits_value_def)
    also have "\<dots> = int n" by (metis div_mult_mod_eq of_nat_add of_nat_mult of_nat_numeral)
    finally show ?thesis using "1.IH" [OF False] digit_char [of "n mod 10"] unfolding d by (simp add: is_digit_def)
  qed
qed

lemma digit_not_dot: "is_digit c \<Longrightarrow> c \<noteq> CHR ''.''" "is_digit c \<Longrightarrow> c \<noteq> CHR ''-''"
  by auto

text \<open>What may follow a number.\<close>

definition after_number :: "string \<Rightarrow> bool" where
  "after_number rest \<longleftrightarrow> rest = [] \<or> \<not> is_digit (hd rest) \<and> hd rest \<noteq> CHR ''.''"

lemma number_text_digits:
  assumes "\<forall>c \<in> set ds. is_digit c" "after_number rest"
  shows "number_text d False (pos, ds @ rest) = (ds, (pos + length ds, rest))"
  using assms(1)
proof (induction ds arbitrary: pos)
  case Nil
  then show ?case using assms(2) by (cases rest) (auto simp: after_number_def)
qed simp

lemma number_text_start:
  assumes "\<forall>c \<in> set ds. is_digit c" "ds \<noteq> []" "after_number rest"
  shows "number_text False True (pos, ds @ rest) = (ds, (pos + length ds, rest))"
    "number_text False True (pos, CHR ''-'' # ds @ rest) = (CHR ''-'' # ds, (Suc pos + length ds, rest))"
  using assms number_text_digits [OF _ assms(3)] by (cases ds; simp)+

lemma no_dots: "\<forall>c \<in> set ds. is_digit c \<Longrightarrow> takeWhile (\<lambda>c. c \<noteq> CHR ''.'') ds = ds \<and> dropWhile (\<lambda>c. c \<noteq> CHR ''.'') ds = []"
  by (induction ds) (auto dest: digit_not_dot)

lemma parse_digits:
  assumes "\<forall>c \<in> set ds. is_digit c" "ds \<noteq> []"
  shows "parse_f64 ds = Some (f64_of_decimal False (digits_value ds) 0)"
    "parse_f64 (CHR ''-'' # ds) = Some (f64_of_decimal True (digits_value ds) 0)"
proof -
  have h: "(ds \<noteq> [] \<and> hd ds = CHR ''-'') = False" using assms by (cases ds) auto
  note d = conjunct1 [OF no_dots [OF assms(1)]] conjunct2 [OF no_dots [OF assms(1)]]
  show "parse_f64 ds = Some (f64_of_decimal False (digits_value ds) 0)"
    unfolding parse_f64_def Let_def h if_False d using assms(2) by simp
  have n: "(CHR ''-'' # ds \<noteq> [] \<and> hd (CHR ''-'' # ds) = CHR ''-'') = True" by simp
  have t: "tl (CHR ''-'' # ds) = ds" by simp
  show "parse_f64 (CHR ''-'' # ds) = Some (f64_of_decimal True (digits_value ds) 0)"
    unfolding parse_f64_def Let_def n if_True t d using assms(2) by simp
qed

text \<open>An integer literal is an integer token exactly when it is below \<open>10\<^sup>1\<^sup>5\<close> in magnitude.\<close>

lemma read_number_i64:
  assumes "after_number rest"
  shows "read_number (pos, show_i64 i @ rest)
    = (Ok (f64_of_decimal (sint i < 0) \<bar>sint i\<bar> 0), (pos + length (show_i64 i), rest))"
proof (cases "sint i < 0")
  case True
  let ?d = "decimal (nat (- sint i))"
  note d = decimal_digits [of "nat (- sint i)"]
  have "number_text False True (pos, show_i64 i @ rest) = (CHR ''-'' # ?d, (Suc pos + length ?d, rest))"
    using number_text_start(2) [of ?d rest pos] d assms True by (simp add: show_i64_def)
  then show ?thesis using parse_digits(2) [of ?d] d True by (simp add: read_number_def show_i64_def)
next
  case False
  let ?d = "decimal (nat (sint i))"
  note d = decimal_digits [of "nat (sint i)"]
  have "number_text False True (pos, show_i64 i @ rest) = (?d, (pos + length ?d, rest))"
    using number_text_start(1) [of ?d rest pos] d assms False by (simp add: show_i64_def)
  then show ?thesis using parse_digits(1) [of ?d] d False by (simp add: read_number_def show_i64_def)
qed

lemma number_token_small:
  assumes "\<bar>sint i\<bar> < 1000000000000000"
  shows "number_token (f64_of_decimal (sint i < 0) \<bar>sint i\<bar> 0) = TInteger i"
proof -
  have b: "0 \<le> \<bar>sint i\<bar>" "\<bar>sint i\<bar> < 2 ^ 52" using assms by simp_all
  have "of_int (sint i) = i" by simp
  then have "f64_to_i64 (f64_of_decimal (sint i < 0) \<bar>sint i\<bar> 0) = i"
    using decimal_int_exact(2) [OF b, of "sint i < 0"] by (cases "sint i < 0") (simp_all del: of_int_sint)
  then show ?thesis
    using decimal_int_exact(1) [OF b] decimal_below_1e15 [OF b(1) assms] by (simp add: number_token_def)
qed

lemma number_token_large:
  "1000000000000000 \<le> \<bar>sint i\<bar> \<Longrightarrow> number_token (f64_of_decimal neg \<bar>sint i\<bar> 0) = TNumber (f64_of_decimal neg \<bar>sint i\<bar> 0)"
  using decimal_above_1e15 by (simp add: number_token_def)


subsection \<open>Words\<close>

text \<open>
  A word is lexed as some tokens wherever it stands before a blank or at the end of the text.
\<close>

fun more_tokens :: "token list \<Rightarrow> (token list, parse_error) outcome \<Rightarrow> (token list, parse_error) outcome" where
  "more_tokens ts r = bind_outcome r (\<lambda>us. Ok (ts @ us))"

definition at_blank :: "string \<Rightarrow> bool" where
  "at_blank rest \<longleftrightarrow> rest = [] \<or> hd rest = CHR '' ''"

definition lexes :: "string \<Rightarrow> token list \<Rightarrow> bool" where
  "lexes w ts \<longleftrightarrow> (\<forall>pos rest. at_blank rest \<longrightarrow>
     tokenize_from (pos, w @ rest) = more_tokens ts (tokenize_from (pos + length w, rest)))"

lemma at_blank_simps [simp]: "at_blank []" "at_blank (CHR '' '' # s)"
  by (simp_all add: at_blank_def)

lemma skip_blank: "tokenize_from (pos, CHR '' '' # s) = tokenize_from (Suc pos, s)"
  by (subst (1 2) tokenize_from.simps) (simp add: next_token_def)

lemma tokenize_step:
  "next_token l = (Ok (Some t), l') \<Longrightarrow> tokenize_from l = more_tokens [t] (tokenize_from l')"
  by (subst tokenize_from.simps) simp

lemma more_tokens_append: "more_tokens ts (more_tokens us r) = more_tokens (ts @ us) r"
  by (cases r) simp_all

fun unwords :: "string list \<Rightarrow> string" where
  "unwords [] = []"
| "unwords (w # ws) = w @ concat (map (\<lambda>v. CHR '' '' # v) ws)"

lemma at_blank_words: "at_blank (concat (map (\<lambda>v. CHR '' '' # v) ws))"
  by (cases ws) simp_all

lemma lexes_blank:
  assumes "lexes w ts"
  shows "tokenize_from (pos, CHR '' '' # w @ concat (map (\<lambda>v. CHR '' '' # v) ws))
    = more_tokens ts (tokenize_from (Suc pos + length w, concat (map (\<lambda>v. CHR '' '' # v) ws)))"
  using assms at_blank_words by (simp add: skip_blank lexes_def)

lemma tokenize_rest:
  assumes "list_all2 lexes ws tss"
  shows "tokenize_from (pos, concat (map (\<lambda>v. CHR '' '' # v) ws)) = Ok (concat tss)"
  using assms
proof (induction ws tss arbitrary: pos rule: list_all2_induct)
  case Nil
  then show ?case by (subst tokenize_from.simps) (simp add: next_token_def)
next
  case (Cons w ws ts tss)
  then show ?case using lexes_blank [OF Cons.hyps(1), of pos ws] by simp
qed

lemma tokenize_unwords:
  assumes "list_all2 lexes ws tss"
  shows "tokenize (unwords ws) = Ok (concat tss)"
proof (cases ws)
  case Nil
  then show ?thesis using assms tokenize_rest [of "[]" "[]" 0] by (simp add: tokenize_def)
next
  case (Cons w vs)
  then obtain ts tss' where t: "tss = ts # tss'" "lexes w ts" "list_all2 lexes vs tss'"
    using assms by (auto simp: list_all2_Cons1)
  then show ?thesis
    using at_blank_words [of vs] tokenize_rest [OF t(3)] Cons by (simp add: tokenize_def lexes_def)
qed


subsection \<open>Which words are which tokens\<close>

lemma word_start:
  assumes "is_alphabetic c \<or> c = CHR ''_'' \<or> is_digit c \<or> c = CHR ''-''"
  shows "c \<notin> {CHR ''*'', CHR ''>'', CHR ''<'', CHR ''='', CHR '':''}" "\<not> is_whitespace c"
proof -
  show "c \<notin> {CHR ''*'', CHR ''>'', CHR ''<'', CHR ''='', CHR '':''}"
  proof
    assume "c \<in> {CHR ''*'', CHR ''>'', CHR ''<'', CHR ''='', CHR '':''}"
    then show False using assms by (auto simp: is_alphabetic_def is_digit_def code_of_def)
  qed
  show "\<not> is_whitespace c"
    using assms by (auto simp: is_whitespace_def is_alphabetic_def is_digit_def code_of_def)
qed

lemma read_identifier_word:
  assumes "\<forall>c \<in> set w. is_ident_char c" "rest = [] \<or> \<not> is_ident_char (hd rest)"
  shows "read_identifier (pos, w @ rest) = (w, (pos + length w, rest))"
  using assms(1)
proof (induction w arbitrary: pos)
  case Nil
  then show ?case using assms(2) by (cases rest) auto
qed simp

lemma at_blank_ident: "at_blank rest \<Longrightarrow> rest = [] \<or> \<not> is_ident_char (hd rest)"
  by (auto simp: at_blank_def)

lemma at_blank_number: "at_blank rest \<Longrightarrow> after_number rest"
  by (auto simp: at_blank_def after_number_def)

definition is_word :: "string \<Rightarrow> bool" where
  "is_word w \<longleftrightarrow> w \<noteq> [] \<and> (is_alphabetic (hd w) \<or> hd w = CHR ''_'') \<and> (\<forall>c \<in> set w. is_ident_char c)"

text \<open>Names of symbols and columns: words that are no keyword.\<close>

definition is_name :: "string \<Rightarrow> bool" where
  "is_name w \<longleftrightarrow> is_word w \<and> to_uppercase w \<noteq> ''GROUP'' \<and> keyword_token w = None"

lemma next_token_word:
  assumes "is_word w" "rest = [] \<or> \<not> is_ident_char (hd rest)" "to_uppercase w \<noteq> ''GROUP''"
  shows "next_token (pos, w @ rest)
    = (Ok (Some (case keyword_token w of Some t \<Rightarrow> t | None \<Rightarrow> TIdentifier w)), (pos + length w, rest))"
proof -
  from assms(1) obtain c cs where w: "w = c # cs" by (cases w) (auto simp: is_word_def)
  have c: "is_alphabetic c \<or> c = CHR ''_''" and i: "\<forall>c \<in> set w. is_ident_char c"
    using assms(1) w by (auto simp: is_word_def)
  have "is_alphabetic c \<or> c = CHR ''_'' \<or> is_digit c \<or> c = CHR ''-''" using c by blast
  note s = word_start [OF this]
  have "word_token (pos, w @ rest) = (Ok (case keyword_token w of Some t \<Rightarrow> t | None \<Rightarrow> TIdentifier w), (pos + length w, rest))"
    using read_identifier_word [OF i assms(2)] assms(3) by (simp add: word_token_def split: option.splits)
  then have wt: "word_token (pos, c # cs @ rest)
      = (Ok (case keyword_token w of Some t \<Rightarrow> t | None \<Rightarrow> TIdentifier w), (pos + length w, rest))"
    by (simp only: w append_Cons)
  have "skip_whitespace (pos, w @ rest) = (pos, c # cs @ rest)" using s(2) c unfolding w by simp
  then show ?thesis using s(1) c by (simp add: next_token_def wt)
qed

lemma lexes_one:
  assumes "\<And>pos rest. at_blank rest \<Longrightarrow> next_token (pos, w @ rest) = (Ok (Some t), (pos + length w, rest))"
  shows "lexes w [t]"
  using tokenize_step [OF assms] by (simp add: lexes_def del: more_tokens.simps)

lemma lexes_keyword: "is_word w \<Longrightarrow> to_uppercase w \<noteq> ''GROUP'' \<Longrightarrow> keyword_token w = Some t \<Longrightarrow> lexes w [t]"
  using next_token_word [OF _ at_blank_ident] by (intro lexes_one) simp

lemma lexes_name: "is_name w \<Longrightarrow> lexes w [TIdentifier w]"
  using next_token_word [OF _ at_blank_ident] by (intro lexes_one) (simp add: is_name_def)

lemma next_token_number:
  assumes "after_number rest"
  shows "next_token (pos, show_i64 i @ rest)
    = (Ok (Some (number_token (f64_of_decimal (sint i < 0) \<bar>sint i\<bar> 0))), (pos + length (show_i64 i), rest))"
proof -
  obtain c cs where w: "show_i64 i = c # cs" "is_digit c \<or> c = CHR ''-''"
    using decimal_digits [of "nat (sint i)"]
    by (cases "decimal (nat (sint i))"; cases "sint i < 0") (auto simp: show_i64_def)
  have "is_alphabetic c \<or> c = CHR ''_'' \<or> is_digit c \<or> c = CHR ''-''" using w(2) by blast
  note s = word_start [OF this]
  have "\<not> (is_alphabetic c \<or> c = CHR ''_'')"
    using w(2) by (auto simp: is_alphabetic_def is_digit_def code_of_def)
  moreover have "skip_whitespace (pos, show_i64 i @ rest) = (pos, c # cs @ rest)" using s(2) w by simp
  moreover have "read_number (pos, c # cs @ rest)
      = (Ok (f64_of_decimal (sint i < 0) \<bar>sint i\<bar> 0), (pos + length (show_i64 i), rest))"
    using read_number_i64 [OF assms, of pos i] by (simp only: w append_Cons)
  ultimately show ?thesis
    using s(1) w(2) by (simp add: next_token_def)
qed

lemma next_token_i64:
  assumes "after_number rest" "\<bar>sint i\<bar> < 1000000000000000"
  shows "next_token (pos, show_i64 i @ rest) = (Ok (Some (TInteger i)), (pos + length (show_i64 i), rest))"
  using next_token_number [OF assms(1)] number_token_small [OF assms(2)] by simp

lemma lexes_number: "lexes (show_i64 i) [number_token (f64_of_decimal (sint i < 0) \<bar>sint i\<bar> 0)]"
  by (rule lexes_one) (rule next_token_number [OF at_blank_number])

lemma lexes_i64: "\<bar>sint i\<bar> < 1000000000000000 \<Longrightarrow> lexes (show_i64 i) [TInteger i]"
  by (rule lexes_one) (rule next_token_i64 [OF at_blank_number])

end

