(* ===== verification/GqlParser.thy ===== *)
theory GqlParser
  imports GqlText
begin

text \<open>
  \<^verbatim>\<open>graphite/src/gql/parser.rs\<close>, the parser.  Its state is its position and the tokens from there
  on; a step returns its result with the state behind it.  \<open>parse\<close> is one function in the source;
  its clauses are definitions of their own here, in the order of the source.
\<close>

type_synonym parser = "nat \<times> token list"

definition peek :: "parser \<Rightarrow> token option" where
  "peek p = (case snd p of [] \<Rightarrow> None | t # ts \<Rightarrow> Some t)"

fun advance :: "parser \<Rightarrow> token option \<times> parser" where
  "advance (pos, []) = (None, (pos, []))"
| "advance (pos, t # ts) = (Some t, (Suc pos, ts))"

definition expect :: "token \<Rightarrow> parser \<Rightarrow> (parser, parse_error) outcome" where
  "expect tok p = (case advance p of
      (Some t, p') \<Rightarrow> if t = tok then Ok p'
        else Err (UnexpectedToken (fst p') (ExpectedToken tok) (FoundToken (Some t)))
    | (None, p') \<Rightarrow> Err (UnexpectedEof (fst p') (ExpectedToken tok)))"

definition unexpected :: "string \<Rightarrow> token option \<times> parser \<Rightarrow> ('a, parse_error) outcome" where
  "unexpected what r = Err (UnexpectedToken (fst (snd r)) (ExpectedText what) (FoundToken (fst r)))"

definition parse_column_name :: "string \<Rightarrow> column option" where
  "parse_column_name name = map_of [(''timestamp'', Timestamp), (''symbol'', Symbol), (''open'', Open),
     (''high'', High), (''low'', Low), (''close'', Close), (''volume'', Volume)] (to_lowercase name)"

definition parse_number :: "parser \<Rightarrow> (f64 \<times> parser, parse_error) outcome" where
  "parse_number p = (case advance p of
      (Some (TNumber x), p') \<Rightarrow> Ok (x, p')
    | (Some (TInteger n), p') \<Rightarrow> Ok (f64_of_i64 n, p')
    | r \<Rightarrow> unexpected ''number'' r)"

text \<open>The loop over the columns.\<close>

fun parse_columns :: "nat \<Rightarrow> token list \<Rightarrow> (column list \<times> parser, parse_error) outcome" where
  "parse_columns pos [] = unexpected ''column name'' (None, (pos, []))"
| "parse_columns pos (t # ts) = (case t of
      TIdentifier name \<Rightarrow> (case parse_column_name name of
        None \<Rightarrow> Err (ParseMessage (Suc pos) ''unknown column: '' name)
      | Some col \<Rightarrow> if peek (Suc pos, ts) = Some TFrom then Ok ([col], (Suc pos, ts))
          else bind_outcome (parse_columns (Suc pos) ts) (\<lambda>(cols, p). Ok (col # cols, p)))
    | _ \<Rightarrow> unexpected ''column name'' (Some t, (Suc pos, ts)))"

definition parse_select :: "parser \<Rightarrow> (select_columns \<times> parser, parse_error) outcome" where
  "parse_select p = (if peek p = Some TStar then Ok (SelectAll, snd (advance p))
     else bind_outcome (parse_columns (fst p) (snd p)) (\<lambda>(cols, p'). Ok (SelectCols cols, p')))"

definition parse_symbol :: "parser \<Rightarrow> (string \<times> parser, parse_error) outcome" where
  "parse_symbol p = (case advance p of
      (Some (TIdentifier s), p') \<Rightarrow> Ok (s, p')
    | r \<Rightarrow> unexpected ''symbol name'' r)"

definition parse_timestamp :: "parser \<Rightarrow> (i64 \<times> parser, parse_error) outcome" where
  "parse_timestamp p = (case advance p of
      (Some (TInteger n), p') \<Rightarrow> Ok (n, p')
    | r \<Rightarrow> unexpected ''timestamp integer'' r)"

definition parse_comparison :: "parser \<Rightarrow> (price_predicate \<times> parser, parse_error) outcome" where
  "parse_comparison p = (case advance p of
      (Some TGreater, p') \<Rightarrow> bind_outcome (parse_number p') (\<lambda>(x, q). Ok (PriceGreater x, q))
    | (Some TLess, p') \<Rightarrow> bind_outcome (parse_number p') (\<lambda>(x, q). Ok (PriceLess x, q))
    | (Some TGreaterEq, p') \<Rightarrow> bind_outcome (parse_number p') (\<lambda>(x, q). Ok (PriceGreaterEq x, q))
    | (Some TLessEq, p') \<Rightarrow> bind_outcome (parse_number p') (\<lambda>(x, q). Ok (PriceLessEq x, q))
    | (Some TEqual, p') \<Rightarrow> bind_outcome (parse_number p') (\<lambda>(x, q). Ok (PriceEqual x, q))
    | r \<Rightarrow> unexpected ''price comparator'' r)"

definition parse_price :: "parser \<Rightarrow> (price_predicate option \<times> parser, parse_error) outcome" where
  "parse_price p = (if peek p = Some TAnd
     then bind_outcome (expect TPrice (snd (advance p))) (\<lambda>p1.
          bind_outcome (parse_comparison p1) (\<lambda>(c, p2). Ok (Some c, p2)))
     else Ok (None, p))"

text \<open>\<^verbatim>\<open>n as u64\<close>: a negative limit wraps round.\<close>

definition parse_limit :: "parser \<Rightarrow> (u64 option \<times> parser, parse_error) outcome" where
  "parse_limit p = (if peek p = Some TLimit
     then (case advance (snd (advance p)) of
         (Some (TInteger n), p') \<Rightarrow> Ok (Some n, p')
       | r \<Rightarrow> unexpected ''limit integer'' r)
     else Ok (None, p))"

definition parse_suffix :: "parser \<Rightarrow> (interval \<times> parser, parse_error) outcome" where
  "parse_suffix p = (case advance p of
      (Some (TIdentifier suffix), p') \<Rightarrow>
        (case map_of [(''s'', Sec1), (''m'', Min1), (''h'', Hour1)] (to_lowercase suffix) of
           Some i \<Rightarrow> Ok (i, p')
         | None \<Rightarrow> Err (ParseMessage (fst p') ''unknown interval suffix: '' (to_lowercase suffix)))
    | r \<Rightarrow> unexpected ''interval suffix (s|m|h)'' r)"

definition parse_interval :: "parser \<Rightarrow> (interval \<times> parser, parse_error) outcome" where
  "parse_interval p = (case advance p of
      (Some TSec1, p') \<Rightarrow> Ok (Sec1, p')
    | (Some TMin1, p') \<Rightarrow> Ok (Min1, p')
    | (Some THour1, p') \<Rightarrow> Ok (Hour1, p')
    | (Some (TInteger n), p') \<Rightarrow> if n = 1 then parse_suffix p'
        else unexpected ''interval (1s|1m|1h)'' (Some (TInteger n), p')
    | r \<Rightarrow> unexpected ''interval (1s|1m|1h)'' r)"

definition parse_aggregate :: "parser \<Rightarrow> (aggregate_fn \<times> parser, parse_error) outcome" where
  "parse_aggregate p = (case advance p of
      (Some TOhlcv, p') \<Rightarrow> Ok (AggOhlcv, p')
    | (Some TSum, p') \<Rightarrow> Ok (AggSum, p')
    | (Some TCount, p') \<Rightarrow> Ok (AggCount, p')
    | (Some TVwap, p') \<Rightarrow> Ok (AggVwap, p')
    | r \<Rightarrow> unexpected ''aggregate function'' r)"

definition parse_group_by :: "parser \<Rightarrow> (group_by_clause option \<times> parser, parse_error) outcome" where
  "parse_group_by p = (if peek p = Some TGroupBy
     then bind_outcome (expect TColon (snd (advance p))) (\<lambda>p1.
          bind_outcome (parse_interval p1) (\<lambda>(i, p2).
          bind_outcome (expect TAggregate p2) (\<lambda>p3.
          bind_outcome (parse_aggregate p3) (\<lambda>(f, p4). Ok (Some \<lparr>gb_interval = i, gb_aggregate = f\<rparr>, p4)))))
     else Ok (None, p))"

definition parse_query :: "parser \<Rightarrow> (query, parse_error) outcome" where
  "parse_query p =
     (let explain = (peek p = Some TExplain); p0 = (if explain then snd (advance p) else p) in
      bind_outcome (expect TSelect p0) (\<lambda>p1.
      bind_outcome (parse_select p1) (\<lambda>(columns, p2).
      bind_outcome (expect TFrom p2) (\<lambda>p3.
      bind_outcome (parse_symbol p3) (\<lambda>(symbol, p4).
      bind_outcome (expect TWhere p4) (\<lambda>p5.
      bind_outcome (expect TTimestamp p5) (\<lambda>p6.
      bind_outcome (expect TBetween p6) (\<lambda>p7.
      bind_outcome (parse_timestamp p7) (\<lambda>(t1, p8).
      bind_outcome (expect TAnd p8) (\<lambda>p9.
      bind_outcome (parse_timestamp p9) (\<lambda>(t2, p10).
      bind_outcome (parse_price p10) (\<lambda>(pred, p11).
      bind_outcome (parse_limit p11) (\<lambda>(limit, p12).
      bind_outcome (parse_group_by p12) (\<lambda>(group_by, p13).
        Ok \<lparr>q_explain = explain, q_columns = columns, q_symbol = symbol,
           q_where = \<lparr>wc_t1 = t1, wc_t2 = t2, wc_price_predicate = pred\<rparr>,
           q_limit = limit, q_group_by = group_by\<rparr>))))))))))))))"

definition parse :: "string \<Rightarrow> (query, parse_error) outcome" where
  "parse input = bind_outcome (tokenize input) (\<lambda>tokens. parse_query (0, tokens))"

subsection \<open>The text of a query\<close>

definition column_name :: "column \<Rightarrow> string" where
  "column_name c = (case c of Timestamp \<Rightarrow> ''timestamp'' | Symbol \<Rightarrow> ''symbol'' | Open \<Rightarrow> ''open''
     | High \<Rightarrow> ''high'' | Low \<Rightarrow> ''low'' | Close \<Rightarrow> ''close'' | Volume \<Rightarrow> ''volume'')"

definition price_words :: "price_predicate \<Rightarrow> string list" where
  "price_words c = (case c of
      PriceGreater x \<Rightarrow> [''AND'', ''price'', ''>'', show_i64 (f64_to_i64 x)]
    | PriceLess x \<Rightarrow> [''AND'', ''price'', ''<'', show_i64 (f64_to_i64 x)]
    | PriceGreaterEq x \<Rightarrow> [''AND'', ''price'', ''>='', show_i64 (f64_to_i64 x)]
    | PriceLessEq x \<Rightarrow> [''AND'', ''price'', ''<='', show_i64 (f64_to_i64 x)]
    | PriceEqual x \<Rightarrow> [''AND'', ''price'', ''='', show_i64 (f64_to_i64 x)])"

definition interval_word :: "interval \<Rightarrow> string" where
  "interval_word i = (case i of Sec1 \<Rightarrow> '':1s'' | Min1 \<Rightarrow> '':1m'' | Hour1 \<Rightarrow> '':1h'')"

definition aggregate_word :: "aggregate_fn \<Rightarrow> string" where
  "aggregate_word f = (case f of AggOhlcv \<Rightarrow> ''OHLCV'' | AggSum \<Rightarrow> ''SUM'' | AggCount \<Rightarrow> ''COUNT'' | AggVwap \<Rightarrow> ''VWAP'')"

definition query_words :: "query \<Rightarrow> string list" where
  "query_words q =
     (if q_explain q then [''EXPLAIN''] else []) @ [''SELECT''] @
     (case q_columns q of SelectAll \<Rightarrow> [''*''] | SelectCols cs \<Rightarrow> map column_name cs) @
     [''FROM'', q_symbol q, ''WHERE'', ''timestamp'', ''BETWEEN'', show_i64 (wc_t1 (q_where q)), ''AND'',
      show_i64 (wc_t2 (q_where q))] @
     (case wc_price_predicate (q_where q) of None \<Rightarrow> [] | Some c \<Rightarrow> price_words c) @
     (case q_limit q of None \<Rightarrow> [] | Some n \<Rightarrow> [''LIMIT'', show_i64 n]) @
     (case q_group_by q of None \<Rightarrow> [] | Some g \<Rightarrow>
        [''GROUP BY'', interval_word (gb_interval g), ''AGGREGATE'', aggregate_word (gb_aggregate g)])"

definition render_query :: "query \<Rightarrow> string" where
  "render_query q = unwords (query_words q)"

text \<open>The queries that have a text: the numbers are integers below \<open>10\<^sup>1\<^sup>5\<close>, the columns are named
  and do not include the timestamp.\<close>

definition short_int :: "i64 \<Rightarrow> bool" where
  "short_int i \<longleftrightarrow> \<bar>sint i\<bar> < 1000000000000000"

fun price_of :: "price_predicate \<Rightarrow> f64" where
  "price_of (PriceGreater x) = x" | "price_of (PriceLess x) = x" | "price_of (PriceGreaterEq x) = x"
| "price_of (PriceLessEq x) = x" | "price_of (PriceEqual x) = x"

definition columns_ok :: "select_columns \<Rightarrow> bool" where
  "columns_ok s = (case s of SelectAll \<Rightarrow> True | SelectCols cs \<Rightarrow> cs \<noteq> [] \<and> Timestamp \<notin> set cs)"

definition query_ok :: "query \<Rightarrow> bool" where
  "query_ok q \<longleftrightarrow> columns_ok (q_columns q) \<and> is_name (q_symbol q) \<and>
     short_int (wc_t1 (q_where q)) \<and> short_int (wc_t2 (q_where q)) \<and>
     (case q_limit q of None \<Rightarrow> True | Some n \<Rightarrow> short_int n)"

definition price_integral :: "query \<Rightarrow> bool" where
  "price_integral q = (case wc_price_predicate (q_where q) of None \<Rightarrow> True
     | Some c \<Rightarrow> short_int (f64_to_i64 (price_of c)) \<and> f64_of_i64 (f64_to_i64 (price_of c)) = price_of c)"

end
