(* ===== verification/GqlRoundtrip.thy ===== *)
theory GqlRoundtrip
  imports GqlParser
begin

text \<open>
  The text of a query is parsed to the query.
\<close>

lemmas char_class_defs = is_word_def is_alphabetic_def is_digit_def is_whitespace_def is_ident_char_def code_of_def
  to_uppercase_def to_lowercase_def char_of_def bit_Suc_0_iff

subsection \<open>The tokens of a query\<close>

definition price_tokens :: "price_predicate \<Rightarrow> token list" where
  "price_tokens c = [TAnd, TPrice,
     (case c of PriceGreater x \<Rightarrow> TGreater | PriceLess x \<Rightarrow> TLess | PriceGreaterEq x \<Rightarrow> TGreaterEq
      | PriceLessEq x \<Rightarrow> TLessEq | PriceEqual x \<Rightarrow> TEqual), TInteger (f64_to_i64 (price_of c))]"

definition interval_tokens :: "interval \<Rightarrow> token list" where
  "interval_tokens i = [TColon, TInteger 1, TIdentifier (case i of Sec1 \<Rightarrow> ''s'' | Min1 \<Rightarrow> ''m'' | Hour1 \<Rightarrow> ''h'')]"

definition aggregate_token :: "aggregate_fn \<Rightarrow> token" where
  "aggregate_token f = (case f of AggOhlcv \<Rightarrow> TOhlcv | AggSum \<Rightarrow> TSum | AggCount \<Rightarrow> TCount | AggVwap \<Rightarrow> TVwap)"

definition column_tokens :: "select_columns \<Rightarrow> token list" where
  "column_tokens s = (case s of SelectAll \<Rightarrow> [TStar] | SelectCols cs \<Rightarrow> map (\<lambda>c. TIdentifier (column_name c)) cs)"

definition limit_tokens :: "u64 option \<Rightarrow> token list" where
  "limit_tokens l = (case l of None \<Rightarrow> [] | Some n \<Rightarrow> [TLimit, TInteger n])"

definition group_tokens :: "group_by_clause option \<Rightarrow> token list" where
  "group_tokens g = (case g of None \<Rightarrow> [] | Some g \<Rightarrow>
     TGroupBy # interval_tokens (gb_interval g) @ [TAggregate, aggregate_token (gb_aggregate g)])"

definition query_tokens :: "query \<Rightarrow> token list" where
  "query_tokens q =
     (if q_explain q then [TExplain] else []) @ [TSelect] @ column_tokens (q_columns q) @
     [TFrom, TIdentifier (q_symbol q), TWhere, TTimestamp, TBetween, TInteger (wc_t1 (q_where q)), TAnd,
      TInteger (wc_t2 (q_where q))] @
     (case wc_price_predicate (q_where q) of None \<Rightarrow> [] | Some c \<Rightarrow> price_tokens c) @
     limit_tokens (q_limit q) @ group_tokens (q_group_by q)"

subsection \<open>Parsing the tokens\<close>

lemma parser_steps [simp]:
  "peek (pos, t # ts) = Some t" "peek (pos, []) = None" "expect t (pos, t # ts) = Ok (Suc pos, ts)"
  by (simp_all add: peek_def expect_def)

lemma parse_column_name_name: "parse_column_name (column_name c) = Some c"
  by (cases c) (simp_all add: parse_column_name_def column_name_def char_class_defs)

lemma parse_columns_tokens:
  "cs \<noteq> [] \<Longrightarrow> parse_columns pos (map (\<lambda>c. TIdentifier (column_name c)) cs @ TFrom # ts)
    = Ok (cs, (pos + length cs, TFrom # ts))"
proof (induction cs arbitrary: pos)
  case (Cons c cs)
  then show ?case by (cases cs) (simp_all add: parse_column_name_name)
qed simp

lemma parse_select_tokens:
  "columns_ok s \<Longrightarrow> \<exists>n. parse_select (pos, column_tokens s @ TFrom # ts) = Ok (s, (n, TFrom # ts))"
  by (cases s) (auto simp: parse_select_def column_tokens_def columns_ok_def parse_columns_tokens neq_Nil_conv)

lemma parse_price_tokens:
  assumes "f64_of_i64 (f64_to_i64 (price_of c)) = price_of c"
  shows "\<exists>n. parse_price (pos, price_tokens c @ ts) = Ok (Some c, (n, ts))"
  using assms
  by (cases c) (auto simp: parse_price_def parse_comparison_def parse_number_def price_tokens_def)

lemma parse_price_none: "ts = [] \<or> hd ts \<noteq> TAnd \<Longrightarrow> parse_price (pos, ts) = Ok (None, (pos, ts))"
  by (cases ts) (auto simp: parse_price_def)

lemma parse_limit_tokens:
  "l \<noteq> None \<or> ts = [] \<or> hd ts \<noteq> TLimit \<Longrightarrow> \<exists>n. parse_limit (pos, limit_tokens l @ ts) = Ok (l, (n, ts))"
  by (cases l; cases ts) (auto simp: parse_limit_def limit_tokens_def)

lemma parse_group_tokens:
  "g \<noteq> None \<or> ts = [] \<Longrightarrow> \<exists>n. parse_group_by (pos, group_tokens g @ ts) = Ok (g, (n, ts))"
  by (cases g; cases "gb_interval (the g)"; cases "gb_aggregate (the g)")
    (auto simp: parse_group_by_def group_tokens_def interval_tokens_def parse_interval_def parse_suffix_def
      parse_aggregate_def aggregate_token_def to_lowercase_def code_of_def)

text \<open>What follows the \<^verbatim>\<open>GROUP BY\<close> clause is not looked at.\<close>

lemma parse_query_tokens:
  assumes q: "query_ok q" "price_integral q" and rest: "q_group_by q \<noteq> None \<or> rest = []"
  shows "parse_query (0, query_tokens q @ rest) = Ok q"
proof -
  let ?w = "q_where q" and ?g = "group_tokens (q_group_by q) @ rest"
  let ?l = "limit_tokens (q_limit q) @ ?g"
  let ?p = "(case wc_price_predicate ?w of None \<Rightarrow> [] | Some c \<Rightarrow> price_tokens c) @ ?l"
  have hg: "?g = [] \<or> hd ?g = TGroupBy" using rest by (auto simp: group_tokens_def split: option.splits)
  have hl: "?l = [] \<or> hd ?l \<noteq> TAnd" using hg by (auto simp: limit_tokens_def split: option.splits)
  have "\<And>pos. \<exists>n. parse_price (pos, ?p) = Ok (wc_price_predicate ?w, (n, ?l))"
    using q(2) parse_price_tokens parse_price_none [OF hl]
    by (auto simp: price_integral_def split: option.splits)
  then obtain np where p: "\<And>pos. parse_price (pos, ?p) = Ok (wc_price_predicate ?w, (np pos, ?l))" by metis
  have "\<And>pos. \<exists>n. parse_limit (pos, ?l) = Ok (q_limit q, (n, ?g))"
    by (rule parse_limit_tokens) (use hg in auto)
  then obtain nl where l: "\<And>pos. parse_limit (pos, ?l) = Ok (q_limit q, (nl pos, ?g))" by metis
  have "\<And>pos. \<exists>n. parse_group_by (pos, ?g) = Ok (q_group_by q, (n, rest))"
    by (rule parse_group_tokens) (rule rest)
  then obtain ng where g: "\<And>pos. parse_group_by (pos, ?g) = Ok (q_group_by q, (ng pos, rest))" by metis
  have "columns_ok (q_columns q)" using q(1) by (simp add: query_ok_def)
  from parse_select_tokens [OF this]
  obtain ns where s: "\<And>pos ts. parse_select (pos, column_tokens (q_columns q) @ TFrom # ts)
      = Ok (q_columns q, (ns pos ts, TFrom # ts))" by metis
  show ?thesis
    by (cases "q_explain q")
      (simp_all add: parse_query_def query_tokens_def Let_def s parse_symbol_def parse_timestamp_def p l g)
qed

subsection \<open>Lexing the words\<close>

lemma lexes_symbols:
  "lexes ''*'' [TStar]" "lexes ''='' [TEqual]" "lexes ''>='' [TGreaterEq]" "lexes ''<='' [TLessEq]"
  "lexes ''>'' [TGreater]" "lexes ''<'' [TLess]"
proof -
  have w: "\<not> is_whitespace CHR ''*''" "\<not> is_whitespace CHR ''=''" "\<not> is_whitespace CHR ''>''" "\<not> is_whitespace CHR ''<''"
    by (simp_all add: char_class_defs)
  show "lexes ''*'' [TStar]" "lexes ''='' [TEqual]" "lexes ''>='' [TGreaterEq]" "lexes ''<='' [TLessEq]"
    by (rule lexes_one, simp add: next_token_def w)+
  show "lexes ''>'' [TGreater]" "lexes ''<'' [TLess]"
    by (rule lexes_one; force simp: next_token_def w at_blank_def split: list.split)+
qed

lemma lexes_keywords:
  "lexes ''EXPLAIN'' [TExplain]" "lexes ''SELECT'' [TSelect]" "lexes ''FROM'' [TFrom]" "lexes ''WHERE'' [TWhere]"
  "lexes ''timestamp'' [TTimestamp]" "lexes ''BETWEEN'' [TBetween]" "lexes ''AND'' [TAnd]" "lexes ''price'' [TPrice]"
  "lexes ''LIMIT'' [TLimit]" "lexes ''AGGREGATE'' [TAggregate]" "lexes ''OHLCV'' [TOhlcv]" "lexes ''SUM'' [TSum]"
  "lexes ''COUNT'' [TCount]" "lexes ''VWAP'' [TVwap]"
  by (rule lexes_keyword; simp add: char_class_defs keyword_token_def)+

lemma lexes_column: "c \<noteq> Timestamp \<Longrightarrow> lexes (column_name c) [TIdentifier (column_name c)]"
proof -
  have "\<forall>c \<in> set [Symbol, Open, High, Low, Close, Volume]. is_name (column_name c)"
    by (simp add: is_name_def column_name_def char_class_defs keyword_token_def)
  then show "c \<noteq> Timestamp \<Longrightarrow> lexes (column_name c) [TIdentifier (column_name c)]"
    by (cases c) (auto intro: lexes_name)
qed

lemma lexes_step:
  assumes "\<And>pos rest. at_blank rest \<Longrightarrow> next_token (pos, v @ w @ rest) = (Ok (Some t), (pos + length v, w @ rest))"
    and "lexes w ts"
  shows "lexes (v @ w) (t # ts)"
  unfolding lexes_def
proof (intro allI impI)
  fix pos rest assume b: "at_blank rest"
  show "tokenize_from (pos, (v @ w) @ rest) = more_tokens (t # ts) (tokenize_from (pos + length (v @ w), rest))"
    using tokenize_step [OF assms(1) [OF b]] assms(2) b more_tokens_append [of "[t]" ts]
    by (simp add: lexes_def add.assoc del: more_tokens.simps)
qed

lemma lexes_interval: "lexes (interval_word i) (interval_tokens i)"
proof -
  let ?u = "case i of Sec1 \<Rightarrow> ''s'' | Min1 \<Rightarrow> ''m'' | Hour1 \<Rightarrow> ''h''"
  have u: "is_name ''s''" "is_name ''m''" "is_name ''h''"
    by (simp_all add: is_name_def char_class_defs keyword_token_def)
  have c: "\<not> is_whitespace CHR '':''" "\<not> is_digit CHR ''s''" "\<not> is_digit CHR ''m''" "\<not> is_digit CHR ''h''"
    "show_i64 1 = ''1''" "short_int 1"
    by (simp_all add: char_class_defs show_i64_def decimal.simps short_int_def)
  have "lexes ?u [TIdentifier ?u]" using u by (cases i) (auto intro: lexes_name)
  moreover have "next_token (pos, ''1'' @ ?u @ rest) = (Ok (Some (TInteger 1)), (pos + length ''1'', ?u @ rest))" for pos rest
    using next_token_i64 [of "?u @ rest" 1 pos] c by (cases i) (auto simp: after_number_def short_int_def)
  ultimately have "lexes (''1'' @ ?u) [TInteger 1, TIdentifier ?u]" by (intro lexes_step)
  then have "lexes ('':'' @ ''1'' @ ?u) [TColon, TInteger 1, TIdentifier ?u]"
    by (rule lexes_step [rotated]) (simp add: next_token_def c)
  moreover have "interval_word i = '':'' @ ''1'' @ ?u" by (cases i) (simp_all add: interval_word_def)
  ultimately show ?thesis by (simp add: interval_tokens_def)
qed

lemma lexes_group_by: "lexes ''GROUP BY'' [TGroupBy]"
proof (rule lexes_one)
  fix pos rest assume b: "at_blank rest"
  have i: "\<forall>c \<in> set ''GROUP''. is_ident_char c" "\<forall>c \<in> set ''BY''. is_ident_char c"
    "\<not> is_whitespace CHR ''G''" "\<not> is_whitespace CHR ''B''" "is_alphabetic CHR ''G''"
    "to_uppercase ''GROUP'' = ''GROUP''" "to_uppercase ''BY'' = ''BY''"
    by (simp_all add: char_class_defs)
  have "read_identifier (pos, ''GROUP'' @ ('' BY'' @ rest)) = (''GROUP'', (pos + length ''GROUP'', '' BY'' @ rest))"
    by (rule read_identifier_word [OF i(1)]) simp
  moreover have "read_identifier (p, ''BY'' @ rest) = (''BY'', (Suc (Suc p), rest))" for p
    using read_identifier_word [OF i(2) at_blank_ident [OF b], of p] by (simp del: read_identifier.simps)
  ultimately have "word_token (pos, ''GROUP BY'' @ rest) = (Ok TGroupBy, (pos + length ''GROUP BY'', rest))"
    using i by (simp add: word_token_def add_2_eq_Suc' del: read_identifier.simps)
  then show "next_token (pos, ''GROUP BY'' @ rest) = (Ok (Some TGroupBy), (pos + length ''GROUP BY'', rest))"
    using i by (simp add: next_token_def)
qed


subsection \<open>Printing and parsing\<close>

lemma lexes_price:
  "short_int (f64_to_i64 (price_of c)) \<Longrightarrow> list_all2 lexes (price_words c) (map (\<lambda>t. [t]) (price_tokens c))"
  using lexes_keywords lexes_symbols lexes_i64
  by (cases c) (simp_all add: price_words_def price_tokens_def short_int_def)

lemma lexes_columns:
  "columns_ok s \<Longrightarrow> list_all2 lexes (case s of SelectAll \<Rightarrow> [''*''] | SelectCols cs \<Rightarrow> map column_name cs)
    (map (\<lambda>t. [t]) (column_tokens s))"
  using lexes_symbols(1)
  by (cases s) (auto simp: columns_ok_def column_tokens_def list_all2_map1 list_all2_map2 intro!: list.rel_refl_strong lexes_column)

lemma lexes_aggregate: "lexes (aggregate_word f) [aggregate_token f]"
  using lexes_keywords by (cases f) (simp_all add: aggregate_word_def aggregate_token_def)

definition word_tokens :: "query \<Rightarrow> token list list" where
  "word_tokens q =
     (if q_explain q then [[TExplain]] else []) @ [[TSelect]] @ map (\<lambda>t. [t]) (column_tokens (q_columns q)) @
     [[TFrom], [TIdentifier (q_symbol q)], [TWhere], [TTimestamp], [TBetween], [TInteger (wc_t1 (q_where q))], [TAnd],
      [TInteger (wc_t2 (q_where q))]] @
     (case wc_price_predicate (q_where q) of None \<Rightarrow> [] | Some c \<Rightarrow> map (\<lambda>t. [t]) (price_tokens c)) @
     map (\<lambda>t. [t]) (limit_tokens (q_limit q)) @
     (case q_group_by q of None \<Rightarrow> [] | Some g \<Rightarrow>
        [[TGroupBy], interval_tokens (gb_interval g), [TAggregate], [aggregate_token (gb_aggregate g)]])"

lemma concat_singletons: "concat (map (\<lambda>t. [t]) ts) = ts"
  by (induction ts) simp_all

lemma concat_word_tokens: "concat (word_tokens q) = query_tokens q"
  by (simp add: word_tokens_def query_tokens_def concat_singletons group_tokens_def split: option.split)

lemma lexes_query:
  assumes "query_ok q" "price_integral q"
  shows "list_all2 lexes (query_words q) (word_tokens q)"
  unfolding query_words_def word_tokens_def
proof (intro list_all2_appendI)
  show "list_all2 lexes (if q_explain q then [''EXPLAIN''] else []) (if q_explain q then [[TExplain]] else [])"
    "list_all2 lexes [''SELECT''] [[TSelect]]"
    using lexes_keywords by simp_all
  show "list_all2 lexes (case q_columns q of SelectAll \<Rightarrow> [''*''] | SelectCols cs \<Rightarrow> map column_name cs)
      (map (\<lambda>t. [t]) (column_tokens (q_columns q)))"
    using assms by (intro lexes_columns) (simp add: query_ok_def)
  show "list_all2 lexes
      [''FROM'', q_symbol q, ''WHERE'', ''timestamp'', ''BETWEEN'', show_i64 (wc_t1 (q_where q)), ''AND'', show_i64 (wc_t2 (q_where q))]
      [[TFrom], [TIdentifier (q_symbol q)], [TWhere], [TTimestamp], [TBetween], [TInteger (wc_t1 (q_where q))], [TAnd],
       [TInteger (wc_t2 (q_where q))]]"
    using assms lexes_keywords lexes_name lexes_i64 by (simp add: query_ok_def short_int_def)
  show "list_all2 lexes (case wc_price_predicate (q_where q) of None \<Rightarrow> [] | Some c \<Rightarrow> price_words c)
      (case wc_price_predicate (q_where q) of None \<Rightarrow> [] | Some c \<Rightarrow> map (\<lambda>t. [t]) (price_tokens c))"
    using assms lexes_price by (auto simp: price_integral_def split: option.split)
  show "list_all2 lexes (case q_limit q of None \<Rightarrow> [] | Some n \<Rightarrow> [''LIMIT'', show_i64 n])
      (map (\<lambda>t. [t]) (limit_tokens (q_limit q)))"
    using assms lexes_keywords lexes_i64
    by (auto simp: query_ok_def limit_tokens_def short_int_def split: option.splits)
  show "list_all2 lexes (case q_group_by q of None \<Rightarrow> [] | Some g \<Rightarrow>
        [''GROUP BY'', interval_word (gb_interval g), ''AGGREGATE'', aggregate_word (gb_aggregate g)])
      (case q_group_by q of None \<Rightarrow> [] | Some g \<Rightarrow>
        [[TGroupBy], interval_tokens (gb_interval g), [TAggregate], [aggregate_token (gb_aggregate g)]])"
    using lexes_keywords lexes_group_by lexes_interval lexes_aggregate by (auto split: option.split)
qed

text \<open>The query behind a text that has more words after it.\<close>

lemma parse_words:
  assumes "query_ok q" "price_integral q" "list_all2 lexes ws tss" "q_group_by q \<noteq> None \<or> ws = []"
  shows "parse (unwords (query_words q @ ws)) = Ok q"
proof -
  have "list_all2 lexes (query_words q @ ws) (word_tokens q @ tss)"
    by (intro list_all2_appendI lexes_query assms)
  from tokenize_unwords [OF this]
  have "tokenize (unwords (query_words q @ ws)) = Ok (query_tokens q @ concat tss)"
    by (simp add: concat_word_tokens)
  moreover have "q_group_by q \<noteq> None \<or> concat tss = []" using assms(3,4) by auto
  ultimately show ?thesis using parse_query_tokens [OF assms(1,2)] by (simp add: parse_def)
qed

text \<open>C12. A query with integer numbers below \<open>10\<^sup>1\<^sup>5\<close> is parsed back from its text.\<close>

theorem parse_render_query:
  assumes "query_ok q" "price_integral q"
  shows "parse (render_query q) = Ok q"
  using parse_words [OF assms list_all2_Nil [THEN iffD2, OF refl]] by (simp add: render_query_def)

lemma parse_render_query_witness:
  "parse (render_query \<lparr>q_explain = True, q_columns = SelectCols [Close, Volume], q_symbol = ''AAPL'',
      q_where = \<lparr>wc_t1 = 0, wc_t2 = 999000000000, wc_price_predicate = Some (PriceGreater 0x4062C00000000000)\<rparr>,
      q_limit = Some 5, q_group_by = Some \<lparr>gb_interval = Min1, gb_aggregate = AggVwap\<rparr>\<rparr>)
    = Ok \<lparr>q_explain = True, q_columns = SelectCols [Close, Volume], q_symbol = ''AAPL'',
      q_where = \<lparr>wc_t1 = 0, wc_t2 = 999000000000, wc_price_predicate = Some (PriceGreater 0x4062C00000000000)\<rparr>,
      q_limit = Some 5, q_group_by = Some \<lparr>gb_interval = Min1, gb_aggregate = AggVwap\<rparr>\<rparr>"
proof (rule parse_render_query)
  have i: "f64_to_i64 0x4062C00000000000 = 150" "f64_of_i64 150 = 0x4062C00000000000" by code_simp+
  show "price_integral \<lparr>q_explain = True, q_columns = SelectCols [Close, Volume], q_symbol = ''AAPL'',
      q_where = \<lparr>wc_t1 = 0, wc_t2 = 999000000000, wc_price_predicate = Some (PriceGreater 0x4062C00000000000)\<rparr>,
      q_limit = Some 5, q_group_by = Some \<lparr>gb_interval = Min1, gb_aggregate = AggVwap\<rparr>\<rparr>"
    by (simp add: price_integral_def short_int_def i)
qed (simp add: query_ok_def columns_ok_def short_int_def is_name_def keyword_token_def char_class_defs)

end
