(* ===== verification/GqlTypes.thy ===== *)
theory GqlTypes
  imports GqlRoundtrip
begin

text \<open>
  What the parser accepts: the types of its results, and queries it does not read.
\<close>

subsection \<open>Integer tokens\<close>

lemma scaled_div_le: "(m :: int) * 2 ^ (s - k) div 2 ^ (k - s) * 2 ^ k \<le> m * 2 ^ s"
proof (cases "k \<le> s")
  case True
  then have "(2::int) ^ s = 2 ^ (s - k) * 2 ^ k" by (simp add: power_add [symmetric])
  then show ?thesis using True by simp
next
  case False
  then have e: "(2::int) ^ k = 2 ^ (k - s) * 2 ^ s" by (simp add: power_add [symmetric])
  have "m div 2 ^ (k - s) * 2 ^ (k - s) \<le> m"
    using div_mult_mod_eq [of m "2 ^ (k - s)"] pos_mod_sign [of "2 ^ (k - s)" m] zero_less_power [of "2::int" "k - s"]
    by linarith
  then have "m div 2 ^ (k - s) * 2 ^ (k - s) * 2 ^ s \<le> m * 2 ^ s" by simp
  then show ?thesis using False by (simp add: e mult.assoc)
qed

lemma number_token_integer:
  assumes "number_token x = TInteger i"
  shows "short_int i"
proof -
  have x: "f64_fract_is_zero x" "f64_lt (f64_abs x) F64_1E15" "i = f64_to_i64 x"
    using assms by (auto simp: number_token_def split: if_splits)
  have e: "f64_exp x \<noteq> 2047" using x(1) by (simp add: f64_fract_is_zero_def)
  have E: "f64_man F64_1E15 = 8000000000000000" "f64_scale F64_1E15 = 1071" by code_simp+
  have "take_bit 63 F64_1E15 = F64_1E15" by code_simp
  then have "uint (take_bit 63 x) < uint (take_bit 63 F64_1E15)" using x(2) f64_lt_1e15 [OF e] by simp
  then have "f64_man x * 2 ^ f64_scale x < f64_man F64_1E15 * 2 ^ f64_scale F64_1E15"
    by (intro f64_mag_mono) (simp only: f64_mag_bits)
  then have "f64_man x * 2 ^ f64_scale x < 8000000000000000 * 2 ^ 1071" unfolding E .
  also have "8000000000000000 * (2::int) ^ 1071 = 1000000000000000 * 2 ^ 1074" by (simp add: power_add [of 2 3 1071, simplified])
  finally have m: "f64_man x * 2 ^ f64_scale x < 1000000000000000 * 2 ^ 1074" .
  define a where "a = f64_man x * 2 ^ (f64_scale x - 1074) div 2 ^ (1074 - f64_scale x)"
  have "a * 2 ^ 1074 \<le> f64_man x * 2 ^ f64_scale x" unfolding a_def by (rule scaled_div_le)
  then have "a * 2 ^ 1074 < 1000000000000000 * 2 ^ 1074" using m by (rule le_less_trans)
  then have a: "a < 1000000000000000" by (rule mult_right_less_imp_less) simp
  have "0 \<le> f64_man x" using f64_frac_bounds(1) [of x] by (simp add: f64_man_def)
  then have "0 \<le> a" by (simp add: a_def pos_imp_zdiv_nonneg_iff)
  moreover have t: "f64_trunc x = (if f64_neg x then - a else a)" by (simp add: f64_trunc_def a_def Let_def)
  ultimately have "\<bar>f64_trunc x\<bar> < 1000000000000000" using a by auto
  moreover have "i = of_int (f64_trunc x)"
    using x(3) e t a \<open>0 \<le> a\<close> by (auto simp: f64_to_i64_def f64_is_nan_def)
  ultimately show ?thesis by (simp add: short_int_def signed_of_int signed_take_bit_int_eq_self)
qed

subsection \<open>The tokens of a text\<close>

definition token_ok :: "token \<Rightarrow> bool" where
  "token_ok t = (case t of TInteger i \<Rightarrow> short_int i | TIdentifier w \<Rightarrow> is_name w | _ \<Rightarrow> True)"

lemma read_identifier_ident: "\<forall>c \<in> set (fst (read_identifier l)). is_ident_char c"
  by (induction l rule: read_identifier.induct) (auto split: prod.splits)

lemma keyword_token_ok: "keyword_token w = Some t \<Longrightarrow> token_ok t"
  by (auto simp: keyword_token_def token_ok_def split: if_splits)

lemma word_token_ok:
  assumes "word_token (pos, c # cs) = (Ok t, l)" "is_alphabetic c \<or> c = CHR ''_''"
  shows "token_ok t"
proof -
  obtain w l1 where w: "read_identifier (Suc pos, cs) = (w, l1)" by (meson surj_pair)
  have c: "is_ident_char c" using assms(2) by (auto simp: is_ident_char_def)
  then have "is_word (c # w)" using read_identifier_ident [of "(Suc pos, cs)"] w assms(2) by (simp add: is_word_def)
  then show ?thesis
    using assms(1) c w keyword_token_ok
    by (auto simp: word_token_def token_ok_def is_name_def split: if_splits prod.splits option.splits)
qed

lemma number_token_ok: "token_ok (number_token x)"
  using number_token_integer [of x] by (auto simp: token_ok_def number_token_def)

lemma next_token_ok:
  assumes "next_token l0 = (Ok (Some t), l)"
  shows "token_ok t"
proof -
  obtain pos s where s: "skip_whitespace l0 = (pos, s)" by (meson surj_pair)
  show ?thesis
  proof (cases s)
    case Nil
    then show ?thesis using assms s by (simp add: next_token_def)
  next
    case (Cons c cs)
    obtain rw lw where w: "word_token (pos, c # cs) = (rw, lw)" by (meson surj_pair)
    obtain rn ln where n: "read_number (pos, c # cs) = (rn, ln)" by (meson surj_pair)
    have simple: "token_ok TStar" "token_ok TGreater" "token_ok TGreaterEq" "token_ok TLess" "token_ok TLessEq"
      "token_ok TEqual" "token_ok TColon"
      by (simp_all add: token_ok_def)
    show ?thesis
    proof (cases "is_alphabetic c \<or> c = CHR ''_'' \<or> is_digit c \<or> c = CHR ''-''")
      case True
      note o' = word_start(1) [OF True]
      show ?thesis
        using assms s Cons True o' word_token_ok [of pos c cs] number_token_ok
        by (cases "is_alphabetic c \<or> c = CHR ''_''") (auto simp: next_token_def w n bind_outcome_Ok_iff)
    next
      case False
      then show ?thesis
        using assms s Cons simple by (simp add: next_token_def split: if_splits list.splits)
    qed
  qed
qed

lemma tokenize_from_ok: "tokenize_from l = Ok ts \<Longrightarrow> (\<forall>t \<in> set ts. token_ok t) \<and> length ts \<le> length (snd l)"
proof (induction l arbitrary: ts rule: tokenize_from.induct)
  case (1 l)
  obtain r l' where n: "next_token l = (r, l')" by (meson surj_pair)
  show ?case
  proof (cases r)
    case (Ok o')
    then show ?thesis
    proof (cases o')
      case None
      then show ?thesis using "1.prems" Ok n by (subst (asm) tokenize_from.simps) simp
    next
      case (Some t)
      obtain us where u: "tokenize_from l' = Ok us" "ts = t # us"
        using "1.prems" Ok n Some by (subst (asm) tokenize_from.simps) (auto simp: bind_outcome_Ok_iff)
      then show ?thesis
        using "1.IH" [OF n [symmetric] Ok Some u(1)] next_token_ok [of l t l'] next_token_shorter [of l t l'] Ok Some n by auto
    qed
  qed (use "1.prems" n in \<open>subst (asm) tokenize_from.simps; simp\<close>)+
qed

lemma tokenize_ok: "tokenize input = Ok ts \<Longrightarrow> (\<forall>t \<in> set ts. token_ok t) \<and> length ts \<le> length input"
  using tokenize_from_ok [of "(0, input)"] by (simp add: tokenize_def)

subsection \<open>The clauses of a query\<close>

definition tokens_ok :: "parser \<Rightarrow> bool" where
  "tokens_ok p \<longleftrightarrow> (\<forall>t \<in> set (snd p). token_ok t)"

lemma advance_ok:
  "advance p = (o', q) \<Longrightarrow> tokens_ok p \<Longrightarrow> tokens_ok q \<and> (case o' of None \<Rightarrow> True | Some t \<Rightarrow> token_ok t)"
  by (cases p rule: advance.cases) (auto simp: tokens_ok_def)

lemma advanced_ok: "tokens_ok p \<Longrightarrow> tokens_ok (snd (advance p))"
  using advance_ok [of p "fst (advance p)" "snd (advance p)"] by simp

lemma expect_ok: "expect t p = Ok q \<Longrightarrow> tokens_ok p \<Longrightarrow> tokens_ok q"
  by (auto simp: expect_def dest: advance_ok split: prod.splits option.splits if_splits)

lemma unexpected_Ok [simp]: "unexpected what r \<noteq> Ok x"
  by (simp add: unexpected_def)

lemma parse_symbol_ok: "parse_symbol p = Ok (s, q) \<Longrightarrow> tokens_ok p \<Longrightarrow> tokens_ok q \<and> is_name s"
  by (auto simp: parse_symbol_def token_ok_def dest: advance_ok split: prod.splits option.splits token.splits)

lemma parse_timestamp_ok: "parse_timestamp p = Ok (i, q) \<Longrightarrow> tokens_ok p \<Longrightarrow> tokens_ok q \<and> short_int i"
  by (auto simp: parse_timestamp_def token_ok_def dest: advance_ok split: prod.splits option.splits token.splits)

lemma parse_number_ok: "parse_number p = Ok (x, q) \<Longrightarrow> tokens_ok p \<Longrightarrow> tokens_ok q"
  by (auto simp: parse_number_def dest: advance_ok split: prod.splits option.splits token.splits)

lemma parse_comparison_ok: "parse_comparison p = Ok (c, q) \<Longrightarrow> tokens_ok p \<Longrightarrow> tokens_ok q"
  by (auto simp: parse_comparison_def bind_outcome_Ok_iff dest!: advance_ok parse_number_ok
      split: prod.splits option.splits token.splits)

lemma parse_price_ok: "parse_price p = Ok (c, q) \<Longrightarrow> tokens_ok p \<Longrightarrow> tokens_ok q"
  by (auto simp: parse_price_def bind_outcome_Ok_iff dest!: expect_ok parse_comparison_ok intro: advanced_ok split: if_splits)

lemma parse_limit_ok:
  "parse_limit p = Ok (l, q) \<Longrightarrow> tokens_ok p \<Longrightarrow> tokens_ok q \<and> (case l of None \<Rightarrow> True | Some n \<Rightarrow> short_int n)"
  using advanced_ok [of p]
  by (auto simp: parse_limit_def token_ok_def dest!: advance_ok split: prod.splits option.splits token.splits if_splits)

text \<open>A column named \<open>timestamp\<close> would have to be a word that is the keyword.\<close>



lemma to_uppercase_lowercase: "to_uppercase (to_lowercase s) = to_uppercase s"
proof -
  have "(if 97 \<le> code_of d \<and> code_of d \<le> 122 then char_of (code_of d - 32) else d)
      = (if 97 \<le> code_of c \<and> code_of c \<le> 122 then char_of (code_of c - 32) else c)"
    if d: "d = (if 65 \<le> code_of c \<and> code_of c \<le> 90 then char_of (code_of c + 32) else c)" for c d
  proof (cases "65 \<le> code_of c \<and> code_of c \<le> 90")
    case True
    then have "code_of d = code_of c + 32" using d by (simp add: code_of_def)
    moreover have "char_of (code_of c) = c" by (simp add: code_of_def)
    ultimately show ?thesis using True by simp
  next
    case False
    then have "d = c" using d by auto
    then show ?thesis by simp
  qed
  then show ?thesis by (simp add: to_uppercase_def to_lowercase_def)
qed

lemma column_not_timestamp:
  assumes "is_name w"
  shows "parse_column_name w \<noteq> Some Timestamp"
proof
  assume "parse_column_name w = Some Timestamp"
  then have "to_lowercase w = ''timestamp''" by (simp add: parse_column_name_def split: if_splits)
  then have "to_uppercase w = to_uppercase ''timestamp''" using to_uppercase_lowercase [of w] by simp
  also have "\<dots> = ''TIMESTAMP''" by code_simp
  finally show False using assms by (simp add: is_name_def keyword_token_def)
qed

lemma parse_columns_ok:
  "parse_columns pos ts = Ok (cs, q) \<Longrightarrow> \<forall>t \<in> set ts. token_ok t \<Longrightarrow> tokens_ok q \<and> cs \<noteq> [] \<and> Timestamp \<notin> set cs"
proof (induction pos ts arbitrary: cs q rule: parse_columns.induct)
  case (2 pos t ts)
  then obtain w where w: "t = TIdentifier w" by (cases t) simp_all
  then obtain col where c: "parse_column_name w = Some col" using "2.prems" by (cases "parse_column_name w") simp_all
  have "col \<noteq> Timestamp" using column_not_timestamp [of w] c w "2.prems"(2) by (auto simp: token_ok_def)
  then show ?case
    using "2.prems" "2.IH" [OF w c] w c by (auto simp: tokens_ok_def bind_outcome_Ok_iff split: if_splits)
qed simp

lemma parse_select_ok: "parse_select p = Ok (s, q) \<Longrightarrow> tokens_ok p \<Longrightarrow> tokens_ok q \<and> columns_ok s"
  using advanced_ok [of p] parse_columns_ok [of "fst p" "snd p"]
  by (auto simp: parse_select_def tokens_ok_def columns_ok_def bind_outcome_Ok_iff split: if_splits)

text \<open>C32. The type of what the parser returns.\<close>

theorem parsed_query_ok:
  assumes "parse input = Ok q"
  shows "query_ok q"
proof -
  obtain ts where "tokenize input = Ok ts" and q: "parse_query (0, ts) = Ok q"
    using assms by (auto simp: parse_def bind_outcome_Ok_iff)
  then have 0: "tokens_ok (0, ts)" using tokenize_ok by (simp add: tokens_ok_def)
  define p0 where "p0 = (if peek (0, ts) = Some TExplain then snd (advance (0, ts)) else (0, ts))"
  have p0: "tokens_ok p0" using 0 advanced_ok by (simp add: p0_def)
  from q [unfolded parse_query_def Let_def, folded p0_def] show ?thesis
    by (auto simp: query_ok_def bind_outcome_Ok_iff dest!: expect_ok parse_select_ok parse_symbol_ok parse_timestamp_ok
        parse_price_ok parse_limit_ok intro: p0)
qed


lemma parsed_query_ok_witness: "query_ok \<lparr>q_explain = False, q_columns = SelectAll, q_symbol = ''A'',
    q_where = \<lparr>wc_t1 = 1, wc_t2 = 2, wc_price_predicate = None\<rparr>, q_limit = Some 5, q_group_by = None\<rparr>"
  by (rule parsed_query_ok [of "''select * from A where timestamp between 1 and 2 limit 5''"]) code_simp

subsection \<open>Parsing returns\<close>

definition returns :: "('a, 'e) outcome \<Rightarrow> bool" where
  "returns r \<longleftrightarrow> (case r of Ok _ \<Rightarrow> True | Err _ \<Rightarrow> True | _ \<Rightarrow> False)"

lemma returns_simps [simp]: "returns (Ok x)" "returns (Err e)" "\<not> returns Panic" "\<not> returns Deadlock" "returns (unexpected what r)"
  by (simp_all add: returns_def unexpected_def)

lemma returns_bind: "returns m \<Longrightarrow> (\<And>x. m = Ok x \<Longrightarrow> returns (f x)) \<Longrightarrow> returns (bind_outcome m f)"
  by (cases m) simp_all

lemma next_token_returns: "returns (fst (next_token l))"
proof -
  have w: "returns (fst (word_token l))" for l
    by (auto simp: word_token_def split: prod.splits option.splits)
  have n: "returns (fst (read_number l))" for l
    by (auto simp: read_number_def split: prod.splits option.splits)
  have b: "returns r \<Longrightarrow> returns (bind_outcome r (\<lambda>t. Ok (f t)))" for r :: "('x, parse_error) outcome" and f :: "'x \<Rightarrow> token option"
    by (auto intro: returns_bind)
  obtain pos s where s: "skip_whitespace l = (pos, s)" by (meson surj_pair)
  show ?thesis
  proof (cases s)
    case Nil
    then show ?thesis using s by (simp add: next_token_def)
  next
    case (Cons c cs)
    obtain rw lw where rw: "word_token (pos, c # cs) = (rw, lw)" by (meson surj_pair)
    obtain rn ln where rn: "read_number (pos, c # cs) = (rn, ln)" by (meson surj_pair)
    have "returns rw" "returns rn" using w [of "(pos, c # cs)"] n [of "(pos, c # cs)"] rw rn by simp_all
    then have "returns (bind_outcome rw (\<lambda>t. Ok (Some t)))" "returns (bind_outcome rn (\<lambda>x. Ok (Some (number_token x))))"
      by (auto intro: b)
    then show ?thesis using s Cons by (simp add: next_token_def rw rn split: list.split)
  qed
qed

lemma tokenize_from_returns: "returns (tokenize_from l)"
proof (induction l rule: tokenize_from.induct)
  case (1 l)
  obtain r l' where n: "next_token l = (r, l')" by (meson surj_pair)
  have r: "returns r" using next_token_returns [of l] n by simp
  show ?case
  proof (cases r)
    case (Ok o')
    then show ?thesis
      using "1.IH" [OF n [symmetric] Ok] n by (cases o') (subst tokenize_from.simps; auto intro: returns_bind)+
  qed (use r n in \<open>subst tokenize_from.simps; simp\<close>)+
qed

lemma steps_return:
  "returns (expect t p)" "returns (parse_number p)" "returns (parse_symbol p)" "returns (parse_timestamp p)"
  "returns (parse_limit p)" "returns (parse_suffix p)" "returns (parse_aggregate p)"
  by (auto simp: expect_def parse_number_def parse_symbol_def parse_timestamp_def parse_limit_def parse_suffix_def
      parse_aggregate_def split: prod.splits option.splits token.splits if_splits)

lemma parse_interval_returns: "returns (parse_interval p)"
  by (auto simp: parse_interval_def steps_return split: prod.splits option.splits token.splits if_splits)

lemma parse_columns_returns: "returns (parse_columns pos ts)"
  by (induction pos ts rule: parse_columns.induct) (auto split: token.splits option.splits intro!: returns_bind)

lemma parse_comparison_returns: "returns (parse_comparison p)"
  by (auto simp: parse_comparison_def split: prod.splits option.splits token.splits intro!: returns_bind steps_return)

lemma clauses_return:
  "returns (parse_select p)" "returns (parse_price p)" "returns (parse_group_by p)"
  by (auto simp: parse_select_def parse_price_def parse_group_by_def
      intro!: returns_bind steps_return parse_columns_returns parse_comparison_returns parse_interval_returns)

text \<open>
  C35. Lexing and parsing end with a result or an error on every text: no input makes them panic,
  and there are at most as many tokens as characters.
\<close>

theorem parse_returns:
  "(case parse input of Ok q \<Rightarrow> True | Err e \<Rightarrow> True | _ \<Rightarrow> False) \<and>
    (case tokenize input of Ok ts \<Rightarrow> length ts \<le> length input | Err e \<Rightarrow> True | _ \<Rightarrow> False)"
proof -
  have t: "returns (tokenize input)" unfolding tokenize_def by (rule tokenize_from_returns)
  have "returns (parse_query p)" for p
    unfolding parse_query_def Let_def by (auto intro!: returns_bind steps_return clauses_return)
  then have "returns (parse input)" unfolding parse_def by (intro returns_bind t)
  moreover have "case tokenize input of Ok ts \<Rightarrow> length ts \<le> length input | Err e \<Rightarrow> True | _ \<Rightarrow> False"
    using t tokenize_ok [of input] by (cases "tokenize input") auto
  ultimately show ?thesis by (simp add: returns_def)
qed

end
