(* ===== verification/GqlFaults.thy ===== *)
theory GqlFaults
  imports GqlTypes GqlExec
begin

text \<open>
  Queries that are not read the way the documentation writes them.
\<close>

text \<open>
  The clauses of \<^verbatim>\<open>LIMIT\<close> and \<^verbatim>\<open>GROUP BY\<close> in the other order: the limit is accepted and
  ignored.  For a query with a \<^verbatim>\<open>GROUP BY\<close> clause and no limit, the text with \<^verbatim>\<open>LIMIT n\<close> after it is
  parsed as the query without a limit, so that all its rows are returned.
\<close>

theorem limit_after_group_by_ignored:
  assumes "query_ok q" and "price_integral q" and "q_group_by q \<noteq> None" and "q_limit q = None" and "short_int n"
  shows "parse (render_query q @ '' LIMIT '' @ show_i64 n) = Ok q"
proof -
  have "list_all2 lexes [''LIMIT'', show_i64 n] [[TLimit], [TInteger n]]"
    using lexes_keywords lexes_i64 assms(5) by (simp add: short_int_def)
  from parse_words [OF assms(1,2) this] assms(3)
  have "parse (unwords (query_words q @ [''LIMIT'', show_i64 n])) = Ok q" by blast
  moreover have "unwords (query_words q @ [''LIMIT'', show_i64 n]) = render_query q @ '' LIMIT '' @ show_i64 n"
    by (cases "query_words q") (simp_all add: render_query_def query_words_def)
  ultimately show ?thesis by simp
qed

lemma limit_after_group_by_ignored_witness:
  "parse (''SELECT * FROM A WHERE timestamp BETWEEN 0 AND 9 GROUP BY :1m AGGREGATE SUM'' @ '' LIMIT '' @ show_i64 5)
    = Ok \<lparr>q_explain = False, q_columns = SelectAll, q_symbol = ''A'',
      q_where = \<lparr>wc_t1 = 0, wc_t2 = 9, wc_price_predicate = None\<rparr>, q_limit = None,
      q_group_by = Some \<lparr>gb_interval = Min1, gb_aggregate = AggSum\<rparr>\<rparr>" (is "_ = Ok ?q")
proof -
  have q: "query_ok ?q" "price_integral ?q" "short_int 5"
    by (simp_all add: query_ok_def price_integral_def columns_ok_def short_int_def is_name_def keyword_token_def char_class_defs)
  have "render_query ?q = ''SELECT * FROM A WHERE timestamp BETWEEN 0 AND 9 GROUP BY :1m AGGREGATE SUM''"
    by code_simp
  then show ?thesis using limit_after_group_by_ignored [OF q(1,2) _ _ q(3)] by simp
qed

subsection \<open>Commas\<close>

lemma comma_kept:
  "CHR '','' \<in> set (snd l) \<Longrightarrow> CHR '','' \<in> set (snd (skip_whitespace l))"
  "CHR '','' \<in> set (snd l) \<Longrightarrow> CHR '','' \<in> set (snd (snd (read_identifier l)))"
  "CHR '','' \<in> set (snd l) \<Longrightarrow> CHR '','' \<in> set (snd (snd (number_text d b l)))"
proof -
  have c: "\<not> is_whitespace CHR '',''" "\<not> is_ident_char CHR '',''" "\<not> is_digit CHR '',''"
    by (simp_all add: char_class_defs)
  show "CHR '','' \<in> set (snd l) \<Longrightarrow> CHR '','' \<in> set (snd (skip_whitespace l))"
    using c by (induction l rule: skip_whitespace.induct) auto
  show "CHR '','' \<in> set (snd l) \<Longrightarrow> CHR '','' \<in> set (snd (snd (read_identifier l)))"
    using c by (induction l rule: read_identifier.induct) (auto split: prod.splits)
  show "CHR '','' \<in> set (snd l) \<Longrightarrow> CHR '','' \<in> set (snd (snd (number_text d b l)))"
    using c by (induction d b l rule: number_text.induct) (auto split: prod.splits)
qed

lemma comma_word: "word_token l = (r, l') \<Longrightarrow> CHR '','' \<in> set (snd l) \<Longrightarrow> CHR '','' \<in> set (snd l')"
  using comma_kept(2) [of l] comma_kept(1) [of "snd (read_identifier l)"]
    comma_kept(2) [of "skip_whitespace (snd (read_identifier l))"]
  by (auto simp: word_token_def split: prod.splits if_splits option.splits)

lemma comma_number: "read_number l = (r, l') \<Longrightarrow> CHR '','' \<in> set (snd l) \<Longrightarrow> CHR '','' \<in> set (snd l')"
  using comma_kept(3) [of l False True] by (auto simp: read_number_def split: prod.splits option.splits)

lemma comma_next:
  assumes "next_token l0 = (r, l)" "CHR '','' \<in> set (snd l0)"
  shows "r \<noteq> Ok None \<and> (\<forall>t. r = Ok (Some t) \<longrightarrow> CHR '','' \<in> set (snd l))"
proof -
  obtain pos s where s: "skip_whitespace l0 = (pos, s)" by (meson surj_pair)
  have "CHR '','' \<in> set s" using comma_kept(1) [OF assms(2)] s by simp
  then obtain c cs where cs: "s = c # cs" "CHR '','' \<in> set (c # cs)" by (cases s) auto
  obtain rw lw where w: "word_token (pos, c # cs) = (rw, lw)" by (meson surj_pair)
  obtain rn ln where n: "read_number (pos, c # cs) = (rn, ln)" by (meson surj_pair)
  have k: "CHR '','' \<in> set (snd lw)" "CHR '','' \<in> set (snd ln)"
    using comma_word [OF w] comma_number [OF n] cs by simp_all
  have none: "bind_outcome q (\<lambda>t. Ok (Some (f t))) \<noteq> Ok None" for q :: "('x, parse_error) outcome" and f :: "'x \<Rightarrow> token"
    by (cases q) simp_all
  show ?thesis
  proof (cases "is_alphabetic c \<or> c = CHR ''_'' \<or> is_digit c \<or> c = CHR ''-''")
    case True
    note o' = word_start(1) [OF True]
    show ?thesis
      using assms(1) s cs True o' k none [of rw "\<lambda>t. t"] none [of rn number_token]
      by (cases "is_alphabetic c \<or> c = CHR ''_''") (auto simp: next_token_def w n)
  next
    case False
    then show ?thesis using assms(1) s cs by (auto simp: next_token_def split: if_splits list.splits)
  qed
qed

lemma comma_tokenize: "CHR '','' \<in> set (snd l) \<Longrightarrow> tokenize_from l \<noteq> Ok ts"
proof (induction l arbitrary: ts rule: tokenize_from.induct)
  case (1 l)
  obtain r l' where n: "next_token l = (r, l')" by (meson surj_pair)
  note c = comma_next [OF n "1.prems"]
  show ?case
  proof (cases r)
    case (Ok o')
    then obtain t where t: "o' = Some t" using c by (cases o') auto
    have "tokenize_from l' \<noteq> Ok us" for us using "1.IH" [OF n [symmetric] Ok t] c Ok t by blast
    then show ?thesis using Ok t n by (subst tokenize_from.simps) (auto simp: bind_outcome_Ok_iff)
  qed (use n in \<open>subst tokenize_from.simps; simp\<close>)+
qed

text \<open>
  No text with a comma is a query, in particular no list of columns that are separated by
  commas.
\<close>

theorem comma_rejected:
  assumes "CHR '','' \<in> set input"
  shows "parse input \<noteq> Ok q"
  using comma_tokenize [of "(0, input)"] assms by (auto simp: parse_def tokenize_def bind_outcome_Ok_iff)

lemma comma_rejected_witness:
  "\<forall>q. parse ''SELECT close, volume FROM AAPL WHERE timestamp BETWEEN 0 AND 999000000000 AND price > 150.0'' \<noteq> Ok q"
  by (intro allI comma_rejected) simp

end
