(* ===== verification/Db.thy ===== *)
theory Db
  imports GqlParser GqlExec
begin

text \<open>
  \<^verbatim>\<open>graphite/src/db.rs\<close>: the database handle, which puts the query language on the engine.
\<close>

datatype db_error = DbLsm lsm_error | DbParse parse_error | DbExec exec_error | DbNotOpen | DbReplication replication_error

record db =
  db_path :: string
  db_lsm :: lsm

type_synonym 'a db_eff = "(db, 'a, db_error) eff"

text \<open>A call of the engine.\<close>

definition on_lsm :: "('e \<Rightarrow> db_error) \<Rightarrow> (lsm, 'a, 'e) eff \<Rightarrow> 'a db_eff" where
  "on_lsm f m d = (case m (db_lsm d) of (r, s) \<Rightarrow> (map_err f r, d\<lparr>db_lsm := s\<rparr>))"

definition db_open_with_config ::
  "env \<Rightarrow> string \<Rightarrow> lsm_config \<Rightarrow> bytes \<Rightarrow> bytes option \<Rightarrow> world \<Rightarrow> (db, db_error) outcome" where
  "db_open_with_config ev path config wal_file rep_file w =
     bind_outcome (map_err DbLsm (lsm_open ev path config wal_file rep_file w)) (\<lambda>s.
     Ok \<lparr>db_path = path, db_lsm = s\<rparr>)"

definition db_open :: "env \<Rightarrow> string \<Rightarrow> bytes \<Rightarrow> bytes option \<Rightarrow> world \<Rightarrow> (db, db_error) outcome" where
  "db_open ev path = db_open_with_config ev path config_default"

definition db_open_replica ::
  "env \<Rightarrow> string \<Rightarrow> lsm_config \<Rightarrow> bytes \<Rightarrow> bytes option \<Rightarrow> world \<Rightarrow> (db, db_error) outcome" where
  "db_open_replica ev path config = db_open_with_config ev path (config\<lparr>node_role_cfg := Replica\<rparr>)"

subsection \<open>Writes\<close>

definition db_insert :: "env \<Rightarrow> string \<Rightarrow> i64 \<Rightarrow> f64 \<Rightarrow> f64 \<Rightarrow> f64 \<Rightarrow> f64 \<Rightarrow> u64 \<Rightarrow> unit db_eff" where
  "db_insert ev symbol timestamp op high low cl volume =
     on_lsm DbLsm (insert_tick ev symbol timestamp op high low cl volume)"

definition db_insert_batch :: "env \<Rightarrow> string \<Rightarrow> tick list \<Rightarrow> unit db_eff" where
  "db_insert_batch ev symbol ticks = for_eff ticks (\<lambda>t. on_lsm DbLsm (lsm_insert ev symbol t))"

definition db_insert_batch_columns :: "env \<Rightarrow> string \<Rightarrow> tick_batch \<Rightarrow> unit db_eff" where
  "db_insert_batch_columns ev symbol batch = on_lsm DbLsm (insert_batch ev symbol batch)"

definition db_insert_multi :: "env \<Rightarrow> symbol_tick list \<Rightarrow> unit db_eff" where
  "db_insert_multi ev ticks = on_lsm DbLsm (insert_multi ev ticks)"

subsection \<open>Reads\<close>

definition db_query :: "env \<Rightarrow> bool \<Rightarrow> string \<Rightarrow> query_result db_eff" where
  "db_query ev avx2 gql =
     bind_eff (lift_outcome (map_err DbParse (parse gql))) (\<lambda>q.
     on_lsm DbExec (execute ev avx2 q))"

definition range_text :: "string \<Rightarrow> i64 \<Rightarrow> i64 \<Rightarrow> string" where
  "range_text symbol t1 t2 =
     ''SELECT * FROM '' @ symbol @ '' WHERE timestamp BETWEEN '' @ show_i64 t1 @ '' AND '' @ show_i64 t2"

definition db_query_range :: "env \<Rightarrow> bool \<Rightarrow> string \<Rightarrow> i64 \<Rightarrow> i64 \<Rightarrow> query_result db_eff" where
  "db_query_range ev avx2 symbol t1 t2 = db_query ev avx2 (range_text symbol t1 t2)"

definition db_scan_stream :: "string \<Rightarrow> i64 \<Rightarrow> i64 \<Rightarrow> scan_stream db_eff" where
  "db_scan_stream symbol t1 t2 = on_lsm DbLsm (lsm_scan_stream (Some symbol) t1 t2 column_all)"

text \<open>\<^verbatim>\<open>count\<close> drains the stream.\<close>

definition db_count_range :: "env \<Rightarrow> string \<Rightarrow> i64 \<Rightarrow> i64 \<Rightarrow> u64 db_eff" where
  "db_count_range ev symbol t1 t2 =
     bind_eff (db_scan_stream symbol t1 t2) (\<lambda>st.
     bind_eff (on_lsm DbLsm (collect_stream (engine_loader ev (ss_params st)) st)) (\<lambda>ticks.
     ret (of_nat (length ticks))))"

definition db_get :: "env \<Rightarrow> string \<Rightarrow> i64 \<Rightarrow> tick option db_eff" where
  "db_get ev symbol timestamp = on_lsm DbLsm (lsm_get ev symbol timestamp)"

subsection \<open>Maintenance and replication\<close>

definition db_compact :: "env \<Rightarrow> unit db_eff" where
  "db_compact ev = on_lsm DbLsm (lsm_compact ev)"

definition db_needs_compaction :: "bool db_eff" where
  "db_needs_compaction = on_lsm DbLsm lsm_needs_compaction"

definition db_stats_of :: "db_stats db_eff" where
  "db_stats_of = on_lsm DbLsm lsm_stats"

definition db_sync_cold_tier :: "env \<Rightarrow> nat db_eff" where
  "db_sync_cold_tier ev = on_lsm DbLsm (sync_cold_tier ev)"

definition db_cold_tier_synced_count :: "db \<Rightarrow> nat" where
  "db_cold_tier_synced_count d = cold_tier_synced_count (db_lsm d)"

definition db_node_role :: "db \<Rightarrow> node_role" where
  "db_node_role d = ls_role (db_lsm d)"

definition db_replication_status :: "replication_status db_eff" where
  "db_replication_status = on_lsm DbLsm lsm_replication_status"

definition db_read_wal_for_replication :: "env \<Rightarrow> u64 option \<Rightarrow> nat \<Rightarrow> replication_entry list db_eff" where
  "db_read_wal_for_replication ev after_inclusive limit = on_lsm DbLsm (read_wal_for_replication ev after_inclusive limit)"

definition db_replication_last_applied :: "u64 option db_eff" where
  "db_replication_last_applied = on_lsm DbLsm replication_last_applied"

definition db_apply_replication_batch :: "env \<Rightarrow> replication_entry list \<Rightarrow> u64 db_eff" where
  "db_apply_replication_batch ev entries = on_lsm DbLsm (apply_replication_batch ev entries)"

end
