(* ===== verification/DbCorrect.thy ===== *)
theory DbCorrect
  imports Db GqlTypes LsmReplication
begin

text \<open>
  The database handle: what range queries return after writes, and which ones fail.
\<close>

subsection \<open>The text of a range query\<close>

definition range_query :: "string \<Rightarrow> i64 \<Rightarrow> i64 \<Rightarrow> query" where
  "range_query symbol t1 t2 = \<lparr>q_explain = False, q_columns = SelectAll, q_symbol = symbol,
     q_where = \<lparr>wc_t1 = t1, wc_t2 = t2, wc_price_predicate = None\<rparr>, q_limit = None, q_group_by = None\<rparr>"

lemma range_words:
  "range_text symbol t1 t2 = unwords ([''SELECT'', ''*'', ''FROM'', symbol, ''WHERE'', ''timestamp'', ''BETWEEN''] @
     [show_i64 t1, ''AND'', show_i64 t2])"
  by (simp add: range_text_def)

lemma parse_range:
  assumes "is_name symbol" "short_int t1" "short_int t2"
  shows "parse (range_text symbol t1 t2) = Ok (range_query symbol t1 t2)"
proof -
  have "query_ok (range_query symbol t1 t2)" "price_integral (range_query symbol t1 t2)"
    using assms by (simp_all add: query_ok_def price_integral_def range_query_def columns_ok_def)
  from parse_words [OF this, of "[]" "[]"] show ?thesis by (simp add: range_words query_words_def range_query_def)
qed

subsection \<open>Queries on the memtable\<close>

lemma on_lsm_bind: "on_lsm f (bind_eff m g) = bind_eff (on_lsm f m) (\<lambda>x. on_lsm f (g x))"
  by (rule ext) (auto simp: on_lsm_def bind_eff_def split: prod.splits outcome.splits)

lemma on_lsm_run: "m (db_lsm d) = (r, s) \<Longrightarrow> on_lsm f m d = (map_err f r, d\<lparr>db_lsm := s\<rparr>)"
  by (simp add: on_lsm_def)

lemma db_same [simp]: "d\<lparr>db_lsm := db_lsm d\<rparr> = d"
  by simp

lemma query_range_run:
  assumes "ls_held (db_lsm d) = []" "sl_rep (ls_memtable (db_lsm d)) ts" "no_tables (db_lsm d)"
    and "is_name n" "short_int t1" "short_int t2" "get_id (ls_symbol_dict (db_lsm d)) n = Some i"
  shows "db_query_range ev avx2 n t1 t2 d
    = (Ok \<lparr>qr_rows = map (tick_to_row n) (filter (scan_wants (Some i) t1 t2) ts), qr_explain_plan = None\<rparr>, d)"
    "db_count_range ev n t1 t2 d = (Ok (of_nat (length (filter (scan_wants (Some i) t1 t2) ts))), d)"
proof -
  have "execute ev avx2 (range_query n t1 t2) (db_lsm d)
      = (Ok \<lparr>qr_rows = map (tick_to_row n) (filter (scan_wants (Some i) t1 t2) ts), qr_explain_plan = None\<rparr>, db_lsm d)"
    using lsm_scan_run [OF assms(1-3), of ev "Some n" t1 t2 column_all] assms(7)
    by (simp add: execute_def range_query_def bind_eff_def map_err_eff_def query_columns_def rows_of_def
        apply_price_filter_def ret_def Let_def)
  from on_lsm_run [of "execute ev avx2 (range_query n t1 t2)", OF this]
  show "db_query_range ev avx2 n t1 t2 d
    = (Ok \<lparr>qr_rows = map (tick_to_row n) (filter (scan_wants (Some i) t1 t2) ts), qr_explain_plan = None\<rparr>, d)"
    by (simp add: db_query_range_def db_query_def parse_range [OF assms(4-6)] bind_eff_def lift_outcome_def)
  have "scan_symbol_id (Some n) (db_lsm d) = (Ok (Some i), db_lsm d)"
    using assms(1,7) by (simp add: scan_symbol_id_run)
  from collect_scan_run [OF assms(1-3) this, of t1 t2 column_all ev]
  obtain st where st: "lsm_scan_stream (Some n) t1 t2 column_all (db_lsm d) = (Ok st, db_lsm d)"
    "collect_stream (engine_loader ev (ss_params st)) st (db_lsm d)
      = (Ok (filter (scan_wants (Some i) t1 t2) ts) :: (tick list, lsm_error) outcome, db_lsm d)" .
  show "db_count_range ev n t1 t2 d = (Ok (of_nat (length (filter (scan_wants (Some i) t1 t2) ts))), d)"
    by (simp add: db_count_range_def db_scan_stream_def on_lsm_def st bind_eff_def ret_def)
qed

subsection \<open>Inserts through the handle\<close>

definition db_insert_tick :: "env \<Rightarrow> string \<times> tick \<Rightarrow> unit db_eff" where
  "db_insert_tick ev = (\<lambda>(n, t). db_insert ev n (t_timestamp t) (t_open t) (t_high t) (t_low t) (t_close t) (t_volume t))"

lemma db_insert_tick_lsm: "db_insert_tick ev (n, t) = on_lsm DbLsm (lsm_insert ev n t)"
proof -
  have "(t\<lparr>t_symbol_id := 0\<rparr>)\<lparr>t_symbol_id := i\<rparr> = t\<lparr>t_symbol_id := i\<rparr>" for i by simp
  then have "lsm_insert ev n (t\<lparr>t_symbol_id := 0\<rparr>) = lsm_insert ev n t"
    unfolding lsm_insert_def by presburger
  moreover have "t\<lparr>t_symbol_id := 0\<rparr> = \<lparr>t_symbol_id = 0, t_timestamp = t_timestamp t, t_open = t_open t, t_high = t_high t,
       t_low = t_low t, t_close = t_close t, t_volume = t_volume t\<rparr>"
    by simp
  ultimately show ?thesis by (simp add: db_insert_tick_def db_insert_def insert_tick_def)
qed

lemma db_inserts_lsm: "for_eff ws (db_insert_tick ev) = on_lsm DbLsm (insert_each ev ws)"
proof (induction ws)
  case Nil
  then show ?case by (simp add: insert_each_def fun_eq_iff on_lsm_def ret_def)
next
  case (Cons w ws)
  obtain n t where "w = (n, t)" by fastforce
  then show ?case using Cons by (simp add: insert_each_def on_lsm_bind db_insert_tick_lsm)
qed

text \<open>The rows a range query should return: the last tick of each timestamp in the range.\<close>

definition expected_rows :: "(string \<times> tick) list \<Rightarrow> string \<Rightarrow> i64 \<Rightarrow> i64 \<Rightarrow> result_row set" where
  "expected_rows ws n t1 t2 =
     {tick_to_row n t | t k. sint t1 \<le> sint k \<and> sint k \<le> sint t2 \<and> last_tick ws n k = Some t}"

lemma last_tick_timestamp: "last_tick ws n k = Some t \<Longrightarrow> t_timestamp t = k"
  by (induction ws n k rule: last_tick.induct) (auto split: option.splits if_splits)

lemma rows_of_symbol:
  assumes "tick_sorted ts" "\<forall>t \<in> set ts. t_symbol_id t = i"
  shows "sorted_wrt (\<lambda>a b. sint (rr_timestamp a) < sint (rr_timestamp b)) (map (tick_to_row n) ts)"
proof -
  have k: "Key i a < Key i b \<longleftrightarrow> sint a < sint b" for a b
    by (simp add: less_key_def key_cmp_def cmp_u16_def cmp_i64_def)
  show ?thesis using assms by (induction ts) (auto simp: tick_to_row_def tick_key_def k)
qed

lemma rows_expected:
  assumes "\<And>k. last_write us (Key i k) = map_option (\<lambda>t. t\<lparr>t_symbol_id := i\<rparr>) (last_tick ws n k)"
  shows "tick_to_row n ` set (filter (scan_wants (Some i) t1 t2) (tick_insert_all [] us)) = expected_rows ws n t1 t2"
proof -
  have s: "tick_sorted (tick_insert_all [] us)"
    using tick_sorted_insert by (induction us rule: rev_induct) (simp_all add: tick_insert_all_def tick_sorted_def)
  have m: "u \<in> set (tick_insert_all [] us) \<longleftrightarrow> last_write us (tick_key u) = Some u" for u
    using tick_lookup_Some [OF s, of "tick_key u" u] tick_lookup_writes [of us "tick_key u"] by simp
  have row: "tick_to_row n (t\<lparr>t_symbol_id := i\<rparr>) = tick_to_row n t" for t by (simp add: tick_to_row_def)
  show ?thesis
  proof (intro equalityI subsetI)
    fix r assume "r \<in> tick_to_row n ` set (filter (scan_wants (Some i) t1 t2) (tick_insert_all [] us))"
    then obtain u where u: "r = tick_to_row n u" "u \<in> set (tick_insert_all [] us)" "scan_wants (Some i) t1 t2 u" by auto
    then have "last_write us (Key i (t_timestamp u)) = Some u" using m by (simp add: tick_key_def scan_wants_def)
    then obtain t where "last_tick ws n (t_timestamp u) = Some t" "u = t\<lparr>t_symbol_id := i\<rparr>" using assms by auto
    then show "r \<in> expected_rows ws n t1 t2" using u row by (auto simp: expected_rows_def scan_wants_def)
  next
    fix r assume "r \<in> expected_rows ws n t1 t2"
    then obtain t k where t: "r = tick_to_row n t" "sint t1 \<le> sint k" "sint k \<le> sint t2" "last_tick ws n k = Some t"
      by (auto simp: expected_rows_def)
    let ?u = "t\<lparr>t_symbol_id := i\<rparr>"
    have k: "t_timestamp t = k" using t(4) by (rule last_tick_timestamp)
    then have "last_write us (tick_key ?u) = Some ?u" using assms t(4) by (simp add: tick_key_def)
    then have "?u \<in> set (filter (scan_wants (Some i) t1 t2) (tick_insert_all [] us))"
      using m t k by (simp add: scan_wants_def)
    then show "r \<in> tick_to_row n ` set (filter (scan_wants (Some i) t1 t2) (tick_insert_all [] us))"
      using t(1) row by (metis imageI)
  qed
qed

lemma tick_insert_all_sorted: "tick_sorted (tick_insert_all [] us)"
  using tick_sorted_insert by (induction us rule: rev_induct) (simp_all add: tick_insert_all_def tick_sorted_def)

text \<open>
  C8. A range query whose bounds are below \<open>10\<^sup>1\<^sup>5\<close> in magnitude, on a symbol that has been written
  and whose name the query language can spell (\<open>is_name\<close>), returns what was written: on a new
  database, after fewer than 10000 inserts that the log can store, its rows are the last ticks of
  the symbol's timestamps in the range, in time order and each once, and the count is their number.
  For larger bounds the query fails.
\<close>

theorem query_range_after_writes:
  assumes "db_open ev path [] None w = Ok d" and "no_sst_files w"
    and "\<forall>(n, t) \<in> set ws. storable_tick ev t" and "length ws < 10000"
    and "n \<in> fst ` set ws" and "is_name n" and "short_int t1" and "short_int t2"
  shows "\<exists>d' rows. for_eff ws (db_insert_tick ev) d = (Ok (), d') \<and>
    db_query_range ev avx2 n t1 t2 d' = (Ok \<lparr>qr_rows = rows, qr_explain_plan = None\<rparr>, d') \<and>
    db_count_range ev n t1 t2 d' = (Ok (of_nat (length rows)), d') \<and>
    set rows = expected_rows ws n t1 t2 \<and>
    sorted_wrt (\<lambda>a b. sint (rr_timestamp a) < sint (rr_timestamp b)) rows"
proof -
  obtain s where s: "lsm_open ev path config_default [] None w = Ok s" "d = \<lparr>db_path = path, db_lsm = s\<rparr>"
    using assms(1) by (cases "lsm_open ev path config_default [] None w") (auto simp: db_open_def db_open_with_config_def)
  have f: "fresh_open ev path config_default w s" using s(1) assms(2) by (simp add: fresh_open_def config_default_def)
  obtain dict us where r: "resolve_writes dict_new ws = (dict, us)" by fastforce
  have c: "node_role_cfg config_default = Primary" "length ws < memtable_flush_threshold config_default"
    using assms(4) by (simp_all add: config_default_def MEMTABLE_FLUSH_THRESHOLD_def)
  obtain mt0 mt where s0: "s = fresh_lsm ev path config_default w mt0 empty_wal \<lparr>rt_file = None, rt_state = None\<rparr>"
    and mt: "sl_rep mt (tick_insert_all [] us)" "insert_each ev ws s = (Ok (), after_writes ev dict us mt s)"
    using fresh_writes [OF f c(1) assms(3) c(2) r] by metis
  have room: "dict_len dict_new + length ws \<le> 2 ^ 16" using assms(4) by (simp add: dict_len_def dict_new_def)
  note rs = resolve_spec [OF dict_inv_new room r]
  obtain i where i: "get_id dict n = Some i"
    using rs assms(5) dict_unmapped [of dict n] by (cases "get_id dict n") (auto simp: get_id_def)
  let ?s = "after_writes ev dict us mt s" and ?ts = "filter (scan_wants (Some i) t1 t2) (tick_insert_all [] us)"
  let ?d = "d\<lparr>db_lsm := ?s\<rparr>"
  have ins: "for_eff ws (db_insert_tick ev) d = (Ok (), ?d)"
    using mt(2) s(2) by (simp add: db_inserts_lsm on_lsm_def)
  have st: "ls_held (db_lsm ?d) = []" "sl_rep (ls_memtable (db_lsm ?d)) (tick_insert_all [] us)" "no_tables (db_lsm ?d)"
    "get_id (ls_symbol_dict (db_lsm ?d)) n = Some i"
    using mt(1) i by (simp_all add: s0)
  note q = query_range_run [OF st(1-3) assms(6-8) st(4)]
  have "set (map (tick_to_row n) ?ts) = expected_rows ws n t1 t2"
    using rows_expected [of us i ws n t1 t2] rs i by simp
  moreover have "sorted_wrt (\<lambda>a b. sint (rr_timestamp a) < sint (rr_timestamp b)) (map (tick_to_row n) ?ts)"
    by (rule rows_of_symbol [where i = i]) (auto simp: tick_sorted_filter tick_insert_all_sorted scan_wants_def)
  ultimately show ?thesis using ins q by (intro exI conjI) (assumption | simp)+
qed

theorem query_range_after_writes_witness:
  "\<exists>d d' rows. for_eff [(''A'', example_tick 0 5), (''A'', example_tick 0 7), (''A'', example_tick 0 9)] (db_insert_tick example_env) d = (Ok (), d') \<and>
    db_query_range example_env True ''A'' 4 7 d' = (Ok \<lparr>qr_rows = rows, qr_explain_plan = None\<rparr>, d') \<and>
    set rows = expected_rows [(''A'', example_tick 0 5), (''A'', example_tick 0 7), (''A'', example_tick 0 9)] ''A'' 4 7"
proof -
  obtain s where "fresh_open example_env ''d'' config_default example_world s" using example_fresh by blast
  then have d: "db_open example_env ''d'' [] None example_world = Ok \<lparr>db_path = ''d'', db_lsm = s\<rparr>"
    and w: "no_sst_files example_world"
    by (simp_all add: fresh_open_def db_open_def db_open_with_config_def)
  have n: "is_name ''A''" "short_int 4" "short_int 7"
    by (simp_all add: is_name_def keyword_token_def char_class_defs short_int_def)
  show ?thesis
    using query_range_after_writes [OF d w, of "[(''A'', example_tick 0 5), (''A'', example_tick 0 7), (''A'', example_tick 0 9)]" "''A''" 4 7 True]
      n by (simp; blast)
qed

subsection \<open>Nanosecond timestamps\<close>

lemma range_tokens:
  assumes "is_name n"
  shows "tokenize (range_text n t1 t2) = Ok [TSelect, TStar, TFrom, TIdentifier n, TWhere, TTimestamp, TBetween,
    number_token (f64_of_decimal (sint t1 < 0) \<bar>sint t1\<bar> 0), TAnd, number_token (f64_of_decimal (sint t2 < 0) \<bar>sint t2\<bar> 0)]"
proof -
  have "list_all2 lexes ([''SELECT'', ''*'', ''FROM'', n, ''WHERE'', ''timestamp'', ''BETWEEN''] @ [show_i64 t1, ''AND'', show_i64 t2])
    [[TSelect], [TStar], [TFrom], [TIdentifier n], [TWhere], [TTimestamp], [TBetween],
     [number_token (f64_of_decimal (sint t1 < 0) \<bar>sint t1\<bar> 0)], [TAnd],
     [number_token (f64_of_decimal (sint t2 < 0) \<bar>sint t2\<bar> 0)]]"
    using lexes_keywords lexes_symbols lexes_name [OF assms] lexes_number by simp
  from tokenize_unwords [OF this] show ?thesis unfolding range_words by simp
qed

lemma long_int_token: "\<not> short_int i \<Longrightarrow> number_token (f64_of_decimal neg \<bar>sint i\<bar> 0) = TNumber (f64_of_decimal neg \<bar>sint i\<bar> 0)"
  by (rule number_token_large) (simp add: short_int_def)

text \<open>
  C10. A range query with a bound of \<open>10\<^sup>1\<^sup>5\<close> or more in magnitude, as every nanosecond timestamp
  after January 12, 1970 is, fails: the bound is lexed as a number that is no integer token.
\<close>

theorem query_range_rejects_nanoseconds:
  assumes "is_name n" and "\<not> short_int t1 \<or> \<not> short_int t2"
  shows "\<exists>pos x. db_query_range ev avx2 n t1 t2 d
    = (Err (DbParse (UnexpectedToken pos (ExpectedText ''timestamp integer'') (FoundToken (Some (TNumber x))))), d)"
proof -
  have "\<exists>pos x. parse (range_text n t1 t2)
      = Err (UnexpectedToken pos (ExpectedText ''timestamp integer'') (FoundToken (Some (TNumber x))))"
  proof (cases "short_int t1")
    case True
    then have t2: "\<not> short_int t2" using assms(2) by simp
    have "number_token (f64_of_decimal (sint t1 < 0) \<bar>sint t1\<bar> 0) = TInteger t1"
      using number_token_small True by (simp add: short_int_def)
    then show ?thesis
      by (simp add: parse_def range_tokens [OF assms(1)] long_int_token [OF t2] parse_query_def Let_def parse_select_def
          parse_symbol_def parse_timestamp_def unexpected_def)
  next
    case False
    then show ?thesis
      by (simp add: parse_def range_tokens [OF assms(1)] long_int_token parse_query_def Let_def parse_select_def
          parse_symbol_def parse_timestamp_def unexpected_def)
  qed
  then show ?thesis by (auto simp: db_query_range_def db_query_def bind_eff_def lift_outcome_def)
qed

lemma query_range_rejects_nanoseconds_witness:
  "\<forall>d. \<exists>pos x. db_query_range example_env True ''AAPL'' 0 1700000000000000000 d
    = (Err (DbParse (UnexpectedToken pos (ExpectedText ''timestamp integer'') (FoundToken (Some (TNumber x))))), d)"
  by (intro allI query_range_rejects_nanoseconds)
    (simp_all add: is_name_def keyword_token_def char_class_defs short_int_def)

end
