(* ===== verification/PyBindings.thy ===== *)
theory PyBindings
  imports DbCorrect
begin

text \<open>
  \<^verbatim>\<open>graphite-py/src/lib.rs\<close>: the Python classes \<^verbatim>\<open>DB\<close> and \<^verbatim>\<open>TickStream\<close>.  The interpreter and
  its packages are not in the repository: a NumPy array is its elements with the answer to whether it
  is contiguous (what \<^verbatim>\<open>as_slice\<close> asks), the package \<^verbatim>\<open>polars\<close> is a parameter, \<open>None\<close> where its
  import fails and the constructor \<^verbatim>\<open>DataFrame\<close> on its keyword arguments otherwise.
\<close>

subsection \<open>Python values and exceptions\<close>

text \<open>
  \<open>PyForeign\<close> is an object another package made; a dictionary lists its items in the order they
  were set, which is its iteration order.
\<close>

datatype py_object = PyInt int | PyFloat f64 | PyStr string | PyList "py_object list" |
  PyDict "(string \<times> py_object) list" | PyForeign nat

datatype py_exception = PyIOError | PyValueError | PyRuntimeError | PyTypeError

text \<open>The message: the text of an error of the database, or a literal.\<close>

datatype py_message = LsmText lsm_error | ParseText parse_error | ExecText exec_error | Literal string

text \<open>
  \<open>NotContiguous\<close> is the error of \<^verbatim>\<open>as_slice\<close>.  \<open>NoArm\<close> stands for a variant \<^verbatim>\<open>db_err\<close> has no arm
  for.
\<close>

datatype py_error = PyErr py_exception py_message | NotContiguous | NoArm replication_error

type_synonym 'a py_eff = "(db, 'a, py_error) eff"

fun db_err :: "db_error \<Rightarrow> py_error" where
  "db_err (DbLsm e) = PyErr PyIOError (LsmText e)"
| "db_err (DbParse e) = PyErr PyValueError (ParseText e)"
| "db_err (DbExec e) = PyErr PyRuntimeError (ExecText e)"
| "db_err DbNotOpen = PyErr PyRuntimeError (Literal ''database not open'')"
| "db_err (DbReplication e) = NoArm e"

definition py_i64 :: "i64 \<Rightarrow> py_object" where "py_i64 i = PyInt (sint i)"
definition py_u64 :: "u64 \<Rightarrow> py_object" where "py_u64 i = PyInt (uint i)"

text \<open>\<^verbatim>\<open>set_item\<close> keeps the place of a key that is there.\<close>

fun set_item :: "string \<Rightarrow> py_object \<Rightarrow> (string \<times> py_object) list \<Rightarrow> (string \<times> py_object) list" where
  "set_item k v [] = [(k, v)]"
| "set_item k v ((l, u) # d) = (if k = l then (k, v) # d else (l, u) # set_item k v d)"

subsection \<open>Results as Python values\<close>

definition py_columns :: "result_row list \<Rightarrow> (string \<times> py_object) list" where
  "py_columns rows =
     (let d = [];
          d = set_item ''timestamp'' (PyList (map (\<lambda>r. py_i64 (rr_timestamp r)) rows)) d;
          d = set_item ''symbol'' (PyList (map (\<lambda>r. PyStr (rr_symbol r)) rows)) d;
          d = set_item ''open'' (PyList (map (\<lambda>r. PyFloat (rr_open r)) rows)) d;
          d = set_item ''high'' (PyList (map (\<lambda>r. PyFloat (rr_high r)) rows)) d;
          d = set_item ''low'' (PyList (map (\<lambda>r. PyFloat (rr_low r)) rows)) d;
          d = set_item ''close'' (PyList (map (\<lambda>r. PyFloat (rr_close r)) rows)) d
      in set_item ''volume'' (PyList (map (\<lambda>r. py_u64 (rr_volume r)) rows)) d)"

definition result_to_dict :: "query_result \<Rightarrow> py_object" where
  "result_to_dict result =
     PyDict (set_item ''row_count'' (PyInt (int (length (qr_rows result)))) (py_columns (qr_rows result)))"

type_synonym polars = "((string \<times> py_object) list \<Rightarrow> (py_object, py_error) outcome) option"

definition result_to_polars_or_dict :: "polars \<Rightarrow> query_result \<Rightarrow> (py_object, py_error) outcome" where
  "result_to_polars_or_dict polars result = (case qr_explain_plan result of
      Some plan \<Rightarrow> Ok (PyDict (set_item ''row_count'' (PyInt 0) (set_item ''explain_plan'' (PyStr plan) [])))
    | None \<Rightarrow> (case polars of
        Some data_frame \<Rightarrow> data_frame (py_columns (qr_rows result))
      | None \<Rightarrow> Ok (result_to_dict result)))"

subsection \<open>The class \<open>DB\<close>\<close>

definition py_open :: "env \<Rightarrow> string \<Rightarrow> bytes \<Rightarrow> bytes option \<Rightarrow> world \<Rightarrow> (db, py_error) outcome" where
  "py_open ev path wal_file rep_file w = map_err db_err (db_open ev path wal_file rep_file w)"

definition py_insert :: "env \<Rightarrow> string \<Rightarrow> i64 \<Rightarrow> f64 \<Rightarrow> f64 \<Rightarrow> f64 \<Rightarrow> f64 \<Rightarrow> u64 \<Rightarrow> unit py_eff" where
  "py_insert ev symbol timestamp_ns op high low cl volume =
     map_err_eff db_err (db_insert ev symbol timestamp_ns op high low cl volume)"

record 'a np_array =
  np_items :: "'a list"
  np_contiguous :: bool

definition as_slice :: "'a np_array \<Rightarrow> 'a list py_eff" where
  "as_slice a = (if np_contiguous a then ret (np_items a) else fail_with NotContiguous)"

definition py_insert_numpy ::
  "env \<Rightarrow> string \<Rightarrow> i64 np_array \<Rightarrow> f64 np_array \<Rightarrow> f64 np_array \<Rightarrow> f64 np_array \<Rightarrow> f64 np_array \<Rightarrow>
   u64 np_array \<Rightarrow> unit py_eff" where
  "py_insert_numpy ev symbol timestamps opens highs lows closes volumes =
     bind_eff (as_slice timestamps) (\<lambda>ts. bind_eff (as_slice opens) (\<lambda>os.
     bind_eff (as_slice highs) (\<lambda>hs. bind_eff (as_slice lows) (\<lambda>ls.
     bind_eff (as_slice closes) (\<lambda>cs. bind_eff (as_slice volumes) (\<lambda>vs.
     let batch = \<lparr>b_timestamps = ts, b_opens = os, b_highs = hs, b_lows = ls, b_closes = cs, b_volumes = vs\<rparr>;
         n = batch_len batch
     in if length (b_opens batch) \<noteq> n \<or> length (b_highs batch) \<noteq> n \<or> length (b_lows batch) \<noteq> n \<or>
           length (b_closes batch) \<noteq> n \<or> length (b_volumes batch) \<noteq> n
        then fail_with (PyErr PyValueError (Literal ''all arrays must have same length''))
        else map_err_eff db_err (db_insert_batch_columns ev symbol batch)))))))"

definition py_query :: "env \<Rightarrow> bool \<Rightarrow> polars \<Rightarrow> string \<Rightarrow> py_object py_eff" where
  "py_query ev avx2 polars gql =
     bind_eff (map_err_eff db_err (db_query ev avx2 gql)) (\<lambda>result.
     lift_outcome (result_to_polars_or_dict polars result))"

definition py_query_range :: "env \<Rightarrow> bool \<Rightarrow> polars \<Rightarrow> string \<Rightarrow> i64 \<Rightarrow> i64 \<Rightarrow> py_object py_eff" where
  "py_query_range ev avx2 polars symbol t1 t2 =
     bind_eff (map_err_eff db_err (db_query_range ev avx2 symbol t1 t2)) (\<lambda>result.
     lift_outcome (result_to_polars_or_dict polars result))"

definition py_compact :: "env \<Rightarrow> unit py_eff" where
  "py_compact ev = map_err_eff db_err (db_compact ev)"

definition py_needs_compaction :: "bool py_eff" where
  "py_needs_compaction = map_err_eff db_err db_needs_compaction"

definition py_stats :: "py_object py_eff" where
  "py_stats =
     bind_eff (map_err_eff db_err db_stats_of) (\<lambda>stats.
     ret (PyDict
       (set_item ''total_sstables'' (py_u64 (ds_total_sstables stats))
       (set_item ''total_rows'' (py_u64 (ds_total_rows stats))
       (set_item ''write_amplification_factor'' (PyFloat (ds_write_amplification_factor stats))
       (set_item ''cache_hit_rate'' (PyFloat (ds_cache_hit_rate stats))
       (set_item ''bloom_filter_hit_rate'' (PyFloat (ds_bloom_filter_hit_rate stats))
       (set_item ''level_sizes'' (PyList (map py_u64 (ds_level_sizes stats))) [])))))))) "

subsection \<open>The class \<open>TickStream\<close>\<close>

record py_tick_stream =
  pts_stream :: scan_stream
  pts_symbol :: string

definition py_scan_iter :: "string \<Rightarrow> i64 \<Rightarrow> i64 \<Rightarrow> py_tick_stream py_eff" where
  "py_scan_iter symbol t1 t2 =
     bind_eff (map_err_eff db_err (db_scan_stream symbol t1 t2)) (\<lambda>stream.
     ret \<lparr>pts_stream = stream, pts_symbol = symbol\<rparr>)"

definition tick_dict :: "string \<Rightarrow> tick \<Rightarrow> py_object" where
  "tick_dict symbol tick = PyDict
     (set_item ''volume'' (py_u64 (t_volume tick))
     (set_item ''close'' (PyFloat (t_close tick))
     (set_item ''low'' (PyFloat (t_low tick))
     (set_item ''high'' (PyFloat (t_high tick))
     (set_item ''open'' (PyFloat (t_open tick))
     (set_item ''symbol'' (PyStr symbol)
     (set_item ''timestamp'' (py_i64 (t_timestamp tick)) [])))))))"

text \<open>\<^verbatim>\<open>__next__\<close>; \<open>None\<close> ends the iteration.  The stream reads tables through the shared cache.\<close>

definition py_next :: "env \<Rightarrow> py_tick_stream \<Rightarrow> (py_object option \<times> py_tick_stream) py_eff" where
  "py_next ev slf =
     bind_eff (map_err_eff db_err (on_lsm DbLsm
       (next_tick (engine_loader ev (ss_params (pts_stream slf))) (pts_stream slf)))) (\<lambda>(tick, stream).
     ret (map_option (tick_dict (pts_symbol slf)) tick, slf\<lparr>pts_stream := stream\<rparr>))"

subsection \<open>Bulk inserts\<close>

text \<open>
  C18. \<open>insert_numpy\<close> is a loop of \<open>insert\<close>, all or nothing: where an array is not contiguous or
  the lengths differ it raises and the database is unchanged (the panic of a ragged batch cannot be
  reached from Python); otherwise, on a primary with free locks and room for the rows below the
  flush threshold, it leaves the state that inserting the
  rows one by one leaves.
\<close>

theorem insert_numpy_rows:
  assumes "ls_held (db_lsm d) = []" and "ls_role (db_lsm d) = Primary" and "sl_rep (ls_memtable (db_lsm d)) rs"
    and "b = \<lparr>b_timestamps = np_items ts, b_opens = np_items os, b_highs = np_items hs, b_lows = np_items ls,
      b_closes = np_items cs, b_volumes = np_items vs\<rparr>"
    and "batch_rectangular b \<Longrightarrow> \<forall>w \<in> set (batch_writes n b). storable_tick ev (snd w)"
    and "length rs + batch_len b < memtable_flush_threshold (ls_config (db_lsm d))"
  shows "py_insert_numpy ev n ts os hs ls cs vs d =
    (if \<not> (np_contiguous ts \<and> np_contiguous os \<and> np_contiguous hs \<and> np_contiguous ls \<and> np_contiguous cs \<and> np_contiguous vs)
     then (Err NotContiguous, d)
     else if \<not> batch_rectangular b
     then (Err (PyErr PyValueError (Literal ''all arrays must have same length'')), d)
     else map_err_eff db_err (for_eff (batch_writes n b) (db_insert_tick ev)) d)"
proof -
  have each: "on_lsm DbLsm (insert_batch ev n b) d = on_lsm DbLsm (insert_each ev (batch_writes n b)) d"
    if "batch_rectangular b"
    using insert_batch_each [OF assms(1-3) that _ assms(6)] assms(5) that by (simp add: on_lsm_def)
  show ?thesis
    using each unfolding db_inserts_lsm
    by (auto simp: py_insert_numpy_def as_slice_def eff_simps bind_eff_def assms(4) batch_rectangular_def
        db_insert_batch_columns_def map_err_eff_def Let_def)
qed

definition example_array :: "'a list \<Rightarrow> 'a np_array" where
  "example_array xs = \<lparr>np_items = xs, np_contiguous = True\<rparr>"

definition example_db :: db where
  "example_db = \<lparr>db_path = ''d'', db_lsm = example_state\<rparr>"

theorem insert_numpy_rows_witness:
  "py_insert_numpy example_env ''A'' (example_array [5, 6]) (example_array [0, 0]) (example_array [0, 0]) (example_array [0, 0])
      (example_array [0, 0]) (example_array [1, 2]) example_db
    = map_err_eff db_err (for_eff (batch_writes ''A'' example_batch) (db_insert_tick example_env)) example_db \<and>
   py_insert_numpy example_env ''A'' (example_array [5, 6]) (example_array [0]) (example_array [0, 0]) (example_array [0, 0])
      (example_array [0, 0]) (example_array [1, 2]) example_db
    = (Err (PyErr PyValueError (Literal ''all arrays must have same length'')), example_db)"
proof
  show "py_insert_numpy example_env ''A'' (example_array [5, 6]) (example_array [0, 0]) (example_array [0, 0]) (example_array [0, 0])
      (example_array [0, 0]) (example_array [1, 2]) example_db
    = map_err_eff db_err (for_eff (batch_writes ''A'' example_batch) (db_insert_tick example_env)) example_db"
    by (subst insert_numpy_rows [where rs = "[]" and b = example_batch])
      (simp_all add: example_db_def example_array_def example_batch_def batch_len_def batch_rectangular_def)
  show "py_insert_numpy example_env ''A'' (example_array [5, 6]) (example_array [0]) (example_array [0, 0]) (example_array [0, 0])
      (example_array [0, 0]) (example_array [1, 2]) example_db
    = (Err (PyErr PyValueError (Literal ''all arrays must have same length'')), example_db)"
    by (subst insert_numpy_rows [where rs = "[]" and b = "example_batch\<lparr>b_opens := [0]\<rparr>"])
      (simp_all add: example_db_def example_array_def example_batch_def batch_len_def batch_rectangular_def)
qed

subsection \<open>Columns\<close>

text \<open>Reading the columns of a dictionary back as rows, as a client does.\<close>

definition column_of :: "(py_object \<Rightarrow> 'a option) \<Rightarrow> (string \<times> py_object) list \<Rightarrow> string \<Rightarrow> 'a list option" where
  "column_of f d k = (case map_of d k of Some (PyList xs) \<Rightarrow> those (map f xs) | _ \<Rightarrow> None)"

fun int_of_py :: "py_object \<Rightarrow> 64 word option" where
  "int_of_py (PyInt i) = Some (word_of_int i)"
| "int_of_py _ = None"

fun float_of_py :: "py_object \<Rightarrow> f64 option" where
  "float_of_py (PyFloat x) = Some x"
| "float_of_py _ = None"

fun string_of_py :: "py_object \<Rightarrow> string option" where
  "string_of_py (PyStr s) = Some s"
| "string_of_py _ = None"

definition rows_of_columns :: "(string \<times> py_object) list \<Rightarrow> result_row list option" where
  "rows_of_columns d =
     Option.bind (column_of int_of_py d ''timestamp'') (\<lambda>ts. Option.bind (column_of string_of_py d ''symbol'') (\<lambda>ns.
     Option.bind (column_of float_of_py d ''open'') (\<lambda>os. Option.bind (column_of float_of_py d ''high'') (\<lambda>hs.
     Option.bind (column_of float_of_py d ''low'') (\<lambda>ls. Option.bind (column_of float_of_py d ''close'') (\<lambda>cs.
     map_option (\<lambda>vs. map (\<lambda>i. \<lparr>rr_timestamp = ts ! i, rr_symbol = ns ! i, rr_open = os ! i, rr_high = hs ! i,
         rr_low = ls ! i, rr_close = cs ! i, rr_volume = vs ! i\<rparr>) [0 ..< length ts])
       (column_of int_of_py d ''volume'')))))))"

lemma those_map_Some: "(\<And>x. x \<in> set xs \<Longrightarrow> f (g x) = Some (h x)) \<Longrightarrow> those (map f (map g xs)) = Some (map h xs)"
  by (induction xs) auto

text \<open>
  The dictionary of columns a query returns to Python loses nothing: every column has as many
  entries as \<open>row_count\<close> says, and reading them back gives the rows of the result, integers and
  floating-point bits included; the columns handed to \<open>polars\<close> are the same.
\<close>

theorem columns_roundtrip:
  "\<exists>d. result_to_dict result = PyDict d \<and> rows_of_columns d = Some (qr_rows result) \<and>
    map_of d ''row_count'' = Some (PyInt (int (length (qr_rows result)))) \<and>
    rows_of_columns (py_columns (qr_rows result)) = Some (qr_rows result)"
proof -
  let ?rows = "qr_rows result"
  have t: "those (map int_of_py (map (\<lambda>r. py_i64 (rr_timestamp r)) ?rows)) = Some (map rr_timestamp ?rows)"
    "those (map int_of_py (map (\<lambda>r. py_u64 (rr_volume r)) ?rows)) = Some (map rr_volume ?rows)"
    "those (map string_of_py (map (\<lambda>r. PyStr (rr_symbol r)) ?rows)) = Some (map rr_symbol ?rows)"
    by (rule those_map_Some; simp add: py_i64_def py_u64_def)+
  have f: "those (map float_of_py (map (\<lambda>r. PyFloat (g r)) ?rows)) = Some (map g ?rows)" for g
    by (rule those_map_Some) simp
  have rows: "map (\<lambda>i. \<lparr>rr_timestamp = map rr_timestamp ?rows ! i, rr_symbol = map rr_symbol ?rows ! i,
      rr_open = map rr_open ?rows ! i, rr_high = map rr_high ?rows ! i, rr_low = map rr_low ?rows ! i,
      rr_close = map rr_close ?rows ! i, rr_volume = map rr_volume ?rows ! i\<rparr>) [0 ..< length ?rows] = ?rows"
    by (rule nth_equalityI) simp_all
  show ?thesis
    by (simp add: result_to_dict_def py_columns_def rows_of_columns_def column_of_def Let_def t f rows del: map_map)
qed

text \<open>A database with one tick, for the witnesses.\<close>

definition stored_dict :: symbol_dictionary where
  "stored_dict = fst (get_or_insert dict_new ''A'')"

lemma stored_dict_id: "get_id stored_dict ''A'' = Some 0"
  by (simp add: stored_dict_def get_or_insert_def get_id_def dict_new_def Let_def)

lemma example_stored:
  obtains mt where "sl_rep mt [example_tick 0 5]"
proof -
  obtain mt where "sl_rep mt (tick_insert (example_tick 0 5) [])"
    using sl.ins_rep [OF example_state_fields(3)] by blast
  then show ?thesis using that by simp
qed

definition stored_db :: "skip_list \<Rightarrow> db" where
  "stored_db mt = \<lparr>db_path = ''d'', db_lsm = example_state\<lparr>ls_memtable := mt, ls_symbol_dict := stored_dict\<rparr>\<rparr>"

lemma stored_db_fields [simp]:
  "ls_held (db_lsm (stored_db mt)) = []" "ls_memtable (db_lsm (stored_db mt)) = mt"
  "ls_symbol_dict (db_lsm (stored_db mt)) = stored_dict" "no_tables (db_lsm (stored_db mt))"
  using example_state_fields(6) by (simp_all add: stored_db_def no_tables_def)

lemma example_range: "is_name ''A''" "short_int 4" "short_int 7"
  by (simp_all add: is_name_def keyword_token_def char_class_defs short_int_def)

subsection \<open>Queries with \<open>polars\<close>\<close>

text \<open>
  What the code relies on in \<open>polars\<close>: the named parameters of \<^verbatim>\<open>DataFrame\<close>, and that a Python
  function raises \<^verbatim>\<open>TypeError\<close> when it is called with a keyword it has no parameter for.
\<close>

definition data_frame_parameters :: "string set" where
  "data_frame_parameters = {''data'', ''schema'', ''schema_overrides'', ''strict'', ''orient'',
     ''infer_schema_length'', ''nan_to_null'', ''height''}"

definition checks_keywords :: "string set \<Rightarrow> ((string \<times> py_object) list \<Rightarrow> (py_object, py_error) outcome) \<Rightarrow> bool" where
  "checks_keywords params f \<longleftrightarrow> (\<forall>kwargs. \<not> fst ` set kwargs \<subseteq> params \<longrightarrow> (\<exists>m. f kwargs = Err (PyErr PyTypeError m)))"

text \<open>
  C20. Where \<open>polars\<close> is installed no query returns rows to Python: the columns are passed as keyword
  arguments of \<^verbatim>\<open>DataFrame\<close>, which has no such parameters, so the call raises \<^verbatim>\<open>TypeError\<close> after the
  query has run; only plans come back, and without \<open>polars\<close> the dictionary of columns.
\<close>

theorem polars_query_raises:
  assumes "checks_keywords data_frame_parameters data_frame"
    and "db_query ev avx2 gql d = (Ok r, d')" and "qr_explain_plan r = None"
  shows "(\<exists>m. py_query ev avx2 (Some data_frame) gql d = (Err (PyErr PyTypeError m), d')) \<and>
    py_query ev avx2 None gql d = (Ok (result_to_dict r), d')"
proof -
  have "\<not> fst ` set (py_columns (qr_rows r)) \<subseteq> data_frame_parameters"
    by (simp add: py_columns_def data_frame_parameters_def Let_def)
  then obtain m where "data_frame (py_columns (qr_rows r)) = Err (PyErr PyTypeError m)"
    using assms(1) by (auto simp: checks_keywords_def)
  then show ?thesis
    using assms(2,3) by (simp add: py_query_def bind_eff_def map_err_eff_def lift_outcome_def result_to_polars_or_dict_def)
qed

definition example_polars :: "(string \<times> py_object) list \<Rightarrow> (py_object, py_error) outcome" where
  "example_polars kwargs = (if list_all (\<lambda>k. fst k \<in> data_frame_parameters) kwargs then Ok (PyForeign 0)
     else Err (PyErr PyTypeError (Literal ''unexpected keyword argument'')))"

theorem polars_query_raises_witness:
  "\<exists>mt m. py_query example_env True (Some example_polars) (range_text ''A'' 4 7) (stored_db mt)
    = (Err (PyErr PyTypeError m), stored_db mt)"
proof -
  obtain mt where mt: "sl_rep mt [example_tick 0 5]" by (rule example_stored)
  have c: "checks_keywords data_frame_parameters example_polars"
    by (auto simp: checks_keywords_def example_polars_def list_all_iff)
  obtain rows where "db_query_range example_env True ''A'' 4 7 (stored_db mt)
      = (Ok \<lparr>qr_rows = rows, qr_explain_plan = None\<rparr>, stored_db mt)"
    using query_range_run(1) [OF _ _ _ example_range, of "stored_db mt" "[example_tick 0 5]" 0] mt stored_dict_id
    by simp
  then have "db_query example_env True (range_text ''A'' 4 7) (stored_db mt)
      = (Ok \<lparr>qr_rows = rows, qr_explain_plan = None\<rparr>, stored_db mt)"
    by (simp add: db_query_range_def)
  from polars_query_raises [OF c this] show ?thesis by auto
qed

subsection \<open>Iterating over a stream\<close>

text \<open>\<^verbatim>\<open>for tick in stream\<close>: what \<^verbatim>\<open>__next__\<close> yields until it returns nothing.\<close>

inductive iterates :: "env \<Rightarrow> py_tick_stream \<Rightarrow> db \<Rightarrow> py_object list \<Rightarrow> db \<Rightarrow> bool" for ev where
  stop: "py_next ev it d = (Ok (None, it'), d') \<Longrightarrow> iterates ev it d [] d'"
| yield: "py_next ev it d = (Ok (Some x, it'), d') \<Longrightarrow> iterates ev it' d' xs d'' \<Longrightarrow> iterates ev it d (x # xs) d''"

lemma ensure_params: "ensure_sstable_batch load st s = (Ok st', s') \<Longrightarrow> ss_params st' = ss_params st"
  by (auto simp: ensure_sstable_batch_def load_next_sstable_batch_def bind_eff_def Let_def ret_def
      split: if_splits outcome.splits prod.splits option.splits)

lemma step_params: "stream_step st = Some (t, st') \<Longrightarrow> ss_params st' = ss_params st"
  by (auto simp: stream_step_def advance_memtable_def advance_sstable_def Let_def split: if_splits option.splits)

lemma next_params: "next_tick load st s = (Ok (t, st'), s') \<Longrightarrow> ss_params st' = ss_params st"
proof (induction load st s rule: next_tick.induct)
  case (1 load st s)
  obtain st1 s1 where e: "ensure_sstable_batch load st s = (Ok st1, s1)"
    using "1.prems" by (subst (asm) next_tick.simps) (auto split: prod.splits outcome.splits)
  show ?case
  proof (cases "stream_step st1")
    case None
    then show ?thesis using "1.prems" e ensure_params [OF e] by (subst (asm) next_tick.simps) simp
  next
    case (Some u)
    obtain v st2 where u: "u = (v, st2)" by fastforce
    show ?thesis
    proof (cases "ss_last_key st2 = Some (tick_key v)")
      case True
      then have "next_tick load st2 s1 = (Ok (t, st'), s')"
        using "1.prems" e Some u by (subst (asm) next_tick.simps) simp
      then show ?thesis using "1.IH" e Some u True ensure_params [OF e] step_params by fastforce
    next
      case False
      then show ?thesis using "1.prems" e Some u ensure_params [OF e] step_params
        by (subst (asm) next_tick.simps) fastforce
    qed
  qed
qed

lemma collect_iterates:
  assumes "collect_stream load st s = (Ok ts :: (tick list, lsm_error) outcome, s')"
    and "load = engine_loader ev (ss_params st)" "db_lsm d = s"
  shows "iterates ev \<lparr>pts_stream = st, pts_symbol = n\<rparr> d (map (tick_dict n) ts) (d\<lparr>db_lsm := s'\<rparr>)"
  using assms
proof (induction load st s arbitrary: ts d rule: collect_stream.induct)
  case (1 load st s)
  obtain t st1 s1 where nx: "next_tick load st s = (Ok (t, st1), s1)"
    using "1.prems"(1) by (subst (asm) collect_stream.simps) (auto split: prod.splits outcome.splits)
  have py: "py_next ev \<lparr>pts_stream = st, pts_symbol = n\<rparr> d
      = (Ok (map_option (tick_dict n) t, \<lparr>pts_stream = st1, pts_symbol = n\<rparr>), d\<lparr>db_lsm := s1\<rparr>)"
    using nx "1.prems"(2,3) by (simp add: py_next_def bind_eff_def map_err_eff_def on_lsm_def ret_def)
  show ?case
  proof (cases t)
    case None
    then have "ts = []" "s' = s1" using nx "1.prems"(1) by (subst (asm) collect_stream.simps, simp)+
    then show ?thesis using py None by (auto intro: iterates.stop)
  next
    case (Some u)
    then obtain us where us: "collect_stream load st1 s1 = (Ok us, s')" "ts = u # us"
      using nx "1.prems"(1) by (subst (asm) collect_stream.simps)
        (auto simp: bind_eff_def ret_def split: prod.splits outcome.splits)
    have "iterates ev \<lparr>pts_stream = st1, pts_symbol = n\<rparr> (d\<lparr>db_lsm := s1\<rparr>) (map (tick_dict n) us) (d\<lparr>db_lsm := s1\<rparr>\<lparr>db_lsm := s'\<rparr>)"
      by (rule "1.IH") (use nx us(1) Some next_params [OF nx] "1.prems"(2) in simp_all)
    then show ?thesis using py Some us(2) by (auto intro: iterates.yield)
  qed
qed

text \<open>A row as the dictionary the stream yields for it.\<close>

definition row_dict :: "result_row \<Rightarrow> py_object" where
  "row_dict r = PyDict [(''timestamp'', py_i64 (rr_timestamp r)), (''symbol'', PyStr (rr_symbol r)),
     (''open'', PyFloat (rr_open r)), (''high'', PyFloat (rr_high r)), (''low'', PyFloat (rr_low r)),
     (''close'', PyFloat (rr_close r)), (''volume'', py_u64 (rr_volume r))]"

lemma tick_dict_row: "tick_dict n t = row_dict (tick_to_row n t)"
  by (simp add: tick_dict_def row_dict_def tick_to_row_def)

text \<open>
  C19. Streaming and querying agree on a database without tables whose locks are free, without
  \<open>polars\<close>, for a known symbol whose name the query language can spell and for bounds below
  \<open>10\<^sup>1\<^sup>5\<close> in magnitude: iterating over \<open>scan_iter\<close> ends and has yielded the rows \<open>query_range\<close>
  returns as columns, in its order, each as a dictionary; neither changes the database.
\<close>

theorem scan_iter_yields_query:
  assumes "ls_held (db_lsm d) = []" and "sl_rep (ls_memtable (db_lsm d)) ts" and "no_tables (db_lsm d)"
    and "is_name n" "short_int t1" "short_int t2" and "get_id (ls_symbol_dict (db_lsm d)) n = Some i"
  shows "\<exists>it rows. py_scan_iter n t1 t2 d = (Ok it, d) \<and> iterates ev it d (map row_dict rows) d \<and>
    py_query_range ev avx2 None n t1 t2 d = (Ok (result_to_dict \<lparr>qr_rows = rows, qr_explain_plan = None\<rparr>), d)"
proof -
  let ?ts = "filter (scan_wants (Some i) t1 t2) ts"
  have "scan_symbol_id (Some n) (db_lsm d) = (Ok (Some i), db_lsm d)"
    using assms(1,7) by (simp add: scan_symbol_id_run)
  from collect_scan_run [OF assms(1-3) this, of t1 t2 column_all ev]
  obtain st where st: "lsm_scan_stream (Some n) t1 t2 column_all (db_lsm d) = (Ok st, db_lsm d)"
    "collect_stream (engine_loader ev (ss_params st)) st (db_lsm d)
      = (Ok ?ts :: (tick list, lsm_error) outcome, db_lsm d)" .
  have "iterates ev \<lparr>pts_stream = st, pts_symbol = n\<rparr> d (map row_dict (map (tick_to_row n) ?ts)) d"
  proof -
    have eq: "map row_dict (map (tick_to_row n) ?ts) = map (tick_dict n) ?ts" by (simp add: tick_dict_row)
    show ?thesis unfolding eq using collect_iterates [OF st(2) refl refl, of n] by simp
  qed
  moreover have "py_scan_iter n t1 t2 d = (Ok \<lparr>pts_stream = st, pts_symbol = n\<rparr>, d)"
    using st(1) by (simp add: py_scan_iter_def db_scan_stream_def on_lsm_def bind_eff_def map_err_eff_def ret_def)
  moreover have "py_query_range ev avx2 None n t1 t2 d
      = (Ok (result_to_dict \<lparr>qr_rows = map (tick_to_row n) ?ts, qr_explain_plan = None\<rparr>), d)"
    using query_range_run(1) [OF assms, of ev avx2]
    by (simp add: py_query_range_def bind_eff_def map_err_eff_def lift_outcome_def result_to_polars_or_dict_def)
  ultimately show ?thesis by blast
qed

theorem scan_iter_yields_query_witness:
  "\<exists>mt it rows. iterates example_env it (stored_db mt) (map row_dict rows) (stored_db mt) \<and>
    py_query_range example_env True None ''A'' 4 7 (stored_db mt)
      = (Ok (result_to_dict \<lparr>qr_rows = rows, qr_explain_plan = None\<rparr>), stored_db mt)"
proof -
  obtain mt where "sl_rep mt [example_tick 0 5]" by (rule example_stored)
  then show ?thesis
    using scan_iter_yields_query [OF _ _ _ example_range, of "stored_db mt" "[example_tick 0 5]" 0 example_env True]
      stored_dict_id by (simp; blast)
qed

end
