(* ===== verification/Server.thy ===== *)
theory Server
  imports Db
begin

text \<open>
  \<^verbatim>\<open>graphite-server/src/main.rs\<close>: the handlers of the HTTP and WebSocket server, the push of log
  entries to replicas and one round of a replica's pull loop.  Requests arrive decoded and
  responses leave undecoded, since JSON and the transport are crates; the network is a function
  of the URL.  A request runs on its own; the tasks the server spawns are steps of their own.
\<close>

definition NEVER_PUSHED :: u64 where "NEVER_PUSHED = - 1"

record app_state =
  sv_db :: db
  sv_role :: node_role
  sv_primary_url :: "string option"
  sv_replica_urls :: "string list"
  sv_last_pushed_seq :: u64

record tick_payload =
  tp_symbol :: string
  tp_timestamp :: i64
  tp_open :: f64
  tp_high :: f64
  tp_low :: f64
  tp_close :: f64
  tp_volume :: u64

text \<open>The error text of a response, by what it is the text of.\<close>

datatype response_error = ReplicaCannotWrite | DbErrorText db_error | BadJson

record tick_response =
  tr_ok :: bool
  tr_error :: "response_error option"

record health_response =
  hr_role :: node_role
  hr_total_rows :: u64

record wal_query =
  wq_after :: "u64 option"
  wq_limit :: nat

definition default_limit :: nat where "default_limit = 500"

record wal_stream_response =
  ws_entries :: "replication_entry list"
  ws_wal_sequence :: u64

text \<open>\<open>ServerStatus\<close> is the status code a handler fails with; the others end \<open>push_to_replicas\<close>
  and \<open>main\<close>.\<close>

datatype server_error = ServerStatus nat | ServerDb db_error | SendFailed | InvalidRole string | PrimaryUrlMissing

type_synonym 'a server_eff = "(app_state, 'a, server_error) eff"

text \<open>\<^verbatim>\<open>match db.call() { Ok(x) => .., Err(e) => .. }\<close>.\<close>

definition match_db :: "'a db_eff \<Rightarrow> ('a \<Rightarrow> 'b server_eff) \<Rightarrow> (db_error \<Rightarrow> 'b server_eff) \<Rightarrow> 'b server_eff" where
  "match_db m ok err st = (case m (sv_db st) of
      (Ok x, d) \<Rightarrow> ok x (st\<lparr>sv_db := d\<rparr>)
    | (Err e, d) \<Rightarrow> err e (st\<lparr>sv_db := d\<rparr>)
    | (Panic, d) \<Rightarrow> (Panic, st\<lparr>sv_db := d\<rparr>)
    | (Deadlock, d) \<Rightarrow> (Deadlock, st\<lparr>sv_db := d\<rparr>))"

subsection \<open>Start\<close>

definition parse_role :: "string \<Rightarrow> (node_role, server_error) outcome" where
  "parse_role s = (if to_lowercase s = ''primary'' then Ok Primary
     else if to_lowercase s = ''replica'' then Ok Replica else Err (InvalidRole s))"

definition server_start :: "env \<Rightarrow> string \<Rightarrow> string \<Rightarrow> string option \<Rightarrow> string list \<Rightarrow>
    bytes \<Rightarrow> bytes option \<Rightarrow> world \<Rightarrow> (app_state, server_error) outcome" where
  "server_start ev path role_text primary_url replica_urls wal_file rep_file w =
     bind_outcome (parse_role role_text) (\<lambda>role.
     bind_outcome (map_err ServerDb (case role of
         Primary \<Rightarrow> db_open ev path wal_file rep_file w
       | Replica \<Rightarrow> db_open_replica ev path config_default wal_file rep_file w)) (\<lambda>d.
     if role = Replica \<and> primary_url = None then Err PrimaryUrlMissing
     else Ok \<lparr>sv_db = d, sv_role = role, sv_primary_url = primary_url, sv_replica_urls = replica_urls,
       sv_last_pushed_seq = NEVER_PUSHED\<rparr>))"

subsection \<open>Handlers\<close>

definition health :: "health_response server_eff" where
  "health st = match_db db_stats_of (\<lambda>stats. ret \<lparr>hr_role = sv_role st, hr_total_rows = ds_total_rows stats\<rparr>)
     (\<lambda>e. fail_with (ServerDb e)) st"

definition http_replication_status :: "replication_status server_eff" where
  "http_replication_status = match_db db_replication_status ret (\<lambda>e. fail_with (ServerDb e))"

definition replication_wal :: "env \<Rightarrow> wal_query \<Rightarrow> wal_stream_response server_eff" where
  "replication_wal ev q st =
     (if sv_role st \<noteq> Primary then (Err (ServerStatus 403), st)
      else match_db (db_read_wal_for_replication ev (wq_after q) (wq_limit q))
        (\<lambda>entries. match_db db_replication_status
           (\<lambda>status. ret \<lparr>ws_entries = entries, ws_wal_sequence = rs_wal_sequence status\<rparr>)
           (\<lambda>e. fail_with (ServerDb e)))
        (\<lambda>e. fail_with (ServerStatus 500)) st)"

definition replication_apply :: "env \<Rightarrow> replication_entry list \<Rightarrow> tick_response server_eff" where
  "replication_apply ev entries st =
     (if sv_role st \<noteq> Replica then (Err (ServerStatus 403), st)
      else match_db (db_apply_replication_batch ev entries)
        (\<lambda>_. ret \<lparr>tr_ok = True, tr_error = None\<rparr>)
        (\<lambda>e. ret \<lparr>tr_ok = False, tr_error = Some (DbErrorText e)\<rparr>) st)"

definition insert_payload :: "env \<Rightarrow> tick_payload \<Rightarrow> unit db_eff" where
  "insert_payload ev p = db_insert ev (tp_symbol p) (tp_timestamp p) (tp_open p) (tp_high p) (tp_low p) (tp_close p)
     (tp_volume p)"

text \<open>Whether a push is spawned.\<close>

definition schedule_replication_push :: "app_state \<Rightarrow> bool" where
  "schedule_replication_push st \<longleftrightarrow> \<not> (sv_replica_urls st = [] \<or> sv_role st \<noteq> Primary)"

text \<open>The status and the response of \<^verbatim>\<open>POST /tick\<close>, and whether a push follows.\<close>

definition http_insert_tick :: "env \<Rightarrow> tick_payload \<Rightarrow> (nat \<times> tick_response \<times> bool) server_eff" where
  "http_insert_tick ev p st =
     (if sv_role st \<noteq> Primary then (Ok (403, \<lparr>tr_ok = False, tr_error = Some ReplicaCannotWrite\<rparr>, False), st)
      else match_db (insert_payload ev p)
        (\<lambda>_. get_eff (\<lambda>s. (200, \<lparr>tr_ok = True, tr_error = None\<rparr>, schedule_replication_push s)))
        (\<lambda>e. ret (400, \<lparr>tr_ok = False, tr_error = Some (DbErrorText e)\<rparr>, False)) st)"

text \<open>The messages of a WebSocket: a text decodes to a payload or not.\<close>

datatype ws_message = WsText "tick_payload option" | WsClose | WsError | WsOther

definition ws_response :: "env \<Rightarrow> tick_payload option \<Rightarrow> (tick_response \<times> bool) server_eff" where
  "ws_response ev text st =
     (if sv_role st \<noteq> Primary then (Ok (\<lparr>tr_ok = False, tr_error = Some ReplicaCannotWrite\<rparr>, False), st)
      else case text of
        None \<Rightarrow> (Ok (\<lparr>tr_ok = False, tr_error = Some BadJson\<rparr>, False), st)
      | Some p \<Rightarrow> match_db (insert_payload ev p)
          (\<lambda>_. get_eff (\<lambda>s. (\<lparr>tr_ok = True, tr_error = None\<rparr>, schedule_replication_push s)))
          (\<lambda>e. ret (\<lparr>tr_ok = False, tr_error = Some (DbErrorText e)\<rparr>, False)) st)"

text \<open>The responses a socket is sent; \<open>send\<close> tells whether the sink takes one.\<close>

fun handle_socket :: "env \<Rightarrow> (tick_response \<Rightarrow> bool) \<Rightarrow> ws_message list \<Rightarrow> tick_response list server_eff" where
  "handle_socket ev send [] = ret []"
| "handle_socket ev send (m # ms) = (case m of
      WsText text \<Rightarrow> bind_eff (ws_response ev text) (\<lambda>(r, _).
        if send r then bind_eff (handle_socket ev send ms) (\<lambda>rs. ret (r # rs)) else ret [])
    | WsClose \<Rightarrow> ret [] | WsError \<Rightarrow> ret [] | WsOther \<Rightarrow> handle_socket ev send ms)"

subsection \<open>Replication between servers\<close>

definition trim_slashes :: "string \<Rightarrow> string" where
  "trim_slashes s = rev (dropWhile (\<lambda>c. c = CHR ''/'') (rev s))"

text \<open>A POST gives the status of the response, or nothing when sending fails.\<close>

type_synonym post = "string \<Rightarrow> replication_entry list \<Rightarrow> nat option"

fun post_all :: "post \<Rightarrow> replication_entry list \<Rightarrow> string list \<Rightarrow> unit server_eff" where
  "post_all net batch [] = ret ()"
| "post_all net batch (base # urls) = (case net (trim_slashes base @ ''/replication/apply'') batch of
      None \<Rightarrow> fail_with SendFailed | Some status \<Rightarrow> post_all net batch urls)"

definition push_to_replicas :: "env \<Rightarrow> post \<Rightarrow> unit server_eff" where
  "push_to_replicas ev net st =
     (let pushed = sv_last_pushed_seq st; after = (if pushed = NEVER_PUSHED then None else Some pushed) in
      match_db (db_read_wal_for_replication ev after 500) (\<lambda>entries.
        if entries = [] then ret ()
        else bind_eff (post_all net entries (sv_replica_urls st)) (\<lambda>_.
          upd_eff (\<lambda>s. s\<lparr>sv_last_pushed_seq := re_sequence (last entries)\<rparr>)))
        (\<lambda>e. fail_with (ServerDb e)) st)"

text \<open>A GET of the log: the status and, when it decodes, the body.\<close>

type_synonym fetch = "string \<Rightarrow> u64 option \<Rightarrow> (nat \<times> wal_stream_response option) option"

definition wal_url :: "string \<Rightarrow> string" where
  "wal_url primary = trim_slashes primary @ ''/replication/wal''"

definition is_success :: "nat \<Rightarrow> bool" where
  "is_success status \<longleftrightarrow> 200 \<le> status \<and> status < 300"

text \<open>One round of \<open>replica_sync_loop\<close>; the limit in the URL is 500.  An error of the apply is
  logged and dropped.\<close>

definition replica_sync_round :: "env \<Rightarrow> fetch \<Rightarrow> unit server_eff" where
  "replica_sync_round ev net st =
     bind_eff (lift_outcome (or_panic (sv_primary_url st))) (\<lambda>primary.
     match_db db_replication_last_applied (\<lambda>after.
       case net (wal_url primary) after of
         Some (status, Some body) \<Rightarrow>
           if is_success status \<and> ws_entries body \<noteq> []
           then match_db (db_apply_replication_batch ev (ws_entries body)) (\<lambda>_. ret ()) (\<lambda>e. ret ())
           else ret ()
       | _ \<Rightarrow> ret ())
       (\<lambda>e. fail_with (ServerDb e))) st"

text \<open>The primary's answer to the request of a replica, as the network carries it.\<close>

definition served_wal :: "env \<Rightarrow> app_state \<Rightarrow> fetch" where
  "served_wal ev st url after = (case fst (replication_wal ev \<lparr>wq_after = after, wq_limit = 500\<rparr> st) of
      Ok body \<Rightarrow> Some (200, Some body)
    | Err (ServerStatus code) \<Rightarrow> Some (code, None)
    | _ \<Rightarrow> None)"

end
