(* ===== verification/ServerCorrect.thy ===== *)
theory ServerCorrect
  imports Server DbCorrect
begin

text \<open>
  The server: what is posted to a primary reaches a replica by its pull loop, what a push does
  when replicas refuse it, and that a replica takes no writes from clients.
\<close>

subsection \<open>Posting ticks\<close>

definition payload_of :: "string \<Rightarrow> tick \<Rightarrow> tick_payload" where
  "payload_of n t = \<lparr>tp_symbol = n, tp_timestamp = t_timestamp t, tp_open = t_open t, tp_high = t_high t,
     tp_low = t_low t, tp_close = t_close t, tp_volume = t_volume t\<rparr>"

text \<open>A client that stops at the first request that is not answered with 200.\<close>

definition post_tick :: "env \<Rightarrow> string \<times> tick \<Rightarrow> unit server_eff" where
  "post_tick ev = (\<lambda>(n, t). bind_eff (http_insert_tick ev (payload_of n t)) (\<lambda>(code, _, _).
     if code = 200 then ret () else fail_with (ServerStatus code)))"

lemma insert_payload_lsm: "insert_payload ev (payload_of n t) = on_lsm DbLsm (lsm_insert ev n t)"
  using db_insert_tick_lsm [of ev n t] by (simp add: insert_payload_def payload_of_def db_insert_tick_def)

text \<open>The server with another engine state.\<close>

definition with_lsm :: "app_state \<Rightarrow> lsm \<Rightarrow> app_state" where
  "with_lsm st s = st\<lparr>sv_db := (sv_db st)\<lparr>db_lsm := s\<rparr>\<rparr>"

lemma with_lsm_simps [simp]:
  "db_lsm (sv_db (with_lsm st s)) = s" "sv_role (with_lsm st s) = sv_role st" "with_lsm (with_lsm st s) s' = with_lsm st s'"
  "sv_replica_urls (with_lsm st s) = sv_replica_urls st" "sv_primary_url (with_lsm st s) = sv_primary_url st"
  "sv_last_pushed_seq (with_lsm st s) = sv_last_pushed_seq st" "with_lsm st (db_lsm (sv_db st)) = st"
  "with_lsm (st\<lparr>sv_last_pushed_seq := n\<rparr>) s = (with_lsm st s)\<lparr>sv_last_pushed_seq := n\<rparr>"
  "st\<lparr>sv_db := (sv_db st)\<lparr>db_lsm := s\<rparr>\<rparr> = with_lsm st s"
  by (simp_all add: with_lsm_def)

lemma match_db_run:
  "m (db_lsm (sv_db st)) = (Ok x, s) \<Longrightarrow> match_db (on_lsm f m) ok err st = ok x (with_lsm st s)"
  "m (db_lsm (sv_db st)) = (Err e, s) \<Longrightarrow> match_db (on_lsm f m) ok err st = err (f e) (with_lsm st s)"
  by (simp_all add: match_db_def on_lsm_def)

lemma posts_run:
  assumes "sv_role st = Primary" "insert_each ev ws (db_lsm (sv_db st)) = (Ok (), s')"
  shows "for_eff ws (post_tick ev) st = (Ok (), with_lsm st s')"
  using assms
proof (induction ws arbitrary: st)
  case Nil
  then show ?case by (auto simp: insert_each_def ret_def)
next
  case (Cons w ws)
  obtain n t where w: "w = (n, t)" by fastforce
  obtain s1 where s1: "lsm_insert ev n t (db_lsm (sv_db st)) = (Ok (), s1)" "insert_each ev ws s1 = (Ok (), s')"
    using Cons.prems(2) w
    by (auto simp: insert_each_def bind_eff_def split: prod.splits outcome.splits)
  have "post_tick ev w st = (Ok (), with_lsm st s1)"
    using Cons.prems(1)
    by (simp add: match_db_run(1) [where m = "lsm_insert ev n t", OF s1(1)] w post_tick_def http_insert_tick_def insert_payload_lsm bind_eff_def get_eff_def ret_def)
  moreover have "for_eff ws (post_tick ev) (with_lsm st s1) = (Ok (), with_lsm st s')"
    using Cons.IH [of "with_lsm st s1"] Cons.prems(1) s1(2) by simp
  ultimately show ?case by (simp add: bind_eff_def)
qed

subsection \<open>Starting\<close>

lemma start_primary:
  assumes "server_start ev path ''primary'' url urls [] None w = Ok st" "no_sst_files w"
  shows "fresh_open ev path config_default w (db_lsm (sv_db st))" "sv_role st = Primary" "sv_replica_urls st = urls"
    "sv_last_pushed_seq st = NEVER_PUSHED"
proof -
  have "parse_role ''primary'' = Ok Primary" by (simp add: parse_role_def char_class_defs)
  then show "fresh_open ev path config_default w (db_lsm (sv_db st))" "sv_role st = Primary" "sv_replica_urls st = urls"
    "sv_last_pushed_seq st = NEVER_PUSHED"
    using assms
    by (cases "lsm_open ev path config_default [] None w";
        auto simp: server_start_def db_open_def db_open_with_config_def fresh_open_def config_default_def)+
qed

lemma start_replica:
  assumes "server_start ev path ''replica'' url urls [] None w = Ok st" "no_sst_files w"
  shows "fresh_open ev path (config_default\<lparr>node_role_cfg := Replica\<rparr>) w (db_lsm (sv_db st))" "sv_role st = Replica"
    "\<exists>u. sv_primary_url st = Some u"
proof -
  have "parse_role ''replica'' = Ok Replica" by (simp add: parse_role_def char_class_defs)
  then show "fresh_open ev path (config_default\<lparr>node_role_cfg := Replica\<rparr>) w (db_lsm (sv_db st))" "sv_role st = Replica"
    "\<exists>u. sv_primary_url st = Some u"
    using assms
    by (cases "lsm_open ev path (config_default\<lparr>node_role_cfg := Replica\<rparr>) [] None w";
        auto simp: server_start_def db_open_replica_def db_open_with_config_def fresh_open_def config_default_def split: if_splits)+
qed

text \<open>The state of a primary after posts.\<close>

lemma primary_after_posts:
  assumes "server_start ev path ''primary'' url urls [] None w = Ok P" "no_sst_files w"
    and "\<forall>(n, t) \<in> set ws. storable_tick ev t" "length ws < 10000"
  obtains p' d us where "for_eff ws (post_tick ev) P = (Ok (), with_lsm P p')"
    "insert_each ev ws (db_lsm (sv_db P)) = (Ok (), p')" "ls_held p' = []" "resolve_writes dict_new ws = (d, us)"
    "\<And>after limit. read_wal_for_replication ev after limit p'
      = (Ok (map (replication_entry_of d) (take limit (filter (feed_includes after) (wal_entries 0 (map WInsert us))))), p')"
proof -
  note P = start_primary [OF assms(1,2)]
  have c: "node_role_cfg config_default = Primary" "length ws < memtable_flush_threshold config_default"
    using assms(4) by (simp_all add: config_default_def MEMTABLE_FLUSH_THRESHOLD_def)
  obtain d us where d: "resolve_writes dict_new ws = (d, us)" by fastforce
  obtain mt0 mt where s0: "db_lsm (sv_db P) = fresh_lsm ev path config_default w mt0 empty_wal \<lparr>rt_file = None, rt_state = None\<rparr>"
    and i: "insert_each ev ws (db_lsm (sv_db P)) = (Ok (), after_writes ev d us mt (db_lsm (sv_db P)))"
    using fresh_writes [OF P(1) c(1) assms(3) c(2) d] by metis
  show ?thesis
    by (rule that [OF posts_run [OF P(2) i] i _ d primary_feed [OF P(1) c(1) assms(3) c(2) d i]]) (simp add: s0)
qed

lemma served_wal_run:
  assumes "sv_role st = Primary" "ls_held (db_lsm (sv_db st)) = []"
    and "read_wal_for_replication ev after 500 (db_lsm (sv_db st)) = (Ok entries, db_lsm (sv_db st))"
  shows "\<exists>body. served_wal ev st url after = Some (200, Some body) \<and> ws_entries body = entries"
proof -
  obtain status where s: "lsm_replication_status (db_lsm (sv_db st)) = (Ok status, db_lsm (sv_db st))"
    using assms(2) by (simp add: lsm_replication_status_def lsm_run)
  show ?thesis
    using assms(1)
    by (simp add: match_db_run(1) [where m = "read_wal_for_replication ev after 500", OF assms(3)]
        match_db_run(1) [where m = lsm_replication_status, OF s] served_wal_def replication_wal_def db_read_wal_for_replication_def db_replication_status_def ret_def)
qed

subsection \<open>Properties\<close>

text \<open>
  A replica server catches up: ticks posted to a new primary server are all answered with
  200, and one round of the pull loop of a new replica server, its requests answered by the
  primary's handler, makes every lookup on the replica have the outcome it has on the primary;
  a second round changes nothing.
\<close>

theorem pull_round_converges:
  assumes "server_start ev path ''primary'' url urls [] None w = Ok P" and "no_sst_files w"
    and "server_start ev' path' ''replica'' url' urls' [] None w' = Ok R" and "no_sst_files w'"
    and "ws \<noteq> []" and "length ws \<le> 500" and "rep_lossless (ev_rep ev')"
    and "\<forall>(n, t) \<in> set ws. storable_tick ev t \<and> storable_tick ev' t"
  shows "\<exists>P' R'. for_eff ws (post_tick ev) P = (Ok (), P') \<and>
    replica_sync_round ev' (served_wal ev P') R = (Ok (), R') \<and>
    (\<forall>n k. fst (db_get ev' n k (sv_db R')) = fst (db_get ev n k (sv_db P'))) \<and>
    replica_sync_round ev' (served_wal ev P') R' = (Ok (), R')"
proof -
  have st: "\<forall>(n, t) \<in> set ws. storable_tick ev t" "length ws < 10000" "length ws \<le> 65536"
    using assms(6,8) by auto
  obtain p' d us where P': "for_eff ws (post_tick ev) P = (Ok (), with_lsm P p')"
    "insert_each ev ws (db_lsm (sv_db P)) = (Ok (), p')" "ls_held p' = []" "resolve_writes dict_new ws = (d, us)"
    and feed: "\<And>after limit. read_wal_for_replication ev after limit p'
      = (Ok (map (replication_entry_of d) (take limit (filter (feed_includes after) (wal_entries 0 (map WInsert us))))), p')"
    using primary_after_posts [OF assms(1,2) st(1,2)] by blast
  let ?P = "with_lsm P p'"
  note P = start_primary [OF assms(1,2)] and R = start_replica [OF assms(3,4)]
  obtain u where u: "sv_primary_url R = Some u" using R(3) by blast
  have us: "length us = length ws" using length_resolve [of dict_new ws] P'(4) by simp
  have c: "node_role_cfg config_default = Primary" "node_role_cfg (config_default\<lparr>node_role_cfg := Replica\<rparr>) = Replica"
    "length ws < memtable_flush_threshold config_default"
    "length ws < memtable_flush_threshold (config_default\<lparr>node_role_cfg := Replica\<rparr>)"
    using st(2) by (simp_all add: config_default_def MEMTABLE_FLUSH_THRESHOLD_def)
  obtain es r' where r: "read_wal_for_replication ev None 500 p' = (Ok es, p')"
    "apply_replication_batch ev' es (db_lsm (sv_db R)) = (Ok (of_nat (length ws)), r')"
    "\<And>n k. fst (lsm_get ev' n k r') = fst (lsm_get ev n k p')"
    "ls_held r' = []" "last_applied (ls_replication r') = Some (of_nat (length ws - 1))"
    using feed_converges [OF P(1) c(1) R(1) c(2) assms(5,8) c(3,4) st(3) assms(6,7) P'(2)] by blast
  have ne: "es \<noteq> []"
    using r(1) feed [of None 500] us assms(5) by (cases us) (auto simp: feed_includes_def)
  obtain mr0 where r0: "db_lsm (sv_db R) = fresh_lsm ev' path' (config_default\<lparr>node_role_cfg := Replica\<rparr>) w' mr0 empty_wal
      \<lparr>rt_file = None, rt_state = None\<rparr>"
    using lsm_create_run [of "config_default\<lparr>node_role_cfg := Replica\<rparr>" w' ev' path' "db_lsm (sv_db R)"] R(1)
    by (auto simp: fresh_open_def empty_wal_def)
  have a0: "replication_last_applied (db_lsm (sv_db R)) = (Ok None, db_lsm (sv_db R))"
    by (simp add: replication_last_applied_def lsm_run r0 last_applied_def)
  obtain body where b: "served_wal ev ?P (wal_url u) None = Some (200, Some body)" "ws_entries body = es"
    using served_wal_run [of ?P ev None es "wal_url u"] P(2) P'(3) r(1) by auto
  let ?R = "with_lsm R r'"
  have one: "replica_sync_round ev' (served_wal ev ?P) R = (Ok (), ?R)"
    using u b ne
    by (simp add: match_db_run(1) [where m = replication_last_applied, OF a0]
        match_db_run(1) [where m = "apply_replication_batch ev' es", OF r(2)] replica_sync_round_def bind_eff_def lift_outcome_def db_replication_last_applied_def
        db_apply_replication_batch_def is_success_def ret_def)
  let ?l = "of_nat (length ws - 1) :: u64"
  have a1: "replication_last_applied (db_lsm (sv_db ?R)) = (Ok (Some ?l), r')"
    using r(4,5) by (simp add: replication_last_applied_def lsm_run)
  have "unat ?l = length ws - 1" using st(3) by (intro unat_of_nat_u64) simp
  then have "filter (feed_includes (Some ?l)) (wal_entries 0 (map WInsert us)) = []"
    using us assms(5) by (intro feed_beyond) simp
  then have "read_wal_for_replication ev (Some ?l) 500 p' = (Ok [], p')" using feed [of "Some ?l" 500] by simp
  then obtain body' where b': "served_wal ev ?P (wal_url u) (Some ?l) = Some (200, Some body')" "ws_entries body' = []"
    using served_wal_run [of ?P ev "Some ?l" "[]" "wal_url u"] P(2) P'(3) by auto
  have two: "replica_sync_round ev' (served_wal ev ?P) ?R = (Ok (), ?R)"
    using u b'
    by (simp add: match_db_run(1) [where m = replication_last_applied, OF a1] replica_sync_round_def bind_eff_def lift_outcome_def db_replication_last_applied_def is_success_def ret_def)
  have "fst (db_get ev' n k (sv_db ?R)) = fst (db_get ev n k (sv_db ?P))" for n k
    using r(3) [of n k] by (simp add: db_get_def on_lsm_def split_beta)
  then show ?thesis using P'(1) one two by blast
qed

lemma example_primary:
  "\<exists>P. server_start example_env ''d'' ''primary'' None [''u''] [] None example_world = Ok P"
  using example_fresh
  by (auto simp: server_start_def parse_role_def char_class_defs db_open_def db_open_with_config_def fresh_open_def)

lemma example_replica_server:
  "\<exists>R. server_start example_env ''e'' ''replica'' (Some ''u'') [] [] None example_world = Ok R"
  using example_replica
  by (auto simp: server_start_def parse_role_def char_class_defs db_open_replica_def db_open_with_config_def fresh_open_def)

lemma example_ticks:
  "no_sst_files example_world" "rep_lossless (ev_rep example_env)"
  by (simp_all add: no_sst_files_def example_world_def example_env_def)

theorem pull_round_converges_witness:
  "\<exists>P' R R'. replica_sync_round example_env (served_wal example_env P') R = (Ok (), R') \<and>
    fst (db_get example_env ''A'' 5 (sv_db R')) = fst (db_get example_env ''A'' 5 (sv_db P'))"
proof -
  obtain P where P: "server_start example_env ''d'' ''primary'' None [''u''] [] None example_world = Ok P"
    using example_primary by blast
  obtain R where R: "server_start example_env ''e'' ''replica'' (Some ''u'') [] [] None example_world = Ok R"
    using example_replica_server by blast
  from pull_round_converges [OF P example_ticks(1) R example_ticks(1) _ _ example_ticks(2), of "[(''A'', example_tick 9 5)]"]
  show ?thesis by simp blast
qed

text \<open>
  C13. A push counts as delivered whatever the replicas answer: in the first push of a new primary
  with 1 to 500 posts, when every POST gets a response, of any status, the entries are marked as pushed and no later push sends them again.
\<close>

theorem push_ignores_refusals:
  assumes "server_start ev path ''primary'' url urls [] None w = Ok P" and "no_sst_files w"
    and "\<forall>(n, t) \<in> set ws. storable_tick ev t" and "ws \<noteq> []" and "length ws \<le> 500"
    and "\<forall>u b. net u b \<noteq> None"
  shows "\<exists>P' P''. for_eff ws (post_tick ev) P = (Ok (), P') \<and>
    push_to_replicas ev net P' = (Ok (), P'') \<and> sv_last_pushed_seq P'' = of_nat (length ws - 1) \<and>
    (\<forall>net'. push_to_replicas ev net' P'' = (Ok (), P''))"
proof -
  have room: "length ws < 10000" using assms(5) by simp
  obtain p' d us where P': "for_eff ws (post_tick ev) P = (Ok (), with_lsm P p')"
    "insert_each ev ws (db_lsm (sv_db P)) = (Ok (), p')" "ls_held p' = []" "resolve_writes dict_new ws = (d, us)"
    and feed: "\<And>after limit. read_wal_for_replication ev after limit p'
      = (Ok (map (replication_entry_of d) (take limit (filter (feed_includes after) (wal_entries 0 (map WInsert us))))), p')"
    using primary_after_posts [OF assms(1-3) room] by blast
  have us: "length us = length ws" using length_resolve [of dict_new ws] P'(4) by simp
  have nus: "us \<noteq> []" using us assms(4) by auto
  define l where l_def: "l = (of_nat (length ws - 1) :: u64)"
  let ?P = "with_lsm P p'"
  let ?es = "map (replication_entry_of d) (wal_entries 0 (map WInsert us))"
  let ?Q = "?P\<lparr>sv_last_pushed_seq := l\<rparr>"
  have all: "filter (feed_includes None) es = es" for es by (simp add: feed_includes_def)
  have r: "read_wal_for_replication ev None 500 (db_lsm (sv_db ?P)) = (Ok ?es, p')"
    using feed [of None 500] us assms(5) by (simp add: all length_wal_entries)
  have ne: "wal_entries 0 (map WInsert us) \<noteq> []" using nus by (cases us) auto
  have last_l: "re_sequence (last ?es) = l"
    using last_wal_entries [of "map WInsert us" 0] nus ne us
    by (simp add: l_def last_map replication_entry_of_def split_beta)
  have sent: "post_all net b us' st = (Ok (), st)" for b us' st
  proof (induction us')
    case (Cons a us')
    obtain y where "net (trim_slashes a @ ''/replication/apply'') b = Some y" using assms(6) by blast
    then show ?case using Cons by simp
  qed (simp add: ret_def)
  have ul: "unat l = length ws - 1" unfolding l_def using assms(5) by (intro unat_of_nat_u64) simp
  have big: "unat NEVER_PUSHED = 18446744073709551615" by (simp add: NEVER_PUSHED_def unsigned_minus_1_eq_mask mask_eq_exp_minus_1)
  have nl: "l \<noteq> NEVER_PUSHED"
  proof
    assume e: "l = NEVER_PUSHED"
    have "18446744073709551615 = length ws - 1" using ul unfolding e big .
    then show False using assms(5) by linarith
  qed
  have one: "push_to_replicas ev net ?P = (Ok (), ?Q)"
    using start_primary(4) [OF assms(1,2)] ne last_l
    by (simp add: push_to_replicas_def Let_def db_read_wal_for_replication_def bind_eff_def sent upd_eff_def
        match_db_run(1) [where m = "read_wal_for_replication ev None 500", OF r])
  have two: "push_to_replicas ev net' ?Q = (Ok (), ?Q)" for net'
  proof -
    have "filter (feed_includes (Some l)) (wal_entries 0 (map WInsert us)) = []"
      using us ul assms(4) by (intro feed_beyond) simp
    then have r2: "read_wal_for_replication ev (Some l) 500 (db_lsm (sv_db ?Q)) = (Ok [], p')"
      using feed [of "Some l" 500] by simp
    have q: "with_lsm ?Q p' = ?Q" by simp
    have m: "match_db (db_read_wal_for_replication ev (Some l) 500) ok err ?Q = ok [] ?Q" for ok err
    proof -
      have "match_db (db_read_wal_for_replication ev (Some l) 500) ok err ?Q = ok [] (with_lsm ?Q p')"
        unfolding db_read_wal_for_replication_def by (rule match_db_run(1)) (rule r2)
      also note q
      finally show ?thesis .
    qed
    have "sv_last_pushed_seq ?Q = l" by simp
    then show ?thesis unfolding push_to_replicas_def Let_def using nl by (simp only: if_False m ret_def if_True refl)
  qed
  have "sv_last_pushed_seq ?Q = of_nat (length ws - 1)" by (simp add: l_def)
  with P'(1) one two show ?thesis by blast
qed

theorem push_ignores_refusals_witness:
  "\<exists>P' P''. push_to_replicas example_env (\<lambda>u b. Some 500) P' = (Ok (), P'') \<and>
    (\<forall>net'. push_to_replicas example_env net' P'' = (Ok (), P''))"
proof -
  obtain P where P: "server_start example_env ''d'' ''primary'' None [''u''] [] None example_world = Ok P"
    using example_primary by blast
  from push_ignores_refusals [OF P example_ticks(1), of "[(''A'', example_tick 9 5)]" "\<lambda>u b. Some 500"]
  show ?thesis by simp blast
qed

text \<open>
  Clients cannot write to a replica: a socket answers every message with an error and a post
  gets 403, and neither changes the server; a primary takes no entries from other servers.
\<close>

theorem roles_guard_writes:
  "(sv_role st = Replica \<longrightarrow> fst (http_insert_tick ev p st) = Ok (403, \<lparr>tr_ok = False, tr_error = Some ReplicaCannotWrite\<rparr>, False) \<and>
      snd (http_insert_tick ev p st) = st \<and>
      (\<exists>rs. handle_socket ev send ms st = (Ok rs, st) \<and> (\<forall>r \<in> set rs. \<not> tr_ok r))) \<and>
    (sv_role st = Primary \<longrightarrow> replication_apply ev es st = (Err (ServerStatus 403), st))"
proof -
  have "\<exists>rs. handle_socket ev send ms st = (Ok rs, st) \<and> (\<forall>r \<in> set rs. \<not> tr_ok r)" if "sv_role st = Replica"
  proof (induction ms)
    case (Cons m ms)
    then show ?case
      using that by (cases m) (auto simp: bind_eff_def ws_response_def ret_def)
  qed (simp add: ret_def)
  then show ?thesis by (auto simp: http_insert_tick_def replication_apply_def)
qed

theorem roles_guard_writes_witness:
  "\<exists>R. sv_role R = Replica \<and> snd (http_insert_tick example_env (payload_of ''A'' (example_tick 0 5)) R) = R"
proof -
  obtain R where R: "server_start example_env ''e'' ''replica'' (Some ''u'') [] [] None example_world = Ok R"
    using example_replica_server by blast
  have "sv_role R = Replica" by (rule start_replica(2) [OF R example_ticks(1)])
  then show ?thesis using roles_guard_writes by blast
qed

end
