(* ===== verification/Cluster.thy ===== *)
theory Cluster
  imports ServerCorrect
begin

text \<open>
  A primary server and a replica server together: clients post ticks to the primary, the replica
  runs rounds of its pull loop, and requests get lost; the steps come in any order.
\<close>

subsection \<open>Runs\<close>

text \<open>
  \<open>cluster_run ev ev' P0 R0 ws P R\<close>: from the servers \<open>P0\<close> and \<open>R0\<close> a run on which the ticks
  \<open>ws\<close> were posted leads to \<open>P\<close> and \<open>R\<close>.  A request is lost when there is no answer, or one that
  is no success.
\<close>

definition no_answer :: "fetch \<Rightarrow> bool" where
  "no_answer net \<longleftrightarrow> (\<forall>url after. case net url after of Some (code, Some body) \<Rightarrow> \<not> is_success code | _ \<Rightarrow> True)"

inductive cluster_run ::
  "env \<Rightarrow> env \<Rightarrow> app_state \<Rightarrow> app_state \<Rightarrow> (string \<times> tick) list \<Rightarrow> app_state \<Rightarrow> app_state \<Rightarrow> bool"
  for ev ev' P0 R0 where
  start: "cluster_run ev ev' P0 R0 [] P0 R0"
| posted: "cluster_run ev ev' P0 R0 ws P R \<Longrightarrow> post_tick ev w P = (Ok (), P') \<Longrightarrow>
    cluster_run ev ev' P0 R0 (ws @ [w]) P' R"
| pulled: "cluster_run ev ev' P0 R0 ws P R \<Longrightarrow> replica_sync_round ev' (served_wal ev P) R = (Ok (), R') \<Longrightarrow>
    cluster_run ev ev' P0 R0 ws P R'"
| lost: "cluster_run ev ev' P0 R0 ws P R \<Longrightarrow> no_answer net \<Longrightarrow> replica_sync_round ev' net R = (Ok (), R') \<Longrightarrow>
    cluster_run ev ev' P0 R0 ws P R'"

lemma for_eff_snoc: "for_eff (xs @ [x]) f s = (case for_eff xs f s of (Ok _, s') \<Rightarrow> f x s' | r \<Rightarrow> r)"
proof (induction xs arbitrary: s)
  case Nil
  then show ?case by (auto simp: bind_eff_def ret_def split: prod.split outcome.split)
next
  case (Cons y ys)
  then show ?case by (auto simp: bind_eff_def split: prod.split outcome.split)
qed

lemma run_posts: "cluster_run ev ev' P0 R0 ws P R \<Longrightarrow> for_eff ws (post_tick ev) P0 = (Ok (), P)"
  by (induction rule: cluster_run.induct) (auto simp: for_eff_snoc ret_def)

subsection \<open>Sequence numbers\<close>

lemma wal_entries_append:
  "wal_entries sq (rs @ qs) = wal_entries sq rs @ wal_entries (sq + of_nat (length rs)) qs"
  by (induction rs arbitrary: sq) (simp_all add: algebra_simps)

lemma take_wal_entries: "take n (wal_entries sq rs) = wal_entries sq (take n rs)"
  by (induction rs arbitrary: sq n) (simp_all add: take_Cons' )

lemma wal_entries_seq:
  "e \<in> set (wal_entries (of_nat m) rs) \<Longrightarrow> \<exists>i < length rs. fst e = of_nat (m + i)"
proof (induction rs arbitrary: m)
  case (Cons r rs)
  consider "e = (of_nat m, r)" | "e \<in> set (wal_entries (of_nat (Suc m)) rs)"
    using Cons.prems by (auto simp: add.commute)
  then show ?case
  proof cases
    case 1
    then show ?thesis by (intro exI [of _ 0]) simp
  next
    case 2
    then obtain i where "i < length rs" "fst e = of_nat (Suc m + i)" using Cons.IH by blast
    then show ?thesis by (intro exI [of _ "Suc i"]) simp
  qed
qed simp

text \<open>The position of a replica that has applied \<open>m\<close> entries.\<close>

definition position :: "nat \<Rightarrow> u64 option" where
  "position m = (if m = 0 then None else Some (of_nat (m - 1)))"

lemma unat_small: "n \<le> 65536 \<Longrightarrow> unat (of_nat n :: u64) = n"
  by (intro unat_of_nat_u64) simp

lemma feed_from:
  assumes "m \<le> length rs" "length rs \<le> 65536"
  shows "filter (feed_includes (position m)) (wal_entries 0 rs) = wal_entries (of_nat m) (drop m rs)"
proof (cases "m = 0")
  case True
  then show ?thesis by (simp add: position_def feed_includes_def)
next
  case False
  let ?l = "of_nat (m - 1) :: u64"
  have l: "unat ?l = m - 1" using assms by (intro unat_small) simp
  have "filter (feed_includes (Some ?l)) (wal_entries 0 (take m rs)) = []"
    using l False by (intro feed_beyond) simp
  moreover have "feed_includes (Some ?l) e" if e: "e \<in> set (wal_entries (of_nat m) (drop m rs))" for e
  proof -
    obtain i where i: "i < length (drop m rs)" "fst e = of_nat (m + i)" using wal_entries_seq [OF e] by blast
    then have "unat (fst e) = m + i" using assms by (simp del: of_nat_add add: unat_small)
    then show ?thesis using l False by (simp add: feed_includes_def word_less_nat_alt)
  qed
  ultimately show ?thesis
    using wal_entries_append [of 0 "take m rs" "drop m rs"] False assms(1)
    by (simp add: position_def min_absorb2)
qed

lemma last_sequence:
  assumes "rs \<noteq> []" "m + length rs \<le> 65536"
  shows "Max (fst ` set (wal_entries (of_nat m) rs)) = of_nat (m + length rs - 1)"
proof (rule Max_eqI)
  have u: "unat (of_nat (m + length rs - 1) :: u64) = m + length rs - 1" using assms(2) by (intro unat_small) simp
  fix x assume "x \<in> fst ` set (wal_entries (of_nat m) rs)"
  then obtain e where e: "e \<in> set (wal_entries (of_nat m) rs)" "x = fst e" by blast
  obtain i where i: "i < length rs" "fst e = of_nat (m + i)" using wal_entries_seq [OF e(1)] by blast
  then have "unat x = m + i" using e(2) assms(2) by (simp del: of_nat_add add: unat_small)
  then show "x \<le> of_nat (m + length rs - 1)" using u i(1) by (simp add: word_le_nat_alt)
next
  have "wal_entries (of_nat m) rs \<noteq> []" using assms(1) length_wal_entries by (metis length_0_conv)
  moreover have "fst (last (wal_entries (of_nat m) rs)) = of_nat (m + length rs - 1)"
    using last_wal_entries [OF assms(1), of "of_nat m"] assms(1) by (cases rs) simp_all
  ultimately show "of_nat (m + length rs - 1) \<in> fst ` set (wal_entries (of_nat m) rs)" by (metis imageI last_in_set)
qed simp


subsection \<open>A replica that has applied a list of writes\<close>

definition replica_holds :: "app_state \<Rightarrow> (string \<times> tick) list \<Rightarrow> bool" where
  "replica_holds R ys \<longleftrightarrow> (let r = db_lsm (sv_db R) in
     sv_role R = Replica \<and> sv_primary_url R \<noteq> None \<and> ls_held r = [] \<and> ls_role r = Replica \<and> no_tables r \<and>
     memtable_flush_threshold (ls_config r) = 10000 \<and>
     (\<exists>us. resolve_writes dict_new ys = (ls_symbol_dict r, us) \<and> sl_rep (ls_memtable r) (tick_insert_all [] us)))"

definition applied :: "app_state \<Rightarrow> u64 option" where
  "applied R = last_applied (ls_replication (db_lsm (sv_db R)))"

definition replica_at :: "app_state \<Rightarrow> (string \<times> tick) list \<Rightarrow> bool" where
  "replica_at R ys \<longleftrightarrow> replica_holds R ys \<and> applied R = position (length ys)"

lemma resolve_append:
  "resolve_writes d (xs @ ys) = (case resolve_writes d xs of (d1, us) \<Rightarrow> (case resolve_writes d1 ys of (d2, vs) \<Rightarrow> (d2, us @ vs)))"
  by (induction d xs rule: resolve_writes.induct) (auto split: prod.split)

lemma dict_len_resolve: "resolve_writes d ws = (d', us) \<Longrightarrow> dict_len d' \<le> dict_len d + length ws"
proof (induction d ws arbitrary: us rule: resolve_writes.induct)
  case (2 d n t ws)
  obtain d1 i where i: "get_or_insert d n = (d1, i)" by fastforce
  then have "dict_len d1 \<le> Suc (dict_len d)"
    by (auto simp: get_or_insert_def dict_len_def Let_def split: option.splits)
  moreover obtain us' where "resolve_writes d1 ws = (d', us')" using "2.prems" i by (auto split: prod.splits)
  ultimately show ?case using "2.IH" [OF i [symmetric]] by fastforce
qed simp

lemma resolve_new:
  assumes "resolve_writes dict_new ws = (d, us)" "length ws \<le> 2 ^ 16"
  shows "dict_inv d" "dict_len d \<le> length ws"
    "get_id d n = Some i \<Longrightarrow> last_write us (Key i k) = map_option (\<lambda>t. t\<lparr>t_symbol_id := i\<rparr>) (last_tick ws n k)"
  using resolve_spec [OF dict_inv_new _ assms(1)] dict_len_resolve [OF assms(1)] assms(2)
  by (simp_all add: dict_len_def dict_new_def)

text \<open>Symbols that have their ids keep them.\<close>

lemma resolve_again:
  assumes "resolve_writes d0 ws = (d1, us)" "dict_inv d0" "dict_len d0 + length ws \<le> 2 ^ 16"
    and "\<And>n i. get_id d1 n = Some i \<Longrightarrow> get_id d n = Some i"
  shows "resolve_writes d ws = (d, us)"
  using assms(1-3)
proof (induction ws arbitrary: d0 us)
  case (Cons w ws)
  obtain n t where w: "w = (n, t)" by fastforce
  obtain e i where e: "get_or_insert d0 n = (e, i)" by fastforce
  have "dict_len d0 < 2 ^ 16" using Cons.prems(3) by simp
  note one = get_or_insert_step [OF Cons.prems(2) this e]
  obtain us' where us: "us = t\<lparr>t_symbol_id := i\<rparr> # us'" "resolve_writes e ws = (d1, us')"
    using Cons.prems(1) e w by (auto split: prod.splits)
  have room: "dict_len e + length ws \<le> 2 ^ 16" using one(2) Cons.prems(3) by simp
  have "get_id d1 n = Some i" using resolve_spec [OF one(1) room us(2)] one(3) by blast
  then have "get_or_insert d n = (d, i)" using assms(4) by (simp add: get_or_insert_def get_id_def)
  then show ?case using Cons.IH [OF us(2) one(1) room] us(1) w by simp
qed simp

lemma resolve_prefix:
  assumes "resolve_writes dict_new ws = (d, us)" "length ws \<le> 2 ^ 16"
  obtains d2 where "resolve_writes dict_new (take j ws) = (d2, take j us)"
    "\<And>n i. get_id d2 n = Some i \<Longrightarrow> get_id d n = Some i"
proof -
  obtain d2 u2 where two: "resolve_writes dict_new (take j ws) = (d2, u2)" by fastforce
  obtain d3 u3 where three: "resolve_writes d2 (drop j ws) = (d3, u3)" by fastforce
  have all: "d3 = d" "us = u2 @ u3"
    using assms(1) two three resolve_append [of dict_new "take j ws" "drop j ws"] by simp_all
  have "length us = length ws" "length u2 = length (take j ws)"
    using length_resolve [of dict_new ws] length_resolve [of dict_new "take j ws"] assms(1) two by simp_all
  then have "u2 = take j us" using all(2) by (cases "j \<le> length ws") auto
  moreover have "get_id d n = Some i" if "get_id d2 n = Some i" for n i
  proof -
    have room: "length (take j ws) \<le> 2 ^ 16" using assms(2) by simp
    have "dict_len d2 + length (drop j ws) \<le> 2 ^ 16" using resolve_new(2) [OF two room] assms(2)
      by (simp add: min_def split: if_splits)
    then show ?thesis using resolve_spec [OF resolve_new(1) [OF two room] _ three] all(1) that by blast
  qed
  ultimately show ?thesis using two that by blast
qed

lemma replica_start:
  assumes "server_start ev path ''replica'' url urls [] None w = Ok R" "no_sst_files w"
  shows "replica_at R []"
proof -
  let ?config = "config_default\<lparr>node_role_cfg := Replica\<rparr>"
  note R = start_replica [OF assms]
  obtain mt where "db_lsm (sv_db R) = fresh_lsm ev path ?config w mt empty_wal \<lparr>rt_file = None, rt_state = None\<rparr>" "sl_rep mt []"
    using lsm_create_run [of ?config w ev path "db_lsm (sv_db R)"] R(1) by (auto simp: fresh_open_def empty_wal_def)
  then show ?thesis
    using R(2,3) by (auto simp: replica_at_def replica_holds_def applied_def last_applied_def position_def
        config_default_def MEMTABLE_FLUSH_THRESHOLD_def)
qed

text \<open>What a replica answers.\<close>

lemma replica_answers:
  assumes "replica_holds R ys" "resolve_writes dict_new ys = (d, us)" "length ys \<le> 2 ^ 16"
  shows "fst (db_get ev n k (sv_db R)) = map_err DbLsm (spec_get ys (\<lambda>n. the (get_id d n)) n k)"
  using assms(1,2) lsm_get_run [of "db_lsm (sv_db R)" "tick_insert_all [] us" ev n k] resolved_get [OF assms(2,3), of n k]
  by (auto simp: replica_holds_def Let_def db_get_def on_lsm_def)

subsection \<open>Rounds of the pull loop\<close>

lemma applied_run:
  assumes "replica_holds R ys"
  shows "match_db db_replication_last_applied ok err R = ok (applied R) R"
proof -
  have "replication_last_applied (db_lsm (sv_db R)) = (Ok (applied R), db_lsm (sv_db R))"
    using assms by (simp add: replica_holds_def replication_last_applied_def lsm_run Let_def applied_def)
  from match_db_run(1) [where m = replication_last_applied and ok = ok and err = err, OF this] show ?thesis
    unfolding db_replication_last_applied_def by simp
qed

lemma round_run:
  assumes "replica_holds R ys" "sv_primary_url R = Some u"
  shows "no_answer net \<Longrightarrow> replica_sync_round ev net R = (Ok (), R)"
    "net (wal_url u) (applied R) = Some (200, Some body) \<Longrightarrow> ws_entries body = [] \<Longrightarrow>
      replica_sync_round ev net R = (Ok (), R)"
    "net (wal_url u) (applied R) = Some (200, Some body) \<Longrightarrow> ws_entries body \<noteq> [] \<Longrightarrow>
      apply_replication_batch ev (ws_entries body) (db_lsm (sv_db R)) = (Ok x, r') \<Longrightarrow>
      replica_sync_round ev net R = (Ok (), with_lsm R r')"
proof -
  note m = applied_run [OF assms(1)]
  show "no_answer net \<Longrightarrow> replica_sync_round ev net R = (Ok (), R)"
    unfolding no_answer_def by (drule spec [of _ "wal_url u"], drule spec [of _ "applied R"])
      (use assms(2) in \<open>auto simp: replica_sync_round_def bind_eff_def lift_outcome_def m ret_def split: option.split\<close>)
  show "net (wal_url u) (applied R) = Some (200, Some body) \<Longrightarrow> ws_entries body = [] \<Longrightarrow>
      replica_sync_round ev net R = (Ok (), R)"
    using assms(2) by (simp add: replica_sync_round_def bind_eff_def lift_outcome_def m is_success_def ret_def)
  show "net (wal_url u) (applied R) = Some (200, Some body) \<Longrightarrow> ws_entries body \<noteq> [] \<Longrightarrow>
      apply_replication_batch ev (ws_entries body) (db_lsm (sv_db R)) = (Ok x, r') \<Longrightarrow>
      replica_sync_round ev net R = (Ok (), with_lsm R r')"
    using assms(2)
    by (simp add: m match_db_run(1) [where m = "apply_replication_batch ev (ws_entries body)"] replica_sync_round_def
        bind_eff_def lift_outcome_def db_apply_replication_batch_def is_success_def ret_def)
qed

lemma no_answer_run: "replica_at R ys \<Longrightarrow> no_answer net \<Longrightarrow> replica_sync_round ev net R = (Ok (), R)"
  by (metis round_run(1) option.exhaust replica_at_def replica_holds_def)

text \<open>What the primary serves to a replica that has applied \<open>m\<close> entries.\<close>

definition served_entries :: "symbol_dictionary \<Rightarrow> nat \<Rightarrow> tick list \<Rightarrow> replication_entry list" where
  "served_entries d m vs = map (replication_entry_of d) (wal_entries (of_nat m) (map WInsert vs))"

lemma served_entries_simps [simp]:
  "served_entries d m vs = [] \<longleftrightarrow> vs = []" "length (served_entries d m vs) = length vs"
  by (cases vs; simp add: served_entries_def) (simp add: served_entries_def length_wal_entries)

lemma primary_serves:
  assumes "server_start ev path ''primary'' url urls [] None w = Ok P0" "no_sst_files w"
    and "\<forall>(n, t) \<in> set ws. storable_tick ev t" "length ws < 10000"
    and "for_eff ws (post_tick ev) P0 = (Ok (), P)" "resolve_writes dict_new ws = (d, us)" "m \<le> length ws"
  obtains body where "served_wal ev P u (position m) = Some (200, Some body)"
    "ws_entries body = served_entries d m (take 500 (drop m us))"
    "read_wal_for_replication ev (position m) 500 (db_lsm (sv_db P))
      = (Ok (served_entries d m (take 500 (drop m us))), db_lsm (sv_db P))"
    "sv_replica_urls P = urls" "sv_last_pushed_seq P = NEVER_PUSHED"
proof -
  obtain p' where p: "P = with_lsm P0 p'" "ls_held p' = []"
    and feed: "\<And>after limit. read_wal_for_replication ev after limit p'
      = (Ok (map (replication_entry_of d) (take limit (filter (feed_includes after) (wal_entries 0 (map WInsert us))))), p')"
    using primary_after_posts [OF assms(1-4)] assms(5,6) by (metis Pair_inject)
  note P0 = start_primary [OF assms(1,2)]
  have us: "length us = length ws" using length_resolve [of dict_new ws] assms(6) by simp
  have read: "read_wal_for_replication ev (position m) 500 p' = (Ok (served_entries d m (take 500 (drop m us))), p')"
    using feed [of "position m" 500] feed_from [of m "map WInsert us"] us assms(4,7)
    by (simp add: take_wal_entries take_map drop_map served_entries_def)
  show ?thesis
    using served_wal_run [of P ev "position m" "served_entries d m (take 500 (drop m us))" u] p(1,2) read P0 that by auto
qed

text \<open>A replica that applies entries: it does not compare them with its position.\<close>

lemma apply_run:
  assumes "replica_holds R ys" "resolve_writes dict_new (ys @ new) = (d', um @ vs)" "length um = length ys"
    and "dict_inv d" "\<And>n i. get_id d' n = Some i \<Longrightarrow> get_id d n = Some i"
    and "\<forall>(n, t) \<in> set new. storable_tick ev t" "new \<noteq> []" "length ys + length new < 10000" "rep_lossless (ev_rep ev)"
    and "m + length new \<le> 10000"
  shows "\<exists>r'. apply_replication_batch ev (served_entries d m vs) (db_lsm (sv_db R)) = (Ok (of_nat (length new)), r') \<and>
    replica_holds (with_lsm R r') (ys @ new) \<and>
    applied (with_lsm R r') = Some (max (of_nat (m + length new - 1)) (last_primary_sequence (ls_replication (db_lsm (sv_db R)))))"
proof -
  let ?r = "db_lsm (sv_db R)"
  obtain u0 where r: "ls_held ?r = []" "ls_role ?r = Replica" "memtable_flush_threshold (ls_config ?r) = 10000"
    "resolve_writes dict_new ys = (ls_symbol_dict ?r, u0)" "sl_rep (ls_memtable ?r) (tick_insert_all [] u0)"
    using assms(1) by (auto simp: replica_holds_def Let_def)
  have "length u0 = length ys" using length_resolve [of dict_new ys] r(4) by simp
  then have v: "resolve_writes (ls_symbol_dict ?r) new = (d', vs)" "u0 = um"
    using assms(2,3) r(4) by (auto simp: resolve_append split: prod.splits)
  have vs: "length vs = length new" using length_resolve [of "ls_symbol_dict ?r" new] v(1) by simp
  have d: "dict_inv (ls_symbol_dict ?r)" "dict_len (ls_symbol_dict ?r) + length new \<le> 2 ^ 16"
    using resolve_new [OF r(4)] assms(8) by simp_all
  have res: "resolve_entries (served_entries d m vs) (?r\<lparr>ls_held := [(DictLock, WriteGuard)]\<rparr>)
      = (Ok vs, ?r\<lparr>ls_held := [(DictLock, WriteGuard)], ls_symbol_dict := d'\<rparr>)"
    unfolding served_entries_def using v(1) d assms(4,5) by (subst resolve_entries_feed [where ws = new and d = d']) simp_all
  have st: "\<forall>t \<in> set vs. storable_tick ev t"
    using resolve_storable [of new "storable_tick ev" "ls_symbol_dict ?r"] assms(6) v(1) by auto
  obtain mr where mr: "insert_all sl_insert (ls_memtable ?r) vs = Some mr" "sl_rep mr (tick_insert_all [] (um @ vs))"
    using sl.insert_all_rep [OF r(5), of vs] v(2) by auto
  have room: "length (tick_insert_all [] u0) + length vs < memtable_flush_threshold (ls_config ?r)"
    using length_insert_all_le [of "[]" u0] v(2) vs r(3) assms(3,8) by simp
  have ne: "vs \<noteq> []" using vs assms(7) by auto
  then have es: "served_entries d m vs \<noteq> []" by simp
  obtain tr where tr: "apply_replication_batch ev (served_entries d m vs) ?r
      = (Ok (of_nat (length vs)), (after_writes ev d' vs mr ?r)\<lparr>ls_replication := tr\<rparr>)"
    "last_applied tr = Some (max (Max (set (map re_sequence (served_entries d m vs)))) (last_primary_sequence (ls_replication ?r)))"
    using apply_batch_run [OF r(1,2,5) es res st mr(1) room assms(9)] by auto
  have "Max (set (map re_sequence (served_entries d m vs))) = of_nat (m + length new - 1)"
    using last_sequence [of "map WInsert vs" m] ne vs assms(10)
    by (simp add: image_image served_entries_def replication_entry_of_def split_beta)
  moreover have "replica_holds (with_lsm R ((after_writes ev d' vs mr ?r)\<lparr>ls_replication := tr\<rparr>)) (ys @ new)"
    using assms(1,2) mr(2) by (simp add: replica_holds_def Let_def no_tables_def)
  ultimately show ?thesis using tr vs by (simp add: applied_def)
qed

text \<open>One round takes the next entries, at most 500.\<close>

lemma last_primary_position: "applied R = position m \<Longrightarrow> last_primary_sequence (ls_replication (db_lsm (sv_db R))) = of_nat (m - 1)"
  by (simp add: applied_def last_applied_def last_primary_sequence_def position_def split: if_splits)

lemma pull_round:
  assumes "server_start ev path ''primary'' url urls [] None w = Ok P0" "no_sst_files w"
    and "\<forall>(n, t) \<in> set ws. storable_tick ev t \<and> storable_tick ev' t" "length ws < 10000" "rep_lossless (ev_rep ev')"
    and "for_eff ws (post_tick ev) P0 = (Ok (), P)" "replica_at R (take m ws)" "m \<le> length ws"
  shows "\<exists>R'. replica_sync_round ev' (served_wal ev P) R = (Ok (), R') \<and> replica_at R' (take (m + 500) ws)"
proof -
  have R: "replica_holds R (take m ws)" "applied R = position m"
    using assms(7,8) by (simp_all add: replica_at_def min_absorb2)
  obtain u where u: "sv_primary_url R = Some u" using R(1) by (auto simp: replica_holds_def Let_def)
  obtain d us where d: "resolve_writes dict_new ws = (d, us)" by fastforce
  have us: "length us = length ws" using length_resolve [of dict_new ws] d by simp
  have small: "length ws \<le> 2 ^ 16" using assms(4) by simp
  define new where "new = take 500 (drop m ws)"
  have split: "take (m + 500) ws = take m ws @ new" by (simp add: new_def take_add)
  have len: "m + length new < 10000" "length (take m ws) = m" using assms(4,8) by (simp_all add: new_def)
  obtain d2 where d2: "resolve_writes dict_new (take m ws @ new) = (d2, take m us @ take 500 (drop m us))"
    "\<And>n i. get_id d2 n = Some i \<Longrightarrow> get_id d n = Some i"
    using resolve_prefix [OF d small, of "m + 500"] unfolding split take_add [of m 500 us] by blast
  have st: "\<forall>(n, t) \<in> set ws. storable_tick ev t" "\<forall>(n, t) \<in> set new. storable_tick ev' t"
    using assms(3) by (auto simp: new_def dest!: in_set_takeD in_set_dropD)
  obtain body where b: "served_wal ev P (wal_url u) (applied R) = Some (200, Some body)"
    "ws_entries body = served_entries d m (take 500 (drop m us))"
    unfolding R(2) by (rule primary_serves [OF assms(1,2) st(1) assms(4,6) d assms(8), of "wal_url u"])
  show ?thesis
  proof (cases "new = []")
    case True
    then have "take 500 (drop m us) = []" using us by (simp add: new_def)
    then have "replica_sync_round ev' (served_wal ev P) R = (Ok (), R)"
      by (intro round_run(2) [OF R(1) u]) (use b in auto)
    then show ?thesis using assms(7) True split by auto
  next
    case False
    then have ne: "ws_entries body \<noteq> []" using us b(2) by (simp add: new_def)
    obtain r' where r': "apply_replication_batch ev' (ws_entries body) (db_lsm (sv_db R)) = (Ok (of_nat (length new)), r')"
      "replica_holds (with_lsm R r') (take m ws @ new)"
      "applied (with_lsm R r') = Some (max (of_nat (m + length new - 1)) (of_nat (m - 1)))"
      using apply_run [OF R(1) d2(1) _ resolve_new(1) [OF d small] d2(2) st(2) False _ assms(5), of m] us assms(8) len
      unfolding b(2) last_primary_position [OF R(2)] by auto
    have "(of_nat (m - 1) :: u64) \<le> of_nat (m + length new - 1)"
      using len(1) by (simp add: word_le_nat_alt unat_small del: of_nat_add of_nat_diff)
    then have "applied (with_lsm R r') = position (length (take m ws @ new))"
      using r'(3) False len(2) by (simp add: position_def max_def)
    moreover have "replica_sync_round ev' (served_wal ev P) R = (Ok (), with_lsm R r')"
      by (rule round_run(3) [where net = "served_wal ev P", OF R(1) u b(1) ne r'(1)])
    ultimately show ?thesis using r'(2) split by (auto simp: replica_at_def)
  qed
qed

subsection \<open>Properties\<close>

lemma run_replica:
  assumes "server_start ev path ''primary'' url urls [] None w = Ok P0" "no_sst_files w"
    and "server_start ev' path' ''replica'' url' urls' [] None w' = Ok R0" "no_sst_files w'"
    and "cluster_run ev ev' P0 R0 ws P R" "length ws < 10000" "rep_lossless (ev_rep ev')"
    and "\<forall>(n, t) \<in> set ws. storable_tick ev t \<and> storable_tick ev' t"
  shows "\<exists>m \<le> length ws. replica_at R (take m ws)"
  using assms(5,6,8)
proof (induction rule: cluster_run.induct)
  case start
  then show ?case using replica_start [OF assms(3,4)] by simp
next
  case (posted ws P R v P')
  then obtain m where "m \<le> length ws" "replica_at R (take m ws)" by auto
  then show ?case by (intro exI [of _ m]) simp
next
  case (pulled ws P R R')
  then obtain m where m: "m \<le> length ws" "replica_at R (take m ws)" by auto
  obtain R1 where R1: "replica_sync_round ev' (served_wal ev P) R = (Ok (), R1)" "replica_at R1 (take (m + 500) ws)"
    using pull_round [OF assms(1,2) _ _ assms(7) run_posts [OF pulled.hyps(1)] m(2,1)] pulled.prems by blast
  moreover have "take (min (m + 500) (length ws)) ws = take (m + 500) ws" by (simp add: min_def)
  ultimately have "replica_at R' (take (min (m + 500) (length ws)) ws)" using pulled.hyps(2) by simp
  then show ?case by (intro exI [of _ "min (m + 500) (length ws)"]) simp
next
  case (lost ws P R net R')
  then obtain m where m: "m \<le> length ws" "replica_at R (take m ws)" by auto
  then have "R' = R" using no_answer_run [OF m(2) lost.hyps(2)] lost.hyps(3) by simp
  then show ?case using m by blast
qed

lemma primary_answers:
  assumes "server_start ev path ''primary'' url urls [] None w = Ok P0" "no_sst_files w"
    and "\<forall>(n, t) \<in> set ws. storable_tick ev t" "length ws < 10000" "resolve_writes dict_new ws = (d, us)"
  shows "\<exists>P. for_eff ws (post_tick ev) P0 = (Ok (), P) \<and>
    (\<forall>n k. fst (db_get ev n k (sv_db P)) = map_err DbLsm (spec_get ws (\<lambda>n. the (get_id d n)) n k))"
proof -
  note P = start_primary [OF assms(1,2)]
  have c: "node_role_cfg config_default = Primary" "length ws < memtable_flush_threshold config_default"
    using assms(4) by (simp_all add: config_default_def MEMTABLE_FLUSH_THRESHOLD_def)
  let ?s = "db_lsm (sv_db P0)"
  obtain mt0 mt where s: "?s = fresh_lsm ev path config_default w mt0 empty_wal \<lparr>rt_file = None, rt_state = None\<rparr>"
    and mt: "sl_rep mt (tick_insert_all [] us)" "insert_each ev ws ?s = (Ok (), after_writes ev d us mt ?s)"
    using fresh_writes [OF P(1) c(1) assms(3) c(2) assms(5)] by metis
  have "fst (lsm_get ev n k (after_writes ev d us mt ?s)) = spec_get ws (\<lambda>n. the (get_id d n)) n k" for n k
    using lsm_get_run [of "after_writes ev d us mt ?s" "tick_insert_all [] us" ev n k] mt(1)
      resolved_get [OF assms(5), of n k] assms(4) by (simp add: s)
  then show ?thesis
    using posts_run [OF P(2) mt(2)] by (auto simp: db_get_def on_lsm_def split_beta)
qed

lemma answers_agree:
  assumes "server_start ev path ''primary'' url urls [] None w = Ok P0" "no_sst_files w"
    and "\<forall>(n, t) \<in> set ws. storable_tick ev t" "length ws < 10000" "replica_at R ws"
  shows "\<exists>P. for_eff ws (post_tick ev) P0 = (Ok (), P) \<and>
    (\<forall>n k. fst (db_get ev' n k (sv_db R)) = fst (db_get ev n k (sv_db P)))"
proof -
  obtain d us where d: "resolve_writes dict_new ws = (d, us)" by fastforce
  have R: "replica_holds R ws" using assms(5) by (simp add: replica_at_def)
  show ?thesis using primary_answers [OF assms(1-4) d] replica_answers [OF R d, of ev'] assms(4) by auto
qed

text \<open>
  C21. A replica is always a past primary: in every state of every run of a new primary server and
  a new replica server with fewer than 10000 posts, rounds of the pull loop and lost requests in
  any order, there is a moment of the past at which every lookup on the primary had the outcome it
  now has on the replica.
\<close>

theorem replica_is_past_primary:
  assumes "server_start ev path ''primary'' url urls [] None w = Ok P0" and "no_sst_files w"
    and "server_start ev' path' ''replica'' url' urls' [] None w' = Ok R0" and "no_sst_files w'"
    and "cluster_run ev ev' P0 R0 ws P R" and "length ws < 10000" and "rep_lossless (ev_rep ev')"
    and "\<forall>(n, t) \<in> set ws. storable_tick ev t \<and> storable_tick ev' t"
  shows "\<exists>m P'. m \<le> length ws \<and> for_eff (take m ws) (post_tick ev) P0 = (Ok (), P') \<and>
    (\<forall>n k. fst (db_get ev' n k (sv_db R)) = fst (db_get ev n k (sv_db P')))"
proof -
  obtain m where m: "m \<le> length ws" "replica_at R (take m ws)" using run_replica [OF assms] by blast
  have "\<forall>(n, t) \<in> set (take m ws). storable_tick ev t" using assms(8) by (auto dest: in_set_takeD)
  then show ?thesis using answers_agree [OF assms(1,2) _ _ m(2), of ev'] m(1) assms(6) by auto
qed

text \<open>A run for the witnesses: two posts, of which the replica has pulled the first, and a lost request.\<close>

definition example_posts :: "(string \<times> tick) list" where
  "example_posts = [(''A'', example_tick 9 5), (''B'', example_tick 9 5)]"

lemma example_posts_len: "length example_posts < 10000"
  by (simp add: example_posts_def)

lemma example_run:
  obtains P0 R0 P R where
    "server_start example_env ''d'' ''primary'' None [''u''] [] None example_world = Ok P0"
    "server_start example_env ''e'' ''replica'' (Some ''u'') [] [] None example_world = Ok R0"
    "cluster_run example_env example_env P0 R0 example_posts P R"
proof -
  obtain P0 where P0: "server_start example_env ''d'' ''primary'' None [''u''] [] None example_world = Ok P0"
    using example_primary by blast
  obtain R0 where R0: "server_start example_env ''e'' ''replica'' (Some ''u'') [] [] None example_world = Ok R0"
    using example_replica_server by blast
  have st: "\<forall>(n, t) \<in> set ws. storable_tick example_env t \<and> storable_tick example_env t"
    "\<forall>(n, t) \<in> set ws. storable_tick example_env t" for ws :: "(string \<times> tick) list" by auto
  obtain P where P: "for_eff example_posts (post_tick example_env) P0 = (Ok (), P)"
    by (rule primary_after_posts [OF P0 example_ticks(1) st(2) example_posts_len]) (rule that)
  then obtain P1 where P1: "post_tick example_env (''A'', example_tick 9 5) P0 = (Ok (), P1)"
    "post_tick example_env (''B'', example_tick 9 5) P1 = (Ok (), P)"
    by (auto simp: example_posts_def bind_eff_def ret_def split: prod.splits outcome.splits)
  let ?w = "[(''A'', example_tick 9 5)]"
  have run1: "cluster_run example_env example_env P0 R0 ?w P1 R0"
    using cluster_run.posted [OF cluster_run.start P1(1)] by simp
  obtain R1 where R1: "replica_sync_round example_env (served_wal example_env P1) R0 = (Ok (), R1)" "replica_at R1 (take 500 ?w)"
    using pull_round [OF P0 example_ticks(1) st(1) _ example_ticks(2) run_posts [OF run1], of R0 0]
      replica_start [OF R0 example_ticks(1)] by auto
  have "cluster_run example_env example_env P0 R0 (?w @ [(''B'', example_tick 9 5)]) P R1"
    using cluster_run.posted [OF cluster_run.pulled [OF run1 R1(1)] P1(2)] .
  moreover have "no_answer (\<lambda>_ _. None)" by (simp add: no_answer_def)
  ultimately have "cluster_run example_env example_env P0 R0 (?w @ [(''B'', example_tick 9 5)]) P R1"
    using no_answer_run [OF R1(2)] cluster_run.lost by blast
  then show ?thesis using that [OF P0 R0] by (simp add: example_posts_def)
qed

theorem replica_is_past_primary_witness:
  "\<exists>P0 R0 P R m P'. cluster_run example_env example_env P0 R0 example_posts P R \<and>
    for_eff (take m example_posts) (post_tick example_env) P0 = (Ok (), P') \<and>
    fst (db_get example_env ''A'' 5 (sv_db R)) = fst (db_get example_env ''A'' 5 (sv_db P'))"
proof -
  obtain P0 R0 P R where r: "server_start example_env ''d'' ''primary'' None [''u''] [] None example_world = Ok P0"
    "server_start example_env ''e'' ''replica'' (Some ''u'') [] [] None example_world = Ok R0"
    "cluster_run example_env example_env P0 R0 example_posts P R" by (rule example_run)
  show ?thesis
    using replica_is_past_primary [OF r(1) example_ticks(1) r(2) example_ticks(1) r(3) example_posts_len example_ticks(2)]
      example_storable r(3) by fast
qed

lemma pull_rounds:
  assumes "server_start ev path ''primary'' url urls [] None w = Ok P0" "no_sst_files w"
    and "\<forall>(n, t) \<in> set ws. storable_tick ev t \<and> storable_tick ev' t" "length ws < 10000" "rep_lossless (ev_rep ev')"
    and "for_eff ws (post_tick ev) P0 = (Ok (), P)" "replica_at R (take m ws)" "m \<le> length ws"
  shows "\<exists>R'. for_eff (replicate j ()) (\<lambda>_. replica_sync_round ev' (served_wal ev P)) R = (Ok (), R') \<and>
    replica_at R' (take (m + 500 * j) ws)"
  using assms(7,8)
proof (induction j arbitrary: R m)
  case 0
  then show ?case by (simp add: ret_def)
next
  case (Suc j)
  obtain R1 where R1: "replica_sync_round ev' (served_wal ev P) R = (Ok (), R1)" "replica_at R1 (take (m + 500) ws)"
    using pull_round [OF assms(1-6) Suc.prems] by blast
  let ?m = "min (m + 500) (length ws)"
  have "take ?m ws = take (m + 500) ws" by (simp add: min_def)
  then have "replica_at R1 (take ?m ws)" using R1(2) by simp
  from Suc.IH [OF this]
  obtain R' where R': "for_eff (replicate j ()) (\<lambda>_. replica_sync_round ev' (served_wal ev P)) R1 = (Ok (), R')"
    "replica_at R' (take (?m + 500 * j) ws)" by auto
  have "take (?m + 500 * j) ws = take (m + 500 * Suc j) ws" by (simp add: min_def add.assoc)
  then show ?case using R1(1) R' by (simp add: bind_eff_def)
qed

text \<open>
  C11. A replica catches up: from every state of every run of a new primary and a new replica with
  fewer than 10000 posts (the threshold of the memtable, so that neither flushes), however many
  requests were lost, twenty rounds of the pull loop whose requests are answered, each for at most
  500 entries, lead the replica to a state in which every lookup has the outcome it has on the
  primary; no round fails.
\<close>

theorem replica_catches_up:
  assumes "server_start ev path ''primary'' url urls [] None w = Ok P0" and "no_sst_files w"
    and "server_start ev' path' ''replica'' url' urls' [] None w' = Ok R0" and "no_sst_files w'"
    and "cluster_run ev ev' P0 R0 ws P R" and "length ws < 10000" and "rep_lossless (ev_rep ev')"
    and "\<forall>(n, t) \<in> set ws. storable_tick ev t \<and> storable_tick ev' t"
  shows "\<exists>R'. for_eff (replicate 20 ()) (\<lambda>_. replica_sync_round ev' (served_wal ev P)) R = (Ok (), R') \<and>
    (\<forall>n k. fst (db_get ev' n k (sv_db R')) = fst (db_get ev n k (sv_db P)))"
proof -
  obtain m where m: "m \<le> length ws" "replica_at R (take m ws)" using run_replica [OF assms] by blast
  note posts = run_posts [OF assms(5)]
  obtain R' where R': "for_eff (replicate 20 ()) (\<lambda>_. replica_sync_round ev' (served_wal ev P)) R = (Ok (), R')"
    "replica_at R' ws"
    using pull_rounds [OF assms(1,2,8,6,7) posts m(2,1), of 20] assms(6) by auto
  have "\<forall>(n, t) \<in> set ws. storable_tick ev t" using assms(8) by auto
  then show ?thesis using R' answers_agree [OF assms(1,2) _ assms(6) R'(2), of ev'] posts by auto
qed

theorem replica_catches_up_witness:
  "\<exists>P0 R0 P R R'. cluster_run example_env example_env P0 R0 example_posts P R \<and>
    for_eff (replicate 20 ()) (\<lambda>_. replica_sync_round example_env (served_wal example_env P)) R = (Ok (), R') \<and>
    fst (db_get example_env ''B'' 5 (sv_db R')) = fst (db_get example_env ''B'' 5 (sv_db P))"
proof -
  obtain P0 R0 P R where r: "server_start example_env ''d'' ''primary'' None [''u''] [] None example_world = Ok P0"
    "server_start example_env ''e'' ''replica'' (Some ''u'') [] [] None example_world = Ok R0"
    "cluster_run example_env example_env P0 R0 example_posts P R" by (rule example_run)
  obtain R' where "for_eff (replicate 20 ()) (\<lambda>_. replica_sync_round example_env (served_wal example_env P)) R = (Ok (), R')"
    "\<forall>n k. fst (db_get example_env n k (sv_db R')) = fst (db_get example_env n k (sv_db P))"
    using replica_catches_up [OF r(1) example_ticks(1) r(2) example_ticks(1) r(3) example_posts_len example_ticks(2)]
      example_storable by fast
  then show ?thesis using r(3) by blast
qed

subsection \<open>A batch that is sent again\<close>

lemma last_tick_append:
  "last_tick (xs @ ys) n k = (case last_tick ys n k of Some t \<Rightarrow> Some t | None \<Rightarrow> last_tick xs n k)"
  by (induction xs n k rule: last_tick.induct) (auto split: option.split)

lemma last_tick_name: "last_tick ws n k = Some t \<Longrightarrow> n \<in> fst ` set ws"
  by (induction ws n k rule: last_tick.induct) (auto split: option.splits if_splits)

lemma post_all_run:
  "(\<And>url. net url batch \<noteq> None) \<Longrightarrow> post_all net batch urls st = (Ok (), st)"
  "u \<in> set urls \<Longrightarrow> net (trim_slashes u @ ''/replication/apply'') batch = None \<Longrightarrow>
    post_all net batch urls st = (Err SendFailed, st)"
  by (induction urls) (auto simp: ret_def fail_with_def split: option.split)

lemma first_push:
  assumes "read_wal_for_replication ev None 500 (db_lsm (sv_db P)) = (Ok batch, db_lsm (sv_db P))"
    and "batch \<noteq> []" "sv_last_pushed_seq P = NEVER_PUSHED"
  shows "(\<And>url. net url batch \<noteq> None) \<Longrightarrow>
      push_to_replicas ev net P = (Ok (), P\<lparr>sv_last_pushed_seq := re_sequence (last batch)\<rparr>)"
    "u \<in> set (sv_replica_urls P) \<Longrightarrow> net (trim_slashes u @ ''/replication/apply'') batch = None \<Longrightarrow>
      push_to_replicas ev net P = (Err SendFailed, P)"
  using assms(2,3)
  by (simp_all add: push_to_replicas_def db_read_wal_for_replication_def bind_eff_def post_all_run upd_eff_def
      match_db_run(1) [where m = "read_wal_for_replication ev None 500", OF assms(1)])

text \<open>The primary's first entries applied once more.\<close>

lemma apply_again:
  assumes "replica_at R ws" "resolve_writes dict_new ws = (d, us)" "length ws < 9500" "ws \<noteq> []"
    and "\<forall>(n, t) \<in> set ws. storable_tick ev t" "rep_lossless (ev_rep ev)"
  shows "\<exists>r'. apply_replication_batch ev (served_entries d 0 (take 500 us)) (db_lsm (sv_db R)) = (Ok (of_nat (min 500 (length ws))), r') \<and>
    replica_holds (with_lsm R r') (ws @ take 500 ws) \<and> resolve_writes dict_new (ws @ take 500 ws) = (d, us @ take 500 us) \<and>
    applied (with_lsm R r') = position (length ws)"
proof -
  have R: "replica_holds R ws" "applied R = position (length ws)" using assms(1) by (simp_all add: replica_at_def)
  have small: "length ws \<le> 2 ^ 16" "length (take 500 ws) \<le> 2 ^ 16" using assms(3) by simp_all
  obtain d2 where d2: "resolve_writes dict_new (take 500 ws) = (d2, take 500 us)"
    "\<And>n i. get_id d2 n = Some i \<Longrightarrow> get_id d n = Some i" using resolve_prefix [OF assms(2) small(1), of 500] by blast
  have "dict_len dict_new + length (take 500 ws) \<le> 2 ^ 16" by (simp add: dict_len_def dict_new_def)
  note again = resolve_again [OF d2(1) dict_inv_new this d2(2)]
  have both: "resolve_writes dict_new (ws @ take 500 ws) = (d, us @ take 500 us)" using again assms(2) by (simp add: resolve_append)
  have us: "length us = length ws" using length_resolve [of dict_new ws] assms(2) by simp
  have st: "\<forall>(n, t) \<in> set (take 500 ws). storable_tick ev t" using assms(5) by (auto dest!: in_set_takeD)
  have new: "take 500 ws \<noteq> []" "length ws + length (take 500 ws) < 10000" "0 + length (take 500 ws) \<le> 10000" using assms(3,4) by simp_all
  have "(of_nat (0 + length (take 500 ws) - 1) :: u64) \<le> of_nat (length ws - 1)"
    using assms(3) by (simp add: word_le_nat_alt unat_small del: of_nat_diff)
  then have "Some (max (of_nat (0 + length (take 500 ws) - 1)) (of_nat (length ws - 1))) = position (length ws)"
    using assms(4) by (simp add: position_def max_def)
  then show ?thesis
    using apply_run [OF R(1) both us resolve_new(1) [OF assms(2) small(1)] _ st new(1,2) assms(6) new(3)] both
    unfolding last_primary_position [OF R(2)] by (auto simp: min.commute)
qed

lemma answers_again:
  assumes "server_start ev path ''primary'' url urls [] None w = Ok P0" "no_sst_files w"
    and "\<forall>(n, t) \<in> set ws. storable_tick ev t" "length ws < 9500" "for_eff ws (post_tick ev) P0 = (Ok (), P)"
    and "resolve_writes dict_new ws = (d, us)" "replica_holds R (ws @ take 500 ws)"
    and "resolve_writes dict_new (ws @ take 500 ws) = (d, vs)"
  shows "case last_tick (take 500 ws) n k of
       Some t \<Rightarrow> \<exists>i. fst (db_get ev' n k (sv_db R)) = Ok (Some (t\<lparr>t_symbol_id := i\<rparr>))
     | None \<Rightarrow> fst (db_get ev' n k (sv_db R)) = fst (db_get ev n k (sv_db P))"
proof -
  have small: "length ws < 10000" "length (ws @ take 500 ws) \<le> 2 ^ 16" using assms(4) by simp_all
  have R: "fst (db_get ev' n k (sv_db R)) = map_err DbLsm (spec_get (ws @ take 500 ws) (\<lambda>n. the (get_id d n)) n k)"
    using replica_answers [OF assms(7,8) small(2)] .
  have P: "fst (db_get ev n k (sv_db P)) = map_err DbLsm (spec_get ws (\<lambda>n. the (get_id d n)) n k)"
    using primary_answers [OF assms(1-3) small(1) assms(6)] assms(5) by auto
  have names: "fst ` set (ws @ take 500 ws) = fst ` set ws" by (auto dest: in_set_takeD)
  show ?thesis
    unfolding R P spec_get_def names last_tick_append
    using last_tick_name [of "take 500 ws" n k] by (force split: option.split dest: in_set_takeD)
qed

text \<open>
  C22. A batch that is sent again takes a replica back to older values, and nothing repairs it.
  The first push of a primary sends the first 500 entries of its log, and when one of the replicas
  cannot be reached the next push sends them again.  A replica that has caught up applies them
  once more: it then answers the ticks of these first posts, also where later posts replaced them.
  Its position has not moved, so the next round of the pull loop fetches nothing.  This is for
  fewer than 9500 posts, so that the memtables stay below their threshold.
\<close>

theorem resent_batch_regresses:
  assumes "server_start ev path ''primary'' url urls [] None w = Ok P0" and "no_sst_files w" and "urls \<noteq> []"
    and "server_start ev' path' ''replica'' url' urls' [] None w' = Ok R0" and "no_sst_files w'"
    and "ws \<noteq> []" and "length ws < 9500" and "rep_lossless (ev_rep ev')"
    and "\<forall>(n, t) \<in> set ws. storable_tick ev t \<and> storable_tick ev' t"
    and "for_eff ws (post_tick ev) P0 = (Ok (), P)"
    and "for_eff (replicate 20 ()) (\<lambda>_. replica_sync_round ev' (served_wal ev P)) R0 = (Ok (), R)"
  shows "\<exists>batch R'.
    push_to_replicas ev (\<lambda>u b. if b = batch then Some 200 else None) P
      = (Ok (), P\<lparr>sv_last_pushed_seq := re_sequence (last batch)\<rparr>) \<and>
    (\<forall>net. (\<exists>u \<in> set urls. net (trim_slashes u @ ''/replication/apply'') batch = None) \<longrightarrow>
      push_to_replicas ev net P = (Err SendFailed, P)) \<and>
    replication_apply ev' batch R = (Ok \<lparr>tr_ok = True, tr_error = None\<rparr>, R') \<and>
    replica_sync_round ev' (served_wal ev P) R' = (Ok (), R') \<and>
    (\<forall>n k. case last_tick (take 500 ws) n k of
       Some t \<Rightarrow> \<exists>i. fst (db_get ev' n k (sv_db R')) = Ok (Some (t\<lparr>t_symbol_id := i\<rparr>))
     | None \<Rightarrow> fst (db_get ev' n k (sv_db R')) = fst (db_get ev n k (sv_db P)))"
proof -
  have st: "\<forall>(n, t) \<in> set ws. storable_tick ev t" "\<forall>(n, t) \<in> set ws. storable_tick ev' t" using assms(9) by auto
  have small: "length ws < 10000" using assms(7) by simp
  obtain d us where d: "resolve_writes dict_new ws = (d, us)" by fastforce
  have us: "length us = length ws" using length_resolve [of dict_new ws] d by simp
  have R0: "replica_at R0 (take 0 ws)" using replica_start [OF assms(4,5)] by simp
  have R: "replica_at R ws"
    using pull_rounds [OF assms(1,2,9) small assms(8,10) R0, of 20] assms(11) small by simp
  obtain u where u: "sv_role R = Replica" "sv_primary_url R = Some u" using R by (auto simp: replica_at_def replica_holds_def Let_def)
  let ?batch = "served_entries d 0 (take 500 us)"
  obtain r' where r': "apply_replication_batch ev' ?batch (db_lsm (sv_db R)) = (Ok (of_nat (min 500 (length ws))), r')"
    "replica_holds (with_lsm R r') (ws @ take 500 ws)" "resolve_writes dict_new (ws @ take 500 ws) = (d, us @ take 500 us)"
    "applied (with_lsm R r') = position (length ws)"
    using apply_again [OF R d assms(7,6) st(2) assms(8)] by blast
  have "read_wal_for_replication ev (position 0) 500 (db_lsm (sv_db P)) = (Ok ?batch, db_lsm (sv_db P))"
    "sv_replica_urls P = urls" "sv_last_pushed_seq P = NEVER_PUSHED"
    by (rule primary_serves [OF assms(1,2) st(1) small assms(10) d, of 0]; simp)+
  note P = this
  have read: "read_wal_for_replication ev None 500 (db_lsm (sv_db P)) = (Ok ?batch, db_lsm (sv_db P))"
    using P(1) by (simp add: position_def)
  have ne: "?batch \<noteq> []" using us assms(6) by auto
  note push = first_push [OF read ne P(3)]
  have accepted: "replication_apply ev' ?batch R = (Ok \<lparr>tr_ok = True, tr_error = None\<rparr>, with_lsm R r')"
    by (simp add: replication_apply_def u db_apply_replication_batch_def ret_def
        match_db_run(1) [where m = "apply_replication_batch ev' ?batch", OF r'(1)])
  obtain body where b: "served_wal ev P (wal_url u) (applied (with_lsm R r')) = Some (200, Some body)" "ws_entries body = []"
    unfolding r'(4) by (rule primary_serves [OF assms(1,2) st(1) small assms(10) d, of "length ws" "wal_url u"])
      (use us in auto)
  have round: "replica_sync_round ev' (served_wal ev P) (with_lsm R r') = (Ok (), with_lsm R r')"
    by (rule round_run(2) [where net = "served_wal ev P", OF r'(2) _ b]) (simp add: u)
  note answers = answers_again [OF assms(1,2) st(1) assms(7,10) d r'(2,3)]
  show ?thesis
    using push P(2) accepted round answers by (intro exI [of _ ?batch] exI [of _ "with_lsm R r'"] conjI) auto
qed

definition example_reposts :: "(string \<times> tick) list" where
  "example_reposts = replicate 500 (''A'', example_tick 9 5) @ [(''A'', (example_tick 9 5)\<lparr>t_volume := 200\<rparr>)]"

lemma last_tick_replicate: "last_tick (replicate (Suc j) (n, t)) n (t_timestamp t) = Some t"
  by (induction j) simp_all

text \<open>The replica answers the volume 100, the primary 200.\<close>

theorem resent_batch_regresses_witness:
  "\<exists>P R0 R batch R' i j. for_eff (replicate 20 ()) (\<lambda>_. replica_sync_round example_env (served_wal example_env P)) R0 = (Ok (), R) \<and>
    replication_apply example_env batch R = (Ok \<lparr>tr_ok = True, tr_error = None\<rparr>, R') \<and>
    replica_sync_round example_env (served_wal example_env P) R' = (Ok (), R') \<and>
    fst (db_get example_env ''A'' 5 (sv_db R')) = Ok (Some (example_tick i 5)) \<and>
    fst (db_get example_env ''A'' 5 (sv_db P)) = Ok (Some ((example_tick j 5)\<lparr>t_volume := 200\<rparr>))"
proof -
  let ?ws = example_reposts
  let ?t = "(example_tick 9 5)\<lparr>t_volume := 200\<rparr>"
  obtain P0 where P0: "server_start example_env ''d'' ''primary'' None [''u''] [] None example_world = Ok P0"
    using example_primary by blast
  obtain R0 where R0: "server_start example_env ''e'' ''replica'' (Some ''u'') [] [] None example_world = Ok R0"
    using example_replica_server by blast
  have ws: "?ws \<noteq> []" "length ?ws < 9500" "length ?ws < 10000" by (simp_all add: example_reposts_def)
  have st: "\<forall>(n, t) \<in> set ?ws. storable_tick example_env t \<and> storable_tick example_env t"
    "\<forall>(n, t) \<in> set ?ws. storable_tick example_env t" by auto
  obtain d us where d: "resolve_writes dict_new ?ws = (d, us)" by fastforce
  obtain P where P: "for_eff ?ws (post_tick example_env) P0 = (Ok (), P)"
    "fst (db_get example_env ''A'' 5 (sv_db P)) = map_err DbLsm (spec_get ?ws (\<lambda>n. the (get_id d n)) ''A'' 5)"
    using primary_answers [OF P0 example_ticks(1) st(2) ws(3) d] by blast
  have start: "replica_at R0 (take 0 ?ws)" using replica_start [OF R0 example_ticks(1)] by simp
  obtain R where R: "for_eff (replicate 20 ()) (\<lambda>_. replica_sync_round example_env (served_wal example_env P)) R0 = (Ok (), R)"
    using pull_rounds [OF P0 example_ticks(1) st(1) ws(3) example_ticks(2) P(1) start, of 20] by auto
  have old: "last_tick (take 500 ?ws) ''A'' 5 = Some (example_tick 9 5)"
    using last_tick_replicate [of 499 "''A''" "example_tick 9 5"] by (simp add: example_reposts_def example_tick_def)
  have "last_tick ?ws ''A'' 5 = Some ?t" "''A'' \<in> fst ` set ?ws"
    by (simp_all add: example_reposts_def last_tick_append example_tick_def)
  then have new: "\<exists>j. fst (db_get example_env ''A'' 5 (sv_db P)) = Ok (Some ((example_tick j 5)\<lparr>t_volume := 200\<rparr>))"
    unfolding P(2) spec_get_def by (simp add: example_tick_def)
  obtain batch R' where b: "replication_apply example_env batch R = (Ok \<lparr>tr_ok = True, tr_error = None\<rparr>, R')"
    "replica_sync_round example_env (served_wal example_env P) R' = (Ok (), R')"
    "\<forall>n k. case last_tick (take 500 ?ws) n k of
       Some t \<Rightarrow> \<exists>i. fst (db_get example_env n k (sv_db R')) = Ok (Some (t\<lparr>t_symbol_id := i\<rparr>))
     | None \<Rightarrow> fst (db_get example_env n k (sv_db R')) = fst (db_get example_env n k (sv_db P))"
    using resent_batch_regresses [OF P0 example_ticks(1) _ R0 example_ticks(1) ws(1,2) example_ticks(2) st(1) P(1) R] by auto
  have "\<exists>i. fst (db_get example_env ''A'' 5 (sv_db R')) = Ok (Some (example_tick i 5))"
    using b(3) [rule_format, of "''A''" 5] unfolding old by (simp add: example_tick_def)
  then show ?thesis using R b(1,2) new by blast
qed

end
