(* ===== verification/Cli.thy ===== *)
theory Cli
  imports DbCorrect
begin

text \<open>
  \<^verbatim>\<open>graphite-cli/src/main.rs\<close>: the shell tool.  One run of the tool opens the directory, executes
  one command and ends.  What it prints is kept as data: the texts of numbers, plans and errors
  are those of their formatting traits.
\<close>

datatype command =
    CliInsert string i64 f64 f64 f64 f64 u64
  | CliQuery string bool
  | CliRange string i64 i64 bool
  | CliStats
  | CliCompact
  | CliCount string i64 i64

datatype output_line =
    LineError string db_error
  | LineOk
  | LinePlan string
  | LineRowCount nat
  | LineRow result_row
  | LineMoreRows nat
  | LineJson "result_row list"
  | LineStats db_stats
  | LineCompactionComplete
  | LineCount u64

datatype exit_code = ExitSuccess | ExitFailure

definition print_rows :: "result_row list \<Rightarrow> output_line list" where
  "print_rows rows = LineRowCount (length rows) # map LineRow (take 1000 rows) @
     (if length rows > 1000 then [LineMoreRows (length rows - 1000)] else [])"

definition print_json_rows :: "result_row list \<Rightarrow> output_line list" where
  "print_json_rows rows = [LineJson rows]"

text \<open>
  A command on the open database: what is printed, and the exit code.  \<open>CliStats\<close> has no error
  to report: \<^verbatim>\<open>stats\<close> is not fallible.
\<close>

definition match_result :: "'a db_eff \<Rightarrow> string \<Rightarrow> ('a \<Rightarrow> output_line list) \<Rightarrow> (exit_code \<times> output_line list) db_eff" where
  "match_result m what out d = (case m d of
      (Ok x, d') \<Rightarrow> (Ok (ExitSuccess, out x), d')
    | (Err e, d') \<Rightarrow> (Ok (ExitFailure, [LineError what e]), d')
    | (Panic, d') \<Rightarrow> (Panic, d') | (Deadlock, d') \<Rightarrow> (Deadlock, d'))"

definition print_result :: "bool \<Rightarrow> result_row list \<Rightarrow> output_line list" where
  "print_result json rows = (if json then print_json_rows rows else print_rows rows)"

definition run_command :: "env \<Rightarrow> bool \<Rightarrow> command \<Rightarrow> (exit_code \<times> output_line list) db_eff" where
  "run_command ev avx2 cmd = (case cmd of
      CliInsert symbol timestamp op high low cl volume \<Rightarrow>
        match_result (db_insert ev symbol timestamp op high low cl volume) ''insert failed'' (\<lambda>_. [LineOk])
    | CliQuery gql json \<Rightarrow>
        match_result (db_query ev avx2 gql) ''query failed'' (\<lambda>r. case qr_explain_plan r of
           Some plan \<Rightarrow> [LinePlan plan] | None \<Rightarrow> print_result json (qr_rows r))
    | CliRange symbol from_ts to_ts json \<Rightarrow>
        match_result (db_query_range ev avx2 symbol from_ts to_ts) ''range query failed'' (\<lambda>r. print_result json (qr_rows r))
    | CliStats \<Rightarrow> match_result db_stats_of ''stats'' (\<lambda>s. [LineStats s])
    | CliCompact \<Rightarrow> match_result (db_compact ev) ''compact failed'' (\<lambda>_. [LineCompactionComplete])
    | CliCount symbol from_ts to_ts \<Rightarrow>
        match_result (db_count_range ev symbol from_ts to_ts) ''count failed'' (\<lambda>n. [LineCount n]))"

text \<open>What is on disk between two runs: the log, the tracker's file and the directory.\<close>

type_synonym disk = "bytes \<times> bytes option \<times> world"

definition disk_of :: "db \<Rightarrow> disk" where
  "disk_of d = (w_file (ls_wal (db_lsm d)), rt_file (ls_replication (db_lsm d)), en_world (db_lsm d))"

definition cli_main :: "env \<Rightarrow> bool \<Rightarrow> string \<Rightarrow> command \<Rightarrow> disk \<Rightarrow> (exit_code \<times> output_line list, db_error) outcome \<times> disk" where
  "cli_main ev avx2 path cmd disk = (case disk of (wal_file, rep_file, w) \<Rightarrow>
     (case db_open ev path wal_file rep_file w of
        Ok d \<Rightarrow> (case run_command ev avx2 cmd d of (r, d') \<Rightarrow> (r, disk_of d'))
      | Err e \<Rightarrow> (Ok (ExitFailure, [LineError ''failed to open database'' e]), disk)
      | Panic \<Rightarrow> (Panic, disk) | Deadlock \<Rightarrow> (Deadlock, disk)))"

subsection \<open>Inserting and reading back\<close>

lemma query_range_unknown:
  assumes "ls_held (db_lsm d) = []" "sl_rep (ls_memtable (db_lsm d)) ts" "no_tables (db_lsm d)"
    and "is_name n" "short_int t1" "short_int t2" "get_id (ls_symbol_dict (db_lsm d)) n = None"
  shows "db_query_range ev avx2 n t1 t2 d = (Err (DbExec (ExecLsm (SymbolNotFound n))), d)"
    "db_count_range ev n t1 t2 d = (Err (DbLsm (SymbolNotFound n)), d)"
proof -
  have "execute ev avx2 (range_query n t1 t2) (db_lsm d) = (Err (ExecLsm (SymbolNotFound n)), db_lsm d)"
    using lsm_scan_run [OF assms(1-3), of ev "Some n" t1 t2 column_all] assms(7)
    by (simp add: execute_def range_query_def bind_eff_def map_err_eff_def query_columns_def)
  from on_lsm_run [of "execute ev avx2 (range_query n t1 t2)", OF this]
  show "db_query_range ev avx2 n t1 t2 d = (Err (DbExec (ExecLsm (SymbolNotFound n))), d)"
    by (simp add: db_query_range_def db_query_def parse_range [OF assms(4-6)] bind_eff_def lift_outcome_def)
  have "scan_symbol_id (Some n) (db_lsm d) = (Err (SymbolNotFound n), db_lsm d)"
    using assms(1,7) by (simp add: scan_symbol_id_run)
  then show "db_count_range ev n t1 t2 d = (Err (DbLsm (SymbolNotFound n)), d)"
    by (simp add: db_count_range_def db_scan_stream_def lsm_scan_stream_def make_scan_params_def on_lsm_def bind_eff_def)
qed

text \<open>
  C9. The tool cannot read back what it has written: after an insert into an empty directory,
  which prints \<open>ok\<close>, a range query (with bounds below \<open>10\<^sup>1\<^sup>5\<close>) or a count of that symbol by the next run fails with
  \<open>SymbolNotFound\<close>, since the names of symbols are not recovered from the log.
\<close>

theorem cli_insert_then_read_fails:
  assumes "no_sst_files w" and "db_open ev path [] None w = Ok d0"
    and "storable_tick ev \<lparr>t_symbol_id = 0, t_timestamp = timestamp, t_open = op, t_high = high, t_low = low,
      t_close = cl, t_volume = volume\<rparr>"
    and "is_name n" and "short_int t1" and "short_int t2"
  shows "\<exists>disk. cli_main ev avx2 path (CliInsert n timestamp op high low cl volume) ([], None, w)
      = (Ok (ExitSuccess, [LineOk]), disk) \<and>
    fst (cli_main ev avx2 path (CliRange n t1 t2 json) disk)
      = Ok (ExitFailure, [LineError ''range query failed'' (DbExec (ExecLsm (SymbolNotFound n)))]) \<and>
    fst (cli_main ev avx2 path (CliCount n t1 t2) disk)
      = Ok (ExitFailure, [LineError ''count failed'' (DbLsm (SymbolNotFound n))])"
proof -
  let ?t = "\<lparr>t_symbol_id = 0, t_timestamp = timestamp, t_open = op, t_high = high, t_low = low, t_close = cl, t_volume = volume\<rparr>"
  obtain s where s: "lsm_open ev path config_default [] None w = Ok s" "d0 = \<lparr>db_path = path, db_lsm = s\<rparr>"
    using assms(2) by (cases "lsm_open ev path config_default [] None w") (auto simp: db_open_def db_open_with_config_def)
  have f: "fresh_open ev path config_default w s" using s(1) assms(1) by (simp add: fresh_open_def config_default_def)
  have c: "node_role_cfg config_default = Primary" "\<forall>(n, t) \<in> set [(n, ?t)]. storable_tick ev t"
    "length [(n, ?t)] < memtable_flush_threshold config_default"
    using assms(3) by (simp_all add: config_default_def MEMTABLE_FLUSH_THRESHOLD_def)
  obtain dict us where r: "resolve_writes dict_new [(n, ?t)] = (dict, us)" by fastforce
  obtain mt0 mt1 where s0: "s = fresh_lsm ev path config_default w mt0 empty_wal \<lparr>rt_file = None, rt_state = None\<rparr>"
    and i: "insert_each ev [(n, ?t)] s = (Ok (), after_writes ev dict us mt1 s)"
    using fresh_writes [OF f c(1-3) r] by metis
  let ?s = "after_writes ev dict us mt1 s"
  obtain mt wl where re: "restart ev config_default ?s
      = Ok (fresh_lsm ev path config_default w mt wl \<lparr>rt_file = None, rt_state = None\<rparr>)" "sl_rep mt (tick_insert_all [] us)"
    by (rule restart_run [OF f c(1-3) r i])
  let ?disk = "disk_of \<lparr>db_path = path, db_lsm = ?s\<rparr>"
  let ?d = "\<lparr>db_path = path, db_lsm = fresh_lsm ev path config_default w mt wl \<lparr>rt_file = None, rt_state = None\<rparr>\<rparr>"
  have "lsm_insert ev n ?t s = (Ok (), ?s)"
    using i by (simp add: insert_each_def bind_eff_def ret_def split: prod.splits outcome.splits)
  then have one: "cli_main ev avx2 path (CliInsert n timestamp op high low cl volume) ([], None, w)
      = (Ok (ExitSuccess, [LineOk]), ?disk)"
    using assms(2) s(2)
    by (simp add: cli_main_def run_command_def match_result_def db_insert_def insert_tick_def on_lsm_def)
  have two: "db_open ev path (fst ?disk) (fst (snd ?disk)) (snd (snd ?disk)) = Ok ?d"
    using re(1) by (simp add: disk_of_def restart_def db_open_def db_open_with_config_def s0)
  have st: "ls_held (db_lsm ?d) = []" "sl_rep (ls_memtable (db_lsm ?d)) (tick_insert_all [] us)" "no_tables (db_lsm ?d)"
    "get_id (ls_symbol_dict (db_lsm ?d)) n = None"
    using re(2) by (simp_all add: get_id_def dict_new_def)
  note q = query_range_unknown [OF st(1-3) assms(4-6) st(4)]
  have "fst (cli_main ev avx2 path (CliRange n t1 t2 json) ?disk)
      = Ok (ExitFailure, [LineError ''range query failed'' (DbExec (ExecLsm (SymbolNotFound n)))])"
    "fst (cli_main ev avx2 path (CliCount n t1 t2) ?disk)
      = Ok (ExitFailure, [LineError ''count failed'' (DbLsm (SymbolNotFound n))])"
    using two q by (simp_all add: cli_main_def run_command_def match_result_def split_beta)
  with one show ?thesis by blast
qed

theorem cli_insert_then_read_fails_witness:
  "\<exists>disk. cli_main example_env True ''d'' (CliInsert ''AAPL'' 1000 0 0 0 0 100) ([], None, example_world)
      = (Ok (ExitSuccess, [LineOk]), disk) \<and>
    fst (cli_main example_env True ''d'' (CliRange ''AAPL'' 0 2000 False) disk)
      = Ok (ExitFailure, [LineError ''range query failed'' (DbExec (ExecLsm (SymbolNotFound ''AAPL'')))])"
proof -
  obtain s where "fresh_open example_env ''d'' config_default example_world s" using example_fresh by blast
  then have d: "db_open example_env ''d'' [] None example_world = Ok \<lparr>db_path = ''d'', db_lsm = s\<rparr>"
    and w: "no_sst_files example_world"
    by (simp_all add: fresh_open_def db_open_def db_open_with_config_def)
  have n: "is_name ''AAPL''" "short_int 0" "short_int 2000"
    by (simp_all add: is_name_def keyword_token_def char_class_defs short_int_def)
  from cli_insert_then_read_fails [OF w d _ n] show ?thesis by simp blast
qed

end
