(* ===== verification/Spec2Isabelle.thy ===== *)
theory Spec2Isabelle
  imports LsmFaults LockTrace GqlBars GqlFaults PyBindings Cluster Cli
begin

text \<open>
  Graphite is an embedded time-series database: an LSM-tree of ticks (open, high, low, close and
  volume per symbol and nanosecond) with a write-ahead log, a skip-list memtable, columnar
  SSTables, a block cache, cold storage, log replication, a query language, a server and a shell
  tool on top.  This development models its Rust code and states what it does.

  The parts and how they interact.  A write goes through \<^verbatim>\<open>LsmTree\<close>: the dictionary gives the
  symbol an id, the log takes a frame, the memtable takes the tick, and at a threshold the memtable
  is drained into a table of level 0.  A read asks the memtable and then the tables, whose blocks
  pass through the cache; compaction merges a level into the next; archived tables are restored
  from the object store before they are opened.  A replica is fed from the log.  \<^verbatim>\<open>DB\<close> puts the
  query language on the engine, and the server and the tool put requests and commands on \<^verbatim>\<open>DB\<close>.

  The theories, with the files they model (below \<^verbatim>\<open>graphite-core/src\<close> where no other directory is
  named), in the order they build on each other:

  \<^item> \<open>Prelude\<close>: machine integers, outcomes of fallible code (\<open>Ok\<close>, \<open>Err\<close>, \<open>Panic\<close>, \<open>Deadlock\<close>),
    slices, big-endian bytes and leading zeros.  \<open>F64\<close>, \<open>F64Integers\<close>: binary64 as bit patterns
    with exact rounding, and its integers.
  \<^item> \<open>Types\<close>: \<^verbatim>\<open>types.rs\<close> and \<^verbatim>\<open>batch.rs\<close>, and sorted lists of ticks as the specification of the
    stores.  \<open>Memtable\<close>: the interface of a memtable (locale \<open>memtable\<close>), interpreted in
    \<open>SkipList\<close>, \<^verbatim>\<open>skip_list.rs\<close> on an explicit heap of nodes.
  \<^item> \<open>ColumnCodec\<close>: the interface of a column codec; \<open>Gorilla\<close>, \<open>Delta\<close>, \<open>Dictionary\<close>, \<open>RleLz4\<close>:
    the files of \<^verbatim>\<open>compression\<close>.
  \<^item> \<open>Bloom\<close>: \<^verbatim>\<open>bloom.rs\<close>.  \<open>BlockCache\<close>: \<^verbatim>\<open>block_cache.rs\<close>, the intrusive list as arrays of
    nodes and indices.  \<open>SsTable\<close>: \<^verbatim>\<open>sstable.rs\<close>, files as bytes.  \<open>Wal\<close>: \<^verbatim>\<open>wal.rs\<close>.
    \<open>Replication\<close>: \<^verbatim>\<open>replication.rs\<close>.
  \<^item> \<open>World\<close>: the effects (a state and an outcome), the directory and the clock; \<open>ColdTier\<close>:
    \<^verbatim>\<open>cold_tier.rs\<close>; \<open>Compaction\<close>: \<^verbatim>\<open>compaction.rs\<close>; \<open>ScanIter\<close>: \<^verbatim>\<open>scan_iter.rs\<close>.
  \<^item> \<open>Lsm\<close>: \<^verbatim>\<open>lsm.rs\<close> and one tick of \<^verbatim>\<open>compaction_scheduler.rs\<close>, every operation with the locks
    it takes.  \<open>LsmWrites\<close> and \<open>LsmReads\<close> give its writes and reads in closed form;
    \<open>LsmCorrect\<close>, \<open>LsmReplication\<close> and \<open>LsmFaults\<close> hold its properties.
  \<^item> \<open>LockOrder\<close>: the acquisitions of each operation of \<^verbatim>\<open>lsm.rs\<close> as a list and pools of threads as
    a step relation (\<open>step\<close>), with the results on exclusion, progress and deadlocks.  \<open>LockTrace\<close>:
    the operations of \<open>Lsm\<close> acquire along these lists: they stop where a list does, with the
    guards it holds there (\<open>follows_from\<close>).
  \<^item> \<open>GqlAst\<close>, \<open>GqlLexer\<close>, \<open>GqlParser\<close>, \<open>GqlExec\<close>: the files of \<^verbatim>\<open>graphite/src/gql\<close>.  \<open>GqlText\<close>
    and \<open>GqlRoundtrip\<close> prove the round trip of texts, \<open>GqlTypes\<close> what the parser accepts,
    \<open>GqlFaults\<close> what it rejects or ignores, \<open>GqlBars\<close> the aggregates.
  \<^item> \<open>Db\<close> and \<open>DbCorrect\<close>: \<^verbatim>\<open>graphite/src/db.rs\<close>.  \<open>Server\<close> and \<open>ServerCorrect\<close>:
    \<^verbatim>\<open>graphite-server/src/main.rs\<close>.  \<open>Cluster\<close>: runs of a primary and a replica of it as a
    relation (\<open>cluster_run\<close>), with posts, rounds of the pull loop and lost requests.  \<open>Cli\<close>:
    \<^verbatim>\<open>graphite-cli/src/main.rs\<close>.  \<open>PyBindings\<close>: \<^verbatim>\<open>graphite-py/src/lib.rs\<close>.

  State and operations.  A struct is a record, an enum a datatype, a method of \<^verbatim>\<open>&mut self\<close> a
  function on the record; \<open>bytes\<close> are lists of 8-bit words, \<^verbatim>\<open>u64\<close> and \<^verbatim>\<open>i64\<close> 64-bit words (read
  with \<open>unat\<close> and \<open>sint\<close>), \<^verbatim>\<open>f64\<close> its bit pattern, a \<^verbatim>\<open>HashMap\<close> a map.  Arithmetic wraps round, as
  in a release build.  Locks are recorded while they are held, and asking for one that is held in a
  conflicting mode is the outcome \<open>Deadlock\<close>.  Names are the code's; operations of different types
  that share a name carry a prefix (\<open>sl_\<close>, \<open>sst_\<close>, \<open>wal_\<close>, \<open>lsm_\<close>, \<open>db_\<close>, \<open>py_\<close>).

  Threads.  In \<open>Lsm\<close> one thread runs, and the guards of other threads can be part of the state it
  starts in; a thread that blocks leaves the guards it holds and the acquisition it waits for in the
  state (\<open>ls_held\<close> and \<open>ls_waits_for\<close>; the latter is read by no operation).  In \<open>LockOrder\<close> any number of
  threads run, each at a place of its operation's list; the tie between the two is the relation
  \<open>follows_from\<close> of \<open>LockTrace\<close>, which compares where an operation and its list stop and so pins
  down the order of the acquisitions.

  What the lemmas show.  The memtable and the cache refine a sorted list and a list of blocks; the
  codecs are lossless within bounds that are stated, and lossy beyond; the log recovers what was
  appended; a new engine below its flush threshold returns the last write, keeps its ticks when
  the process ends between appends or within the first three bytes of one, and feeds a replica;
  through the server a replica is at any time a past primary, and it catches up however many
  requests were lost; texts of queries are parsed back, parsed queries are well typed, a range
  query with bounds below \<open>10\<^sup>1\<^sup>5\<close> returns the last ticks of its range, the vectorized filter equals
  the scalar one and bars are one per bucket.  The operations that take their locks in the order
  dictionary, memtable, log, levels, tracker never deadlock together.  From Python a bulk insert is
  the loop of inserts and a stream yields the rows of the query.  The theorems also show where the
  code fails: written tables cannot be opened, so a flush loses its ticks; the insert that reaches
  the threshold blocks and with it everything that uses the dictionary; a log that is cut within a
  frame cannot be opened; a streaming scan and an insert can block each other; symbols are
  forgotten by a restart; nanosecond timestamps cannot be queried; a push ignores refusals, and a
  batch that is sent again takes a replica back to older values; with \<open>polars\<close> installed a query
  raises.

  Bounds and termination.  The model has no fuel: the loops are structural, or terminate by a
  measure (bytes or tokens left, tables left, nodes behind a node, with \<open>None\<close> for a bad pointer).
  Where a theorem bounds its inputs the bound is the code's: 10000 ticks is the default threshold,
  65536 symbols fit the ids, 500 entries are one batch of the server, so that 20 rounds fetch the
  log of 10000 ticks, \<open>10\<^sup>1\<^sup>5\<close> is the limit of integer tokens.
  Runs of a pool of threads are bounded by the number of actions left.

  Parameters, for code that is not in the repository: the LZ4 and ZSTD compressors, \<^verbatim>\<open>serde_json\<close>
  and CRC32 of the log (\<open>wal_format\<close>), the JSON of the tracker and the manifest, \<^verbatim>\<open>from_utf8_lossy\<close>,
  \<^verbatim>\<open>ln\<close>, the random generator of the skip list, the clock, the object store, the network and
  whether the processor has AVX2, the package \<open>polars\<close>.  The hypotheses on them (\<open>storable_tick\<close>,
  \<open>rep_lossless\<close>, \<open>lz4_lossless\<close>) say that what is written is read back, \<open>checks_keywords\<close> that a
  Python call checks its keywords; each has an instance here.

  Not modelled.  The benchmarks, which only call \<^verbatim>\<open>DB\<close>; command line parsing, the HTTP transport
  and JSON bodies of the server; the timers and the start of threads and tasks, whose steps are
  operations of their own (\<open>background_tick\<close>, \<open>push_to_replicas\<close>, \<open>replica_sync_round\<close>); what an
  operation computes while others run between its acquisitions (its locks are interleaved in
  \<open>LockOrder\<close>, its data are not); the mutexes of the block cache and of the manifest, which are
  dropped before anything else is acquired; input and output errors of the file system, which is
  taken to succeed; queries with characters beyond ASCII; the text of floating-point numbers and of
  errors.
\<close>

end
